(* ===== verification/Prelude.thy ===== *)
theory Prelude
  imports Main "HOL-Library.Word"
begin

section \<open>Shared library: actions, ordered maps, lemma collections\<close>

text \<open>
  What every component of the development shares.

  \<^item> Actions: a C++ member function that mutates its object and may throw is a function from
    the state to an outcome and a new state. The new state is returned with a thrown exception
    too, because C++ keeps the mutations made before the throw.
  \<^item> Ordered maps: \<open>std::map\<close> and \<open>std::set\<close> are lists of key-value pairs in strictly
    increasing key order; insertion keeps an element whose key is already present, as both
    containers do.
  \<^item> The collections \<open>om_simps\<close> (ordered maps), \<open>act_simps\<close> (running an action),
    \<open>pres_intros\<close> (an action preserves an invariant) and \<open>safe_intros\<close> (an action returns, in a
    state that satisfies a postcondition).
\<close>

named_theorems om_simps \<open>rewriting of ordered maps\<close>
named_theorems act_simps \<open>running actions\<close>
named_theorems pres_intros \<open>invariant preservation, one rule for each way of building an action\<close>
named_theorems safe_intros \<open>total correctness, one rule for each way of building an action\<close>

subsection \<open>Actions\<close>

type_synonym ('s, 'e, 'a) action = "'s \<Rightarrow> ('e + 'a) \<times> 's"

definition sreturn :: "'a \<Rightarrow> ('s, 'e, 'a) action" where
  "sreturn a = (\<lambda>s. (Inr a, s))"

definition sthrow :: "'e \<Rightarrow> ('s, 'e, 'a) action" where
  "sthrow e = (\<lambda>s. (Inl e, s))"

definition sread :: "('s \<Rightarrow> 'a) \<Rightarrow> ('s, 'e, 'a) action" where
  "sread f = (\<lambda>s. (Inr (f s), s))"

definition smodify :: "('s \<Rightarrow> 's) \<Rightarrow> ('s, 'e, unit) action" where
  "smodify f = (\<lambda>s. (Inr (), f s))"

definition sbind :: "('s, 'e, 'a) action \<Rightarrow> ('a \<Rightarrow> ('s, 'e, 'b) action) \<Rightarrow> ('s, 'e, 'b) action" where
  "sbind m f = (\<lambda>s. case m s of (r, s') \<Rightarrow> (case r of Inl e \<Rightarrow> (Inl e, s') | Inr a \<Rightarrow> f a s'))"

definition sseq :: "('s, 'e, 'a) action \<Rightarrow> ('s, 'e, 'b) action \<Rightarrow> ('s, 'e, 'b) action" where
  "sseq m n = sbind m (\<lambda>_. n)"

definition swhen :: "bool \<Rightarrow> ('s, 'e, unit) action \<Rightarrow> ('s, 'e, unit) action" where
  "swhen b m = (if b then m else sreturn ())"

definition scatch :: "('s, 'e, 'a) action \<Rightarrow> ('e \<Rightarrow> ('s, 'e, 'a) action) \<Rightarrow> ('s, 'e, 'a) action" where
  "scatch m h = (\<lambda>s. case m s of (r, s') \<Rightarrow> (case r of Inl e \<Rightarrow> h e s' | Inr a \<Rightarrow> (Inr a, s')))"

fun sfor :: "'x list \<Rightarrow> ('x \<Rightarrow> ('s, 'e, unit) action) \<Rightarrow> ('s, 'e, unit) action" where
  "sfor [] f = sreturn ()"
| "sfor (x # xs) f = sseq (f x) (sfor xs f)"

fun sseqs :: "('s, 'e, unit) action list \<Rightarrow> ('s, 'e, unit) action" where
  "sseqs [] = sreturn ()"
| "sseqs (m # ms) = sseq m (sseqs ms)"

lemma sreturn_run [act_simps]: "sreturn a s = (Inr a, s)"
  by (simp add: sreturn_def)

lemma sthrow_run [act_simps]: "sthrow e s = (Inl e, s)"
  by (simp add: sthrow_def)

lemma sread_run [act_simps]: "sread f s = (Inr (f s), s)"
  by (simp add: sread_def)

lemma smodify_run [act_simps]: "smodify f s = (Inr (), f s)"
  by (simp add: smodify_def)

lemma sbind_run [act_simps]:
  "sbind m f s = (case m s of (r, s') \<Rightarrow> (case r of Inl e \<Rightarrow> (Inl e, s') | Inr a \<Rightarrow> f a s'))"
  by (simp add: sbind_def)

lemma sseq_run [act_simps]:
  "sseq m n s = (case m s of (r, s') \<Rightarrow> (case r of Inl e \<Rightarrow> (Inl e, s') | Inr a \<Rightarrow> n s'))"
  by (simp add: sseq_def sbind_def)

lemma swhen_run [act_simps]: "swhen b m s = (if b then m s else (Inr (), s))"
  by (simp add: swhen_def sreturn_def)

lemma scatch_run [act_simps]:
  "scatch m h s = (case m s of (r, s') \<Rightarrow> (case r of Inl e \<Rightarrow> h e s' | Inr a \<Rightarrow> (Inr a, s')))"
  by (simp add: scatch_def)

text \<open>
  An action preserves a predicate when the state it leaves satisfies it, whether the action
  returned or threw.
\<close>

definition preserves :: "('s \<Rightarrow> bool) \<Rightarrow> ('s, 'e, 'a) action \<Rightarrow> bool" where
  "preserves I m \<longleftrightarrow> (\<forall>s. I s \<longrightarrow> I (snd (m s)))"

lemma preservesI: "(\<And>s. I s \<Longrightarrow> I (snd (m s))) \<Longrightarrow> preserves I m"
  by (simp add: preserves_def)

lemma preservesD: "preserves I m \<Longrightarrow> I s \<Longrightarrow> I (snd (m s))"
  by (simp add: preserves_def)

lemma preservesD': "preserves I m \<Longrightarrow> I s \<Longrightarrow> m s = (r, s') \<Longrightarrow> I s'"
  using preservesD [of I m s] by simp

lemma preserves_return [pres_intros]: "preserves I (sreturn a)"
  by (simp add: preserves_def sreturn_def)

lemma preserves_throw [pres_intros]: "preserves I (sthrow e)"
  by (simp add: preserves_def sthrow_def)

lemma preserves_read [pres_intros]: "preserves I (sread f)"
  by (simp add: preserves_def sread_def)

lemma preserves_modify [pres_intros]: "(\<And>s. I s \<Longrightarrow> I (f s)) \<Longrightarrow> preserves I (smodify f)"
  by (simp add: preserves_def smodify_def)

lemma preserves_bind [pres_intros]:
  assumes "preserves I m" and "\<And>a. preserves I (f a)"
  shows "preserves I (sbind m f)"
proof (rule preservesI)
  fix s
  assume I: "I s"
  obtain r s' where m: "m s = (r, s')" by fastforce
  have "I s'" using preservesD' [OF assms(1) I m] .
  then show "I (snd (sbind m f s))"
    using preservesD [OF assms(2)] by (cases r) (simp_all add: sbind_def m)
qed

lemma preserves_seq [pres_intros]: "preserves I m \<Longrightarrow> preserves I n \<Longrightarrow> preserves I (sseq m n)"
  by (simp add: sseq_def preserves_bind)

lemma preserves_when [pres_intros]: "(b \<Longrightarrow> preserves I m) \<Longrightarrow> preserves I (swhen b m)"
  by (simp add: swhen_def preserves_return)

lemma preserves_catch [pres_intros]:
  assumes "preserves I m" and "\<And>e. preserves I (h e)"
  shows "preserves I (scatch m h)"
proof (rule preservesI)
  fix s
  assume I: "I s"
  obtain r s' where m: "m s = (r, s')" by fastforce
  have "I s'" using preservesD' [OF assms(1) I m] .
  then show "I (snd (scatch m h s))"
    using preservesD [OF assms(2)] by (cases r) (simp_all add: scatch_def m)
qed

lemma preserves_for [pres_intros]: "(\<And>x. preserves I (f x)) \<Longrightarrow> preserves I (sfor xs f)"
  by (induction xs) (simp_all add: preserves_return preserves_seq)

lemma preserves_seqs [pres_intros]: "(\<And>m. m \<in> set ms \<Longrightarrow> preserves I m) \<Longrightarrow> preserves I (sseqs ms)"
  by (induction ms) (simp_all add: preserves_return preserves_seq)

lemma preserves_if [pres_intros]:
  "(b \<Longrightarrow> preserves I m) \<Longrightarrow> (\<not> b \<Longrightarrow> preserves I n) \<Longrightarrow> preserves I (if b then m else n)"
  by simp

lemma preserves_option [pres_intros]:
  "(x = None \<Longrightarrow> preserves I m) \<Longrightarrow> (\<And>a. x = Some a \<Longrightarrow> preserves I (f a)) \<Longrightarrow>
   preserves I (case x of None \<Rightarrow> m | Some a \<Rightarrow> f a)"
  by (cases x) simp_all

text \<open>Total correctness: from a state that satisfies \<open>P\<close> the action returns, it does not throw, and
  its result and the state it leaves satisfy \<open>Q\<close>.\<close>

definition safe :: "('s \<Rightarrow> bool) \<Rightarrow> ('s, 'e, 'a) action \<Rightarrow> ('a \<Rightarrow> 's \<Rightarrow> bool) \<Rightarrow> bool" where
  "safe P m Q \<longleftrightarrow> (\<forall>s. P s \<longrightarrow> (\<exists>a s'. m s = (Inr a, s') \<and> Q a s'))"

lemma safeI: "(\<And>s. P s \<Longrightarrow> \<exists>a s'. m s = (Inr a, s') \<and> Q a s') \<Longrightarrow> safe P m Q"
  by (simp add: safe_def)

lemma safeD: "safe P m Q \<Longrightarrow> P s \<Longrightarrow> \<exists>a s'. m s = (Inr a, s') \<and> Q a s'"
  by (simp add: safe_def)

lemma safe_weaken: "safe P m Q \<Longrightarrow> (\<And>s. P' s \<Longrightarrow> P s) \<Longrightarrow> (\<And>a s. Q a s \<Longrightarrow> Q' a s) \<Longrightarrow> safe P' m Q'"
  unfolding safe_def by metis

lemma safe_return [safe_intros]: "(\<And>s. P s \<Longrightarrow> Q a s) \<Longrightarrow> safe P (sreturn a) Q"
  by (simp add: safe_def sreturn_def)

lemma safe_modify [safe_intros]: "(\<And>s. P s \<Longrightarrow> Q () (f s)) \<Longrightarrow> safe P (smodify f) Q"
  by (simp add: safe_def smodify_def)

lemma safe_bind:
  assumes "safe P m R" and "\<And>a. safe (R a) (f a) Q"
  shows "safe P (sbind m f) Q"
proof (rule safeI)
  fix s
  assume "P s"
  then obtain a s1 where m: "m s = (Inr a, s1)" "R a s1" using safeD [OF assms(1)] by blast
  then obtain b s2 where "f a s1 = (Inr b, s2)" "Q b s2" using safeD [OF assms(2)] by blast
  then show "\<exists>b s2. sbind m f s = (Inr b, s2) \<and> Q b s2" by (simp add: sbind_def m)
qed

lemma safe_seq: "safe P m (\<lambda>_. R) \<Longrightarrow> safe R n Q \<Longrightarrow> safe P (sseq m n) Q"
  unfolding sseq_def by (rule safe_bind)

lemma safe_bind_read [safe_intros]:
  "(\<And>a. safe (\<lambda>s. P s \<and> a = f s) (g a) Q) \<Longrightarrow> safe P (sbind (sread f) g) Q"
  by (auto simp: safe_def sbind_def sread_def)

lemma safe_for:
  assumes "\<And>x. x \<in> set xs \<Longrightarrow> safe P (f x) (\<lambda>_. P)"
  shows "safe P (sfor xs f) (\<lambda>_. P)"
  using assms by (induction xs) (auto intro: safe_return safe_seq)

lemma safe_when: "(b \<Longrightarrow> safe P m (\<lambda>_. P)) \<Longrightarrow> safe P (swhen b m) (\<lambda>_. P)"
  by (simp add: swhen_def safe_return)

lemma safe_preserves: "safe P m (\<lambda>_. P) \<Longrightarrow> preserves P m"
  unfolding safe_def preserves_def by fastforce

text \<open>A loop whose body only modifies the state is a fold.\<close>

lemma sfor_modify: "sfor xs (\<lambda>x. smodify (f x)) s = (Inr (), fold f xs s)"
  by (induction xs arbitrary: s) (simp_all add: act_simps)

subsection \<open>Ordered maps\<close>

fun om_insert :: "'k::linorder \<Rightarrow> 'v \<Rightarrow> ('k \<times> 'v) list \<Rightarrow> ('k \<times> 'v) list" where
  "om_insert k v [] = [(k, v)]"
| "om_insert k v ((k', v') # m) =
     (if k < k' then (k, v) # (k', v') # m
      else if k = k' then (k', v') # m
      else (k', v') # om_insert k v m)"

definition om_erase :: "'k \<Rightarrow> ('k \<times> 'v) list \<Rightarrow> ('k \<times> 'v) list" where
  "om_erase k m = filter (\<lambda>p. fst p \<noteq> k) m"

definition om_modify :: "'k \<Rightarrow> ('v \<Rightarrow> 'v) \<Rightarrow> ('k \<times> 'v) list \<Rightarrow> ('k \<times> 'v) list" where
  "om_modify k f m = map (\<lambda>p. if fst p = k then (fst p, f (snd p)) else p) m"

definition om_ok :: "('k::linorder \<times> 'v) list \<Rightarrow> bool" where
  "om_ok m \<longleftrightarrow> sorted_wrt (<) (map fst m)"

lemma om_ok_Nil [simp]: "om_ok []"
  by (simp add: om_ok_def)

lemma om_ok_Cons [simp]: "om_ok (p # m) \<longleftrightarrow> (\<forall>q \<in> set m. fst p < fst q) \<and> om_ok m"
  by (auto simp: om_ok_def)

lemma om_ok_distinct: "om_ok m \<Longrightarrow> distinct (map fst m)"
  by (induction m) auto

lemma om_ok_unique: "om_ok m \<Longrightarrow> (k, v) \<in> set m \<Longrightarrow> (k, w) \<in> set m \<Longrightarrow> v = w"
  by (metis om_ok_distinct eq_key_imp_eq_value)

lemma om_ok_map_of: "om_ok m \<Longrightarrow> map_of m k = Some v \<longleftrightarrow> (k, v) \<in> set m"
  by (metis om_ok_distinct map_of_eq_Some_iff)

lemma om_keys_insert [om_simps]: "fst ` set (om_insert k v m) = insert k (fst ` set m)"
  by (induction k v m rule: om_insert.induct) auto

lemma om_set_insert: "set (om_insert k v m) \<subseteq> insert (k, v) (set m)"
  by (induction k v m rule: om_insert.induct) auto

lemma om_set_insert_fresh [om_simps]:
  "k \<notin> fst ` set m \<Longrightarrow> set (om_insert k v m) = insert (k, v) (set m)"
  by (induction k v m rule: om_insert.induct) auto

lemma om_insert_present [om_simps]: "om_ok m \<Longrightarrow> k \<in> fst ` set m \<Longrightarrow> om_insert k v m = m"
  by (induction k v m rule: om_insert.induct) (auto simp: image_iff)

lemma om_ok_insert: "om_ok m \<Longrightarrow> om_ok (om_insert k v m)"
proof (induction k v m rule: om_insert.induct)
  case (2 k v k' v' m)
  show ?case
    using 2 om_set_insert [of k v m] by (auto intro: less_trans)
qed simp

lemma om_length_insert_fresh [om_simps]:
  "k \<notin> fst ` set m \<Longrightarrow> length (om_insert k v m) = Suc (length m)"
  by (induction k v m rule: om_insert.induct) auto

lemma om_map_of_insert [om_simps]:
  "om_ok m \<Longrightarrow> map_of (om_insert k v m) =
     (case map_of m k of None \<Rightarrow> (map_of m)(k \<mapsto> v) | Some _ \<Rightarrow> map_of m)"
proof (induction k v m rule: om_insert.induct)
  case (2 k v k' v' m)
  have "k < k' \<Longrightarrow> map_of m k = None"
    using 2(2) by (fastforce simp: map_of_eq_None_iff)
  then show ?case
    using 2 by (auto split: option.splits)
qed simp

lemma om_set_erase [om_simps]: "set (om_erase k m) = {p \<in> set m. fst p \<noteq> k}"
  by (auto simp: om_erase_def)

lemma om_ok_erase: "om_ok m \<Longrightarrow> om_ok (om_erase k m)"
  by (induction m) (auto simp: om_erase_def)

lemma om_map_of_erase [om_simps]: "map_of (om_erase k m) = (map_of m)(k := None)"
  by (induction m) (auto simp: om_erase_def)

lemma om_erase_absent [om_simps]: "k \<notin> fst ` set m \<Longrightarrow> om_erase k m = m"
  by (induction m) (auto simp: om_erase_def)

lemma om_length_erase:
  "om_ok m \<Longrightarrow> k \<in> fst ` set m \<Longrightarrow> Suc (length (om_erase k m)) = length m"
proof (induction m)
  case (Cons p m)
  show ?case
  proof (cases "fst p = k")
    case True
    then have "k \<notin> fst ` set m" using Cons.prems(1) by auto
    then show ?thesis using True by (simp add: om_erase_def flip: om_erase_absent)
        (metis (mono_tags, lifting) filter_True image_eqI)
  next
    case False
    then show ?thesis using Cons by (auto simp: om_erase_def)
  qed
qed simp

lemma om_keys_modify [om_simps]: "map fst (om_modify k f m) = map fst m"
  by (induction m) (auto simp: om_modify_def)

lemma om_ok_modify [om_simps]: "om_ok (om_modify k f m) = om_ok m"
  by (simp add: om_ok_def om_keys_modify)

lemma om_length_modify [om_simps]: "length (om_modify k f m) = length m"
  by (simp add: om_modify_def)

lemma om_set_modify [om_simps]:
  "set (om_modify k f m) = {p \<in> set m. fst p \<noteq> k} \<union> {(k, f v) | v. (k, v) \<in> set m}"
  by (force simp: om_modify_def image_iff)

lemma om_map_of_modify [om_simps]:
  "map_of (om_modify k f m) = (map_of m)(k := map_option f (map_of m k))"
  by (induction m) (auto simp: om_modify_def)

text \<open>Two ordered maps with the same elements are the same list.\<close>

lemma om_ok_eqI: "om_ok m \<Longrightarrow> om_ok n \<Longrightarrow> set m = set n \<Longrightarrow> m = n"
proof (induction m arbitrary: n)
  case (Cons p m)
  show ?case
  proof (cases n)
    case (Cons q n')
    have "p = q"
    proof (rule ccontr)
      assume "p \<noteq> q"
      then have "p \<in> set n'" and "q \<in> set m"
        using Cons.prems(3) Cons by auto
      then have "fst q < fst p" and "fst p < fst q"
        using Cons.prems(1,2) Cons by auto
      then show False by simp
    qed
    have "p \<notin> set m" and "p \<notin> set n'"
      using Cons.prems(1,2) Cons \<open>p = q\<close> by auto
    then have "set m = set n'"
      using Cons.prems(3) Cons \<open>p = q\<close> by auto
    then show ?thesis
      using Cons.IH [of n'] Cons.prems(1,2) Cons \<open>p = q\<close> by simp
  qed (use Cons.prems in simp)
qed simp

lemma om_length_card: "om_ok m \<Longrightarrow> length m = card (set m)"
  by (metis distinct_card distinct_map om_ok_distinct)

subsection \<open>Lists and counting\<close>

lemma length_filter_modify:
  assumes "om_ok m" and "map_of m k = Some v"
  shows "length (filter P (om_modify k f m)) + (if P (k, v) then 1 else 0) =
         length (filter P m) + (if P (k, f v) then 1 else 0)"
  using assms
proof (induction m)
  case (Cons p m)
  show ?case
  proof (cases "fst p = k")
    case True
    then have "k \<notin> fst ` set m" using Cons.prems(1) by auto
    then have "om_modify k f m = m" by (force simp: om_modify_def intro: map_idI)
    moreover have "snd p = v" using Cons.prems(2) True by (cases p) simp
    ultimately show ?thesis using True by (cases p) (simp add: om_modify_def)
  next
    case False
    then have "map_of m k = Some v" using Cons.prems(2) by (cases p) simp
    then show ?thesis using Cons False by (simp add: om_modify_def)
  qed
qed simp

lemma length_filter_erase:
  assumes "om_ok m" and "map_of m k = Some v"
  shows "length (filter P (om_erase k m)) + (if P (k, v) then 1 else 0) = length (filter P m)"
  using assms
proof (induction m)
  case (Cons p m)
  show ?case
  proof (cases "fst p = k")
    case True
    then have "k \<notin> fst ` set m" using Cons.prems(1) by auto
    then have "om_erase k m = m" by (rule om_erase_absent)
    moreover have "snd p = v" using Cons.prems(2) True by (cases p) simp
    ultimately show ?thesis using True by (cases p) (simp add: om_erase_def)
  next
    case False
    then have "map_of m k = Some v" using Cons.prems(2) by (cases p) simp
    then show ?thesis using Cons False by (simp add: om_erase_def)
  qed
qed simp

lemma length_filter_insert:
  assumes "k \<notin> fst ` set m"
  shows "length (filter P (om_insert k v m)) = length (filter P m) + (if P (k, v) then 1 else 0)"
  using assms by (induction k v m rule: om_insert.induct) auto

end
