(* ===== verification/Failures.thy ===== *)
theory Failures
  imports Prelude
begin

section \<open>Exceptions and undefined behaviour\<close>

text \<open>
  The exception classes of the repository (\<open>ChatException\<close>, \<open>GameException\<close>,
  \<open>NetworkException\<close>, \<open>SessionException\<close>, \<open>PacketException\<close>), the standard exceptions the
  source throws or lets through, and the undefined behaviour of C++ that the source can run
  into. Undefined behaviour is an outcome of its own (\<open>Undefined\<close>), never caught by a handler,
  so that "this cannot go wrong" is a statement of the model. \<open>Out_of_fuel\<close> is no exception of
  the source: it is the outcome of a loop that has not ended within the steps the model was given.
\<close>

datatype chat_kind =
    USER_NOT_FOUND
  | USER_NICKNAME_TAKEN
  | ROOM_NOT_FOUND
  | ROOM_FULL
  | NOT_ALLOWED_DURING_GAME
  | NOT_ALLOWED_OPTION
  | REQUIRES_GAME

record chat_exception =
  ce_kind :: chat_kind
  ce_what :: string
  ce_details :: "string option"

fun chat_what_message :: "chat_kind \<Rightarrow> string" where
  "chat_what_message USER_NOT_FOUND = ''The specified user is not in the game room.''"
| "chat_what_message USER_NICKNAME_TAKEN = ''The specified nickname is already in use.''"
| "chat_what_message ROOM_FULL = ''The room is full.''"
| "chat_what_message ROOM_NOT_FOUND = ''The specified room code is invalid.''"
| "chat_what_message NOT_ALLOWED_DURING_GAME = ''You can't do that during a game.''"
| "chat_what_message NOT_ALLOWED_OPTION = ''That option is invalid.''"
| "chat_what_message REQUIRES_GAME = ''That requires a game to do.''"

definition chat_exception_with :: "chat_kind \<Rightarrow> string \<Rightarrow> chat_exception" where
  "chat_exception_with kind details =
     \<lparr>ce_kind = kind, ce_what = chat_what_message kind @ '' ('' @ details @ '')'',
      ce_details = Some details\<rparr>"

definition chat_exception_of :: "chat_kind \<Rightarrow> chat_exception" where
  "chat_exception_of kind = \<lparr>ce_kind = kind, ce_what = chat_what_message kind, ce_details = None\<rparr>"

datatype game_kind = OTHER

record game_exception =
  ge_kind :: game_kind
  ge_what :: string
  ge_details :: "string option"

fun game_what_message :: "game_kind \<Rightarrow> string" where
  "game_what_message OTHER = ''Other error.''"

definition game_exception_with :: "game_kind \<Rightarrow> string \<Rightarrow> game_exception" where
  "game_exception_with kind details =
     \<lparr>ge_kind = kind,
      ge_what = (if kind = OTHER then details else game_what_message kind @ '' ('' @ details @ '')''),
      ge_details = Some details\<rparr>"

definition game_exception_of :: "game_kind \<Rightarrow> game_exception" where
  "game_exception_of kind = \<lparr>ge_kind = kind, ge_what = game_what_message kind, ge_details = None\<rparr>"

datatype network_kind =
    ESTABLISH_ERROR
  | REMOTE_CONNECTION_CLOSED
  | REMOTE_CONNECTION_ERROR
  | BIND_ERROR

record network_exception =
  ne_kind :: network_kind
  ne_what :: string
  ne_details :: "string option"

fun network_what_message :: "network_kind \<Rightarrow> string" where
  "network_what_message ESTABLISH_ERROR = ''Failed to establish a socket.''"
| "network_what_message BIND_ERROR = ''Failed to bind the server listener.''"
| "network_what_message _ = ''Some error''"

definition network_exception_with :: "network_kind \<Rightarrow> string \<Rightarrow> network_exception" where
  "network_exception_with kind details =
     \<lparr>ne_kind = kind, ne_what = network_what_message kind @ '' ('' @ details @ '')'',
      ne_details = Some details\<rparr>"

definition network_exception_of :: "network_kind \<Rightarrow> network_exception" where
  "network_exception_of kind = \<lparr>ne_kind = kind, ne_what = network_what_message kind, ne_details = None\<rparr>"

datatype session_kind = INVALID_SESSION | INVALID_SESSION_SECRET

fun session_what :: "session_kind \<Rightarrow> string" where
  "session_what INVALID_SESSION = ''Invalid session information.''"
| "session_what INVALID_SESSION_SECRET = ''Invalid session information.''"

datatype packet_kind = MALFORMED | ILLEGAL_CAST

fun packet_what :: "packet_kind \<Rightarrow> string" where
  "packet_what MALFORMED = ''Malformed or invalid packet.''"
| "packet_what ILLEGAL_CAST = ''Illegal conversion between packet types.''"

datatype ub =
    Null_deref
  | Use_after_free
  | Out_of_bounds
  | Missing_return
  | Signed_overflow
  | Failed_assertion
  | Rethrow_without_exception

datatype exn =
    Chat_exn chat_exception
  | Game_exn game_exception
  | Network_exn network_exception
  | Runtime_exn string
  | Out_of_range_exn
  | Bad_cast_exn
  | Bad_get_exn
  | Bad_optional_exn
  | Json_exn
  | Out_of_fuel
  | Undefined ub

type_synonym ('s, 'a) op = "('s, exn, 'a) action"

definition throw_chat :: "chat_kind \<Rightarrow> ('s, 'a) op" where
  "throw_chat k = sthrow (Chat_exn (chat_exception_of k))"

definition undefined_behaviour :: "ub \<Rightarrow> ('s, 'a) op" where
  "undefined_behaviour u = sthrow (Undefined u)"

fun is_ub :: "exn \<Rightarrow> bool" where
  "is_ub (Undefined _) = True"
| "is_ub _ = False"

text \<open>A handler \<open>catch (ChatException& ex)\<close>, \<open>catch (GameException& ex)\<close> or
  \<open>catch (std::runtime_error& ex)\<close>: the other exceptions go through.\<close>

definition catch_chat :: "('s, 'a) op \<Rightarrow> (chat_exception \<Rightarrow> ('s, 'a) op) \<Rightarrow> ('s, 'a) op" where
  "catch_chat m h = scatch m (\<lambda>e. case e of Chat_exn x \<Rightarrow> h x | _ \<Rightarrow> sthrow e)"

definition catch_game :: "('s, 'a) op \<Rightarrow> (game_exception \<Rightarrow> ('s, 'a) op) \<Rightarrow> ('s, 'a) op" where
  "catch_game m h = scatch m (\<lambda>e. case e of Game_exn x \<Rightarrow> h x | _ \<Rightarrow> sthrow e)"

definition catch_runtime :: "('s, 'a) op \<Rightarrow> (string \<Rightarrow> ('s, 'a) op) \<Rightarrow> ('s, 'a) op" where
  "catch_runtime m h = scatch m (\<lambda>e. case e of Runtime_exn x \<Rightarrow> h x | _ \<Rightarrow> sthrow e)"

lemma throw_chat_run [act_simps]: "throw_chat k s = (Inl (Chat_exn (chat_exception_of k)), s)"
  by (simp add: throw_chat_def act_simps)

lemma undefined_behaviour_run [act_simps]: "undefined_behaviour u s = (Inl (Undefined u), s)"
  by (simp add: undefined_behaviour_def act_simps)

lemma preserves_throw_chat [pres_intros]: "preserves I (throw_chat k)"
  by (simp add: throw_chat_def pres_intros)

lemma preserves_undefined [pres_intros]: "preserves I (undefined_behaviour u)"
  by (simp add: undefined_behaviour_def pres_intros)

lemma preserves_catch_chat [pres_intros]:
  "preserves I m \<Longrightarrow> (\<And>x. preserves I (h x)) \<Longrightarrow> preserves I (catch_chat m h)"
  unfolding catch_chat_def by (auto intro!: pres_intros split: exn.split)

lemma preserves_catch_game [pres_intros]:
  "preserves I m \<Longrightarrow> (\<And>x. preserves I (h x)) \<Longrightarrow> preserves I (catch_game m h)"
  unfolding catch_game_def by (auto intro!: pres_intros split: exn.split)

lemma preserves_catch_runtime [pres_intros]:
  "preserves I m \<Longrightarrow> (\<And>x. preserves I (h x)) \<Longrightarrow> preserves I (catch_runtime m h)"
  unfolding catch_runtime_def by (auto intro!: pres_intros split: exn.split)

text \<open>The details of an exception are the tail of its message.\<close>

lemma chat_exception_with_details:
  "ce_details (chat_exception_with k d) = Some d \<and>
   ce_what (chat_exception_with k d) = ce_what (chat_exception_of k) @ '' ('' @ d @ '')''"
  by (simp add: chat_exception_with_def chat_exception_of_def)

lemma chat_what_message_inj: "chat_what_message j = chat_what_message k \<Longrightarrow> j = k"
  by (cases j; cases k) simp_all

end
