(* ===== verification/Results.thy ===== *)
theory Results
  imports Failures
begin

section \<open>Result values and map lookups (module common)\<close>

text \<open>
  \<open>arepa::Result\<close> of common/include/Result.hpp: a success value or an error value, with the
  unwrapping operators that throw a \<open>ResultException\<close>; and the optional-returning searches of
  common/include/Util.hpp. The tag and the union of the class are one datatype.
\<close>

datatype result_kind = NOT_VALUE | NOT_ERROR

fun result_what :: "result_kind \<Rightarrow> string" where
  "result_what NOT_VALUE = ''Attempted to unwrap value of error-type Result.''"
| "result_what NOT_ERROR = ''Attempted to unwrap error of value-type Result.''"

datatype ('v, 'e) result = Ok_result 'v | Error_result 'e

fun result_ok :: "('v, 'e) result \<Rightarrow> bool" where
  "result_ok (Ok_result _) = True"
| "result_ok (Error_result _) = False"

fun result_value :: "('v, 'e) result \<Rightarrow> result_kind + 'v" where
  "result_value (Ok_result v) = Inr v"
| "result_value (Error_result _) = Inl NOT_ERROR"

fun result_error :: "('v, 'e) result \<Rightarrow> result_kind + 'e" where
  "result_error (Ok_result _) = Inl NOT_ERROR"
| "result_error (Error_result e) = Inr e"

definition find_in_map :: "('k \<rightharpoonup> 'v) \<Rightarrow> 'k \<Rightarrow> 'v option" where
  "find_in_map m k = (case m k of None \<Rightarrow> None | Some v \<Rightarrow> Some v)"

fun find_if :: "'a list \<Rightarrow> ('a \<Rightarrow> bool) \<Rightarrow> 'a option" where
  "find_if [] P = None"
| "find_if (x # xs) P = (if P x then Some x else find_if xs P)"

lemma find_in_map_eq [simp]: "find_in_map m k = m k"
  by (simp add: find_in_map_def split: option.split)

lemma find_if_Some: "find_if xs P = Some x \<Longrightarrow> x \<in> set xs \<and> P x"
  by (induction xs) (auto split: if_splits)

lemma find_if_None: "find_if xs P = None \<longleftrightarrow> (\<forall>x \<in> set xs. \<not> P x)"
  by (induction xs) auto

lemma find_if_unique:
  assumes "x \<in> set xs" and "P x" and "\<And>y. y \<in> set xs \<Longrightarrow> P y \<Longrightarrow> y = x"
  shows "find_if xs P = Some x"
proof (cases "find_if xs P")
  case None
  then show ?thesis using assms(1,2) by (simp add: find_if_None)
next
  case (Some y)
  then show ?thesis using find_if_Some [OF Some] assms(3) by blast
qed

text \<open>Exactly one of the two unwrappings succeeds, the one \<open>operator bool\<close> announces.\<close>

lemma result_unwrap_exclusive:
  "(result_ok r \<longleftrightarrow> (\<exists>v. result_value r = Inr v)) \<and> (result_ok r \<longleftrightarrow> (\<forall>e. result_error r \<noteq> Inr e))"
  by (cases r) simp_all

end
