(* ===== verification/Cpp_Strings.thy ===== *)
theory Cpp_Strings
  imports Prelude "HOL-Library.Sublist"
begin

section \<open>The parts of the C++ standard library on strings that the source uses\<close>

text \<open>
  Positions are \<open>std::size_t\<close>: natural numbers below \<open>2^64\<close>, with \<open>npos = 2^64 - 1\<close> and the
  wrap-around of unsigned arithmetic written out (\<open>size_minus\<close>, \<open>size_plus\<close>). Characters are
  bytes; \<open>isalnum\<close>, \<open>isdigit\<close> and \<open>tolower\<close> are those of the C locale, the program's own.
\<close>

definition npos :: nat where
  "npos = 2 ^ 64 - 1"

definition size_plus :: "nat \<Rightarrow> nat \<Rightarrow> nat" where
  "size_plus a b = (a + b) mod 2 ^ 64"

definition size_minus :: "nat \<Rightarrow> nat \<Rightarrow> nat" where
  "size_minus a b = (a + (2 ^ 64 - b mod 2 ^ 64)) mod 2 ^ 64"

text \<open>Conversion of a \<open>size_t\<close> to \<open>int\<close>: the low 32 bits, read as two's complement.\<close>

definition size_to_int :: "nat \<Rightarrow> int" where
  "size_to_int n = (let k = int n mod 2 ^ 32 in if k < 2 ^ 31 then k else k - 2 ^ 32)"

lemma size_to_int_npos: "size_to_int npos = -1"
  by (simp add: size_to_int_def npos_def)

definition int_max :: int where
  "int_max = 2 ^ 31 - 1"

definition int_min :: int where
  "int_min = - (2 ^ 31)"

definition fits_int :: "int \<Rightarrow> bool" where
  "fits_int i \<longleftrightarrow> int_min \<le> i \<and> i \<le> int_max"

text \<open>The single quote, which the source puts around names in messages.\<close>

definition quote :: string where
  "quote = [CHR 0x27]"

subsection \<open>Characters\<close>

definition is_digit :: "char \<Rightarrow> bool" where
  "is_digit c \<longleftrightarrow> (48::nat) \<le> of_char c \<and> (of_char c :: nat) \<le> 57"

definition is_upper :: "char \<Rightarrow> bool" where
  "is_upper c \<longleftrightarrow> (65::nat) \<le> of_char c \<and> (of_char c :: nat) \<le> 90"

definition is_lower :: "char \<Rightarrow> bool" where
  "is_lower c \<longleftrightarrow> (97::nat) \<le> of_char c \<and> (of_char c :: nat) \<le> 122"

definition is_alnum :: "char \<Rightarrow> bool" where
  "is_alnum c \<longleftrightarrow> is_digit c \<or> is_upper c \<or> is_lower c"

definition to_lower :: "char \<Rightarrow> char" where
  "to_lower c = (if is_upper c then char_of ((of_char c :: nat) + 32) else c)"

lemma to_lower_not_upper: "\<not> is_upper (to_lower c)"
  by (auto simp: to_lower_def is_upper_def)

lemma to_lower_idem [simp]: "to_lower (to_lower c) = to_lower c"
  using to_lower_not_upper [of c] by (simp add: to_lower_def [of "to_lower c"])

lemma is_alnum_to_lower: "is_alnum c \<Longrightarrow> is_digit (to_lower c) \<or> is_lower (to_lower c)"
  by (auto simp: is_alnum_def to_lower_def is_upper_def is_lower_def is_digit_def)

lemma is_alnum_to_lower_alnum: "is_alnum c \<Longrightarrow> is_alnum (to_lower c)"
  using is_alnum_to_lower by (auto simp: is_alnum_def)

lemma is_alnum_not_space: "is_alnum c \<Longrightarrow> c \<noteq> CHR '' ''"
  by (auto simp: is_alnum_def is_digit_def is_upper_def is_lower_def)

lemma is_alnum_not_slash: "is_alnum c \<Longrightarrow> c \<noteq> CHR ''/''"
  by (auto simp: is_alnum_def is_digit_def is_upper_def is_lower_def)

subsection \<open>Searching\<close>

fun find_at :: "string \<Rightarrow> string \<Rightarrow> nat \<Rightarrow> nat" where
  "find_at p [] i = (if p = [] then i else npos)"
| "find_at p (c # s) i = (if take (length p) (c # s) = p then i else find_at p s (Suc i))"

definition str_find :: "string \<Rightarrow> string \<Rightarrow> nat \<Rightarrow> nat" where
  "str_find s p pos = (if pos > length s then npos else find_at p (drop pos s) pos)"

fun find_char_at :: "(char \<Rightarrow> bool) \<Rightarrow> string \<Rightarrow> nat \<Rightarrow> nat" where
  "find_char_at P [] i = npos"
| "find_char_at P (c # s) i = (if P c then i else find_char_at P s (Suc i))"

definition str_find_first_of :: "string \<Rightarrow> string \<Rightarrow> nat \<Rightarrow> nat" where
  "str_find_first_of s cs pos =
     (if pos > length s then npos else find_char_at (\<lambda>c. c \<in> set cs) (drop pos s) pos)"

definition str_find_first_not_of :: "string \<Rightarrow> string \<Rightarrow> nat \<Rightarrow> nat" where
  "str_find_first_not_of s cs pos =
     (if pos > length s then npos else find_char_at (\<lambda>c. c \<notin> set cs) (drop pos s) pos)"

fun find_last_at :: "(char \<Rightarrow> bool) \<Rightarrow> string \<Rightarrow> nat \<Rightarrow> nat \<Rightarrow> nat" where
  "find_last_at P [] i best = best"
| "find_last_at P (c # s) i best = find_last_at P s (Suc i) (if P c then i else best)"

definition str_find_last_of :: "string \<Rightarrow> string \<Rightarrow> nat" where
  "str_find_last_of s cs = find_last_at (\<lambda>c. c \<in> set cs) s 0 npos"

text \<open>\<open>substr\<close> throws \<open>std::out_of_range\<close> (here \<open>None\<close>) for a position past the end; its length
  is clipped to the string.\<close>

definition substr :: "string \<Rightarrow> nat \<Rightarrow> nat \<Rightarrow> string option" where
  "substr s pos n = (if pos > length s then None else Some (take n (drop pos s)))"

lemma find_at_range:
  "find_at p s i = j \<Longrightarrow> j \<noteq> npos \<Longrightarrow> i \<le> j \<and> j \<le> i + length s \<and> take (length p) (drop (j - i) s) = p"
proof (induction p s i rule: find_at.induct)
  case (2 p c s i)
  show ?case
  proof (cases "take (length p) (c # s) = p")
    case True
    then show ?thesis using 2 by simp
  next
    case False
    then have "find_at p s (Suc i) = j" using 2(2) by simp
    then have "Suc i \<le> j \<and> j \<le> Suc i + length s \<and> take (length p) (drop (j - Suc i) s) = p"
      using 2(1) [OF False] 2(3) by simp
    then show ?thesis using Suc_diff_le [of "Suc i" j] by (cases "j - i") auto
  qed
qed (auto split: if_splits)

lemma find_char_at_absent: "(\<And>c. c \<in> set s \<Longrightarrow> \<not> P c) \<Longrightarrow> find_char_at P s i = npos"
  by (induction s arbitrary: i) auto

lemma find_char_at_first:
  "(\<And>c. c \<in> set s \<Longrightarrow> \<not> P c) \<Longrightarrow> P d \<Longrightarrow> find_char_at P (s @ d # t) i = i + length s"
  by (induction s arbitrary: i) auto

subsection \<open>Splitting and joining\<close>

text \<open>\<open>while (std::getline(ss, line, d))\<close>: no line follows a final delimiter.\<close>

fun getlines :: "char \<Rightarrow> string \<Rightarrow> string list" where
  "getlines d [] = []"
| "getlines d (c # s) =
     (if c = d then [] # getlines d s
      else (case getlines d s of [] \<Rightarrow> [[c]] | l # ls \<Rightarrow> (c # l) # ls))"

fun join_with :: "string \<Rightarrow> string list \<Rightarrow> string" where
  "join_with sep [] = []"
| "join_with sep [w] = w"
| "join_with sep (w # v # ws) = w @ sep @ join_with sep (v # ws)"

fun split_on :: "char \<Rightarrow> string \<Rightarrow> string list" where
  "split_on d [] = [[]]"
| "split_on d (c # s) =
     (if c = d then [] # split_on d s
      else (case split_on d s of [] \<Rightarrow> [[c]] | l # ls \<Rightarrow> (c # l) # ls))"

lemma split_on_nonempty [simp]: "split_on d s \<noteq> []"
  by (cases s) (auto split: list.split)

lemma join_with_Cons: "ws \<noteq> [] \<Longrightarrow> join_with sep (w # ws) = w @ sep @ join_with sep ws"
  by (cases ws) simp_all

lemma join_split_on [simp]: "join_with [d] (split_on d s) = s"
proof (induction s)
  case (Cons c s)
  then show ?case
    by (cases "split_on d s"; cases "tl (split_on d s)") (auto simp: join_with_Cons)
qed simp

lemma split_on_no_delimiter: "w \<in> set (split_on d s) \<Longrightarrow> d \<notin> set w"
  by (induction s arbitrary: w) (auto split: if_splits list.splits)

lemma getlines_no_delimiter: "w \<in> set (getlines d s) \<Longrightarrow> d \<notin> set w"
  by (induction s arbitrary: w) (auto split: if_splits list.splits)

lemma split_on_append:
  "d \<notin> set w \<Longrightarrow> split_on d (w @ d # s) = w # split_on d s"
  by (induction w) auto

lemma split_on_word: "d \<notin> set w \<Longrightarrow> split_on d w = [w]"
  by (induction w) auto

lemma getlines_append: "d \<notin> set w \<Longrightarrow> getlines d (w @ d # s) = w # getlines d s"
  by (induction w) auto

lemma getlines_word: "d \<notin> set w \<Longrightarrow> w \<noteq> [] \<Longrightarrow> getlines d w = [w]"
  by (induction w rule: induct_list012) auto

text \<open>What the source relies on of \<open>boost::split(out, s, is_any_of(" "))\<close>: the pieces hold no
  delimiter and joining them gives the string back. These laws fix the function.\<close>

locale splitter =
  fixes split :: "string \<Rightarrow> string list"
    and delim :: char
  assumes split_nonempty: "split s \<noteq> []"
    and split_join: "join_with [delim] (split s) = s"
    and split_clean: "w \<in> set (split s) \<Longrightarrow> delim \<notin> set w"
begin

lemma join_split_unique:
  "ws \<noteq> [] \<Longrightarrow> (\<forall>w \<in> set ws. delim \<notin> set w) \<Longrightarrow> split_on delim (join_with [delim] ws) = ws"
proof (induction ws)
  case (Cons w ws)
  show ?case
  proof (cases ws)
    case Nil
    then show ?thesis using Cons.prems by (simp add: split_on_word)
  next
    case (Cons v vs)
    then have "join_with [delim] (w # ws) = w @ delim # join_with [delim] ws" by simp
    moreover have "split_on delim (join_with [delim] ws) = ws"
      using Cons.IH Cons.prems(2) local.Cons by simp
    ultimately show ?thesis using Cons.prems(2) by (simp add: split_on_append)
  qed
qed simp

lemma split_is_split_on: "split s = split_on delim s"
  using join_split_unique [of "split s"] split_nonempty split_join split_clean by metis

end

interpretation split_space: splitter "split_on (CHR '' '')" "CHR '' ''"
  by unfold_locales (simp_all add: split_on_no_delimiter)

subsection \<open>Decimal printing\<close>

text \<open>\<open>std::to_string\<close> and stream output of an unsigned number.\<close>

fun dec :: "nat \<Rightarrow> string" where
  "dec n = (if n < 10 then [char_of (48 + n)] else dec (n div 10) @ [char_of (48 + n mod 10)])"

declare dec.simps [simp del]

lemma dec_nonempty [simp]: "dec n \<noteq> []"
  by (subst dec.simps) simp

lemma dec_digits: "\<forall>c \<in> set (dec n). is_digit c"
proof (induction n rule: dec.induct)
  case (1 n)
  show ?case
    using 1 by (subst dec.simps) (auto simp: is_digit_def)
qed

end
