(* ===== verification/Chat_Names.thy ===== *)
theory Chat_Names
  imports Results Cpp_Strings
begin

section \<open>Nicknames and room codes (module chat)\<close>

text \<open>
  \<open>UserNickname\<close>, \<open>RoomId\<close> and \<open>UserNicknameGenerator\<close>. Both names are checked strings; a name
  is represented by its string, and the constructors are the functions that check it. The random
  draws (\<open>rand()\<close> and the engine of the generator) are parameters: the \<open>i\<close>-th draw is \<open>r i\<close>.
\<close>

definition nickname_char :: "char \<Rightarrow> bool" where
  "nickname_char c \<longleftrightarrow> is_alnum c \<or> c = CHR ''_'' \<or> c = CHR ''-''"

definition make_nickname :: "string \<Rightarrow> exn + string" where
  "make_nickname name =
     (if find_if name (\<lambda>c. \<not> nickname_char c) \<noteq> None then Inl (Runtime_exn ''Invalid player nickname.'')
      else Inr name)"

definition parse_nickname :: "string \<Rightarrow> string option" where
  "parse_nickname name = (case make_nickname name of Inr n \<Rightarrow> Some n | Inl _ \<Rightarrow> None)"

definition make_room_id :: "string \<Rightarrow> exn + string" where
  "make_room_id name =
     (if find_if name (\<lambda>c. \<not> is_alnum c) \<noteq> None then Inl (Runtime_exn ''Invalid room ID.'') else Inr name)"

definition parse_room_id :: "string \<Rightarrow> string option" where
  "parse_room_id name = (case make_room_id name of Inr n \<Rightarrow> Some n | Inl _ \<Rightarrow> None)"

definition ALPHANUM :: string where
  "ALPHANUM = ''0123456789ABCDEFGHIJKLMNOPQRSTUVWXYZabcdefghijklmnopqrstuvwxyz''"

definition room_code :: "(nat \<Rightarrow> nat) \<Rightarrow> nat \<Rightarrow> string" where
  "room_code r n = map (\<lambda>i. ALPHANUM ! (r i mod length ALPHANUM)) [0..<n]"

definition generate_room_id :: "(nat \<Rightarrow> nat) \<Rightarrow> nat \<Rightarrow> exn + string" where
  "generate_room_id r n = make_room_id (room_code r n)"

record nickname_generator =
  name_pool :: "string list"
  adjective_pool :: "string list"

definition default_generator :: nickname_generator where
  "default_generator = \<lparr>
     name_pool = [''aardwolf'', ''beaver'', ''lemming'', ''fox'', ''baboon'', ''dragon'', ''elephant'', ''sloth''],
     adjective_pool = [''super'', ''iridescent'', ''bittersweet'', ''euphoric'', ''golden'', ''temporary'', ''melancholy'']\<rparr>"

text \<open>A draw indexes the adjectives with a position below the number of names; the vector access
  is not checked. \<open>r\<close> are the successive draws of the engine.\<close>

definition generate_nickname :: "nickname_generator \<Rightarrow> (nat \<Rightarrow> nat) \<Rightarrow> exn + string" where
  "generate_nickname g r =
     (let has_adjective = adjective_pool g \<noteq> []; has_name = name_pool g \<noteq> [];
          r_name = r (if has_adjective then 1 else 0);
          r_number = r ((if has_adjective then 1 else 0) + (if has_name then 1 else 0));
          i = r 0 mod length (name_pool g)
      in if has_adjective \<and> (\<not> has_name \<or> length (adjective_pool g) \<le> i) then Inl (Undefined Out_of_bounds)
         else make_nickname
           ((if has_adjective then adjective_pool g ! i @ ''_'' else []) @
            (if has_name then name_pool g ! (r_name mod length (name_pool g)) else []) @
            dec (r_number mod 99)))"

subsection \<open>Lemmas\<close>

lemma make_nickname_Inr: "make_nickname s = Inr n \<longleftrightarrow> list_all nickname_char s \<and> n = s"
  using find_if_None [of s "\<lambda>c. \<not> nickname_char c"] by (auto simp: make_nickname_def list_all_iff)

lemma make_room_id_Inr: "make_room_id s = Inr n \<longleftrightarrow> list_all is_alnum s \<and> n = s"
  using find_if_None [of s "\<lambda>c. \<not> is_alnum c"] by (auto simp: make_room_id_def list_all_iff)

lemma parse_nickname_Some: "parse_nickname s = Some n \<longleftrightarrow> list_all nickname_char s \<and> n = s"
  using make_nickname_Inr [of s n] by (auto simp: parse_nickname_def split: sum.splits)

lemma parse_room_id_Some: "parse_room_id s = Some n \<longleftrightarrow> list_all is_alnum s \<and> n = s"
  using make_room_id_Inr [of s n] by (auto simp: parse_room_id_def split: sum.splits)

lemma ALPHANUM_alnum: "list_all is_alnum ALPHANUM"
  by (simp add: ALPHANUM_def is_alnum_def is_digit_def is_upper_def is_lower_def)

lemma room_code_alnum: "list_all is_alnum (room_code r n)"
proof -
  have "length ALPHANUM = 62" by (simp add: ALPHANUM_def)
  then have "ALPHANUM ! (k mod length ALPHANUM) \<in> set ALPHANUM" for k
    by (intro nth_mem) simp
  then show ?thesis
    using ALPHANUM_alnum by (auto simp: room_code_def list_all_iff)
qed

subsection \<open>Properties\<close>

text \<open>Generating a room code never throws, whatever \<open>rand()\<close> returns: the code has the
  requested length and every code generated is accepted by \<open>RoomId::parse\<close>.\<close>

theorem generated_room_id_valid:
  "\<exists>code. generate_room_id r n = Inr code \<and> length code = n \<and> parse_room_id code = Some code"
  using room_code_alnum [of r n]
  by (auto simp: generate_room_id_def make_room_id_Inr parse_room_id_Some room_code_def)

text \<open>The nickname generator reads outside its adjectives exactly when the first draw, taken
  modulo the number of names, is not below the number of adjectives; otherwise, when the pools
  hold valid nicknames, it returns a valid nickname. The default pools (eight names, seven
  adjectives) fail on one draw in eight.\<close>

theorem nickname_generator_bounds:
  assumes "list_all (list_all nickname_char) (name_pool g @ adjective_pool g)"
    and "name_pool g \<noteq> []" and "adjective_pool g \<noteq> []"
  shows "if r 0 mod length (name_pool g) < length (adjective_pool g)
         then \<exists>n. generate_nickname g r = Inr n \<and> parse_nickname n = Some n
         else generate_nickname g r = Inl (Undefined Out_of_bounds)"
proof -
  have names: "list_all nickname_char (name_pool g ! (k mod length (name_pool g)))" for k
    using assms(1,2) nth_mem [of "k mod length (name_pool g)" "name_pool g"]
    unfolding list_all_iff [of _ "_ @ _"] by simp
  have adjectives: "list_all nickname_char (adjective_pool g ! i)" if "i < length (adjective_pool g)" for i
    using assms(1) nth_mem [OF that] unfolding list_all_iff [of _ "_ @ _"] by simp
  have "list_all nickname_char (dec k)" for k
    using dec_digits [of k] by (auto simp: list_all_iff nickname_char_def is_alnum_def)
  then show ?thesis
    using assms(2,3) names adjectives
    by (simp add: generate_nickname_def Let_def make_nickname_Inr parse_nickname_Some)
      (simp add: nickname_char_def)
qed

theorem nickname_generator_bounds_witness:
  "generate_nickname default_generator (\<lambda>i. 15) = Inl (Undefined Out_of_bounds) \<and>
   (\<exists>n. generate_nickname default_generator (\<lambda>i. 16) = Inr n \<and> parse_nickname n = Some n)"
  using nickname_generator_bounds [of default_generator "\<lambda>i. 15"]
    nickname_generator_bounds [of default_generator "\<lambda>i. 16"]
  by (simp add: default_generator_def nickname_char_def is_alnum_def is_digit_def is_upper_def is_lower_def)

end
