(* ===== verification/Session_Ids.thy ===== *)
theory Session_Ids
  imports Cpp_Strings
begin

section \<open>Session identifiers and tokens (module networking)\<close>

text \<open>
  \<open>SessionId\<close> (a wrapper around a UUID, ordered and hashed like it) and \<open>SessionToken\<close> (a public
  id and a secret). A UUID is its 128 bits, read big-endian, which is the order
  \<open>boost::uuids::uuid\<close> compares its bytes in. The printing of a UUID and the random generator
  are Boost's: parameters.
\<close>

datatype session_id = SessionId (uuid: "128 word")

definition session_id_less :: "session_id \<Rightarrow> session_id \<Rightarrow> bool" where
  "session_id_less a b \<longleftrightarrow> uuid a < uuid b"

definition session_id_eq :: "session_id \<Rightarrow> session_id \<Rightarrow> bool" where
  "session_id_eq a b \<longleftrightarrow> uuid a = uuid b"

definition session_id_string :: "(128 word \<Rightarrow> string) \<Rightarrow> session_id \<Rightarrow> string" where
  "session_id_string print_uuid a = print_uuid (uuid a)"

definition session_id_eq_string :: "(128 word \<Rightarrow> string) \<Rightarrow> session_id \<Rightarrow> string \<Rightarrow> bool" where
  "session_id_eq_string print_uuid a s \<longleftrightarrow> session_id_string print_uuid a = s"

text \<open>\<open>operator<\<close> makes the ids a linear order, as the keys of \<open>std::map\<close> have to be.\<close>

instantiation session_id :: linorder
begin

definition less_session_id :: "session_id \<Rightarrow> session_id \<Rightarrow> bool" where
  "less_session_id a b \<longleftrightarrow> session_id_less a b"

definition less_eq_session_id :: "session_id \<Rightarrow> session_id \<Rightarrow> bool" where
  "less_eq_session_id a b \<longleftrightarrow> session_id_less a b \<or> session_id_eq a b"

instance
  by standard
    (auto simp: less_session_id_def less_eq_session_id_def session_id_less_def session_id_eq_def
      intro: session_id.expand)

end

lemma session_id_eq_iff [simp]: "session_id_eq a b \<longleftrightarrow> a = b"
  by (auto simp: session_id_eq_def intro: session_id.expand)

record session_token =
  token_id :: session_id
  token_secret :: "128 word"

definition token_generate :: "128 word \<Rightarrow> 128 word \<Rightarrow> session_token" where
  "token_generate r1 r2 = \<lparr>token_id = SessionId r1, token_secret = r2\<rparr>"

definition token_eq :: "session_token \<Rightarrow> session_token \<Rightarrow> bool" where
  "token_eq s t \<longleftrightarrow> session_id_eq (token_id s) (token_id t) \<and> token_secret s = token_secret t"

definition token_eq_id :: "session_token \<Rightarrow> session_id \<Rightarrow> bool" where
  "token_eq_id t i \<longleftrightarrow> session_id_eq (token_id t) i"

definition token_string :: "(128 word \<Rightarrow> string) \<Rightarrow> session_token \<Rightarrow> string" where
  "token_string print_uuid t = print_uuid (uuid (token_id t))"

text \<open>The public string of a token does not depend on its secret.\<close>

lemma token_string_no_secret: "token_string p (t\<lparr>token_secret := x\<rparr>) = token_string p t"
  by (simp add: token_string_def)

lemma token_eq_iff: "token_eq s t \<longleftrightarrow> s = t"
  by (auto simp: token_eq_def intro: session_token.equality)

end
