(* ===== verification/Chat_Members.thy ===== *)
theory Chat_Members
  imports Chat_Names Session_Ids
begin

section \<open>Users and room members (module chat)\<close>

text \<open>
  \<open>User\<close> (with \<open>BaseUser\<close>, \<open>Player\<close>, \<open>Spectator\<close>, whose comparisons all compare the session id),
  \<open>PlayerStats\<close> and \<open>Member\<close>. A user object lives as long as anything refers to it and is named
  by its session id; a member object belongs to one room. Time points are integers.
\<close>

record player_stats =
  ps_wins :: "32 word"
  ps_games :: "32 word"

definition new_stats :: player_stats where
  "new_stats = \<lparr>ps_wins = 0, ps_games = 0\<rparr>"

definition increment_wins :: "player_stats \<Rightarrow> player_stats" where
  "increment_wins s = s\<lparr>ps_wins := ps_wins s + 1\<rparr>"

definition increment_games :: "player_stats \<Rightarrow> player_stats" where
  "increment_games s = s\<lparr>ps_games := ps_games s + 1\<rparr>"

record user =
  u_id :: session_id
  u_name :: string
  u_nickname :: "string option"
  u_stats :: player_stats

text \<open>The printing of a UUID is a parameter; the name it gives goes through \<open>UserNickname\<close>.\<close>

definition new_user :: "(128 word \<Rightarrow> string) \<Rightarrow> session_id \<Rightarrow> exn + user" where
  "new_user print_uuid i =
     (case make_nickname (session_id_string print_uuid i) of
        Inl e \<Rightarrow> Inl e
      | Inr n \<Rightarrow> Inr \<lparr>u_id = i, u_name = n, u_nickname = None, u_stats = new_stats\<rparr>)"

definition new_user_nicknamed :: "(128 word \<Rightarrow> string) \<Rightarrow> session_id \<Rightarrow> string \<Rightarrow> exn + user" where
  "new_user_nicknamed print_uuid i nickname =
     (case make_nickname (session_id_string print_uuid i) of
        Inl e \<Rightarrow> Inl e
      | Inr n \<Rightarrow> Inr \<lparr>u_id = i, u_name = n, u_nickname = Some nickname, u_stats = new_stats\<rparr>)"

definition set_nickname :: "string \<Rightarrow> user \<Rightarrow> user" where
  "set_nickname n u = u\<lparr>u_name := n, u_nickname := Some n\<rparr>"

definition clear_nickname :: "(128 word \<Rightarrow> string) \<Rightarrow> user \<Rightarrow> exn + user" where
  "clear_nickname print_uuid u =
     (case make_nickname (session_id_string print_uuid (u_id u)) of
        Inl e \<Rightarrow> Inl e
      | Inr n \<Rightarrow> Inr (u\<lparr>u_name := n, u_nickname := None\<rparr>))"

definition user_eq :: "user \<Rightarrow> user \<Rightarrow> bool" where
  "user_eq a b \<longleftrightarrow> session_id_eq (u_id a) (u_id b)"

datatype member_status = PLAYER | PLAYER_WAITLIST | SPECTATOR

record member =
  m_since :: int
  m_user :: session_id
  m_unique :: "64 word"
  m_status :: member_status
  m_disqualified :: bool
  m_suppress :: bool

text \<open>The constructor reads the clock and takes the next value of the static counter.\<close>

definition new_member :: "int \<Rightarrow> 64 word \<Rightarrow> session_id \<Rightarrow> member_status \<Rightarrow> member" where
  "new_member now counter u st = \<lparr>m_since = now, m_user = u, m_unique = counter, m_status = st,
     m_disqualified = False, m_suppress = False\<rparr>"

definition is_player :: "member \<Rightarrow> bool" where
  "is_player m \<longleftrightarrow> m_status m = PLAYER"

definition is_spectator :: "member \<Rightarrow> bool" where
  "is_spectator m \<longleftrightarrow> m_status m = SPECTATOR \<or> m_status m = PLAYER_WAITLIST"

definition is_waitlisted :: "member \<Rightarrow> bool" where
  "is_waitlisted m \<longleftrightarrow> m_status m = PLAYER_WAITLIST"

definition is_disqualified :: "member \<Rightarrow> bool" where
  "is_disqualified m \<longleftrightarrow> m_disqualified m"

definition member_eq :: "member \<Rightarrow> member \<Rightarrow> bool" where
  "member_eq a b \<longleftrightarrow> m_user a = m_user b \<and> m_unique a = m_unique b"

definition member_less :: "member \<Rightarrow> member \<Rightarrow> bool" where
  "member_less a b \<longleftrightarrow> m_since a < m_since b"

lemmas member_kinds = is_player_def is_spectator_def is_waitlisted_def is_disqualified_def

lemma player_xor_spectator: "is_player m \<longleftrightarrow> \<not> is_spectator m"
  by (cases "m_status m") (simp_all add: member_kinds)

text \<open>Setting a nickname and clearing it gives the name the user started with.\<close>

lemma clear_set_nickname:
  "new_user p i = Inr u \<Longrightarrow> clear_nickname p (set_nickname n u) = Inr u"
  by (auto simp: new_user_def clear_nickname_def set_nickname_def split: sum.splits)

end
