(* ===== verification/Signals.thy ===== *)
theory Signals
  imports Results
begin

section \<open>Signals (module common\_communication)\<close>

text \<open>
  \<open>Signal\<close> of common\_communication/include/Signal.hpp. Every method that reads or writes the
  listener lists holds the signal's mutex, so an execution with several threads is a sequence of
  the atomic operations below. \<open>emit\<close> copies the listeners out under the mutex and calls them
  after releasing it: the model returns the listeners to call, in order, beside the new state.
  The width of \<open>ListenerID\<close> (\<open>uint_fast16_t\<close>, at least 16 bits) is a type parameter. The
  counter \<open>_next_listener_id\<close> has no initialiser, so its first value is a parameter too.
\<close>

record ('l, 'i) signal =
  next_listener_id :: "'i"
  listeners_once :: "('i \<times> 'l) list"
  listeners :: "('i \<times> 'l) list"

definition new_signal :: "'w::len word \<Rightarrow> ('l, 'w word) signal" where
  "new_signal i = \<lparr>next_listener_id = i, listeners_once = [], listeners = []\<rparr>"

definition listen :: "'l \<Rightarrow> ('l, 'w::len word) signal \<Rightarrow> 'w word \<times> ('l, 'w word) signal" where
  "listen l s = (let i = next_listener_id s in
     (i, s\<lparr>next_listener_id := i + 1, listeners := listeners s @ [(i, l)]\<rparr>))"

definition listen_once :: "'l \<Rightarrow> ('l, 'w::len word) signal \<Rightarrow> 'w word \<times> ('l, 'w word) signal" where
  "listen_once l s = (let i = next_listener_id s in
     (i, s\<lparr>next_listener_id := i + 1, listeners_once := listeners_once s @ [(i, l)]\<rparr>))"

definition listener_count :: "('l, 'w::len word) signal \<Rightarrow> nat" where
  "listener_count s = length (listeners s)"

definition remove_listener :: "'w::len word \<Rightarrow> ('l, 'w word) signal \<Rightarrow> bool \<times> ('l, 'w word) signal" where
  "remove_listener i s =
     (if i \<in> fst ` set (listeners s)
      then (True, s\<lparr>listeners := filter (\<lambda>c. fst c \<noteq> i) (listeners s)\<rparr>)
      else if i \<in> fst ` set (listeners_once s)
      then (True, s\<lparr>listeners_once := filter (\<lambda>c. fst c \<noteq> i) (listeners_once s)\<rparr>)
      else (False, s))"

definition remove_all_listeners :: "('l, 'w::len word) signal \<Rightarrow> nat \<times> ('l, 'w word) signal" where
  "remove_all_listeners s =
     (length (listeners_once s) + length (listeners s), s\<lparr>listeners_once := [], listeners := []\<rparr>)"

definition emit_containers :: "('l, 'w::len word) signal \<Rightarrow> ('w word \<times> 'l) list \<times> ('l, 'w word) signal" where
  "emit_containers s = (listeners_once s @ listeners s, s\<lparr>listeners_once := []\<rparr>)"

definition emit :: "('l, 'w::len word) signal \<Rightarrow> 'l list \<times> ('l, 'w word) signal" where
  "emit s = (case emit_containers s of (cs, s') \<Rightarrow> (map snd cs, s'))"

subsection \<open>Executions\<close>

datatype ('l, 'i) sig_event =
    Listen 'l
  | Listen_once 'l
  | Remove 'i
  | Remove_all
  | Emit

fun sig_step :: "('l, 'w::len word) sig_event \<Rightarrow> ('l, 'w word) signal \<Rightarrow> ('l, 'w word) signal" where
  "sig_step (Listen l) s = snd (listen l s)"
| "sig_step (Listen_once l) s = snd (listen_once l s)"
| "sig_step (Remove i) s = snd (remove_listener i s)"
| "sig_step Remove_all s = snd (remove_all_listeners s)"
| "sig_step Emit s = snd (emit s)"

text \<open>The ids of the listeners a step calls.\<close>

fun sig_called :: "('l, 'w::len word) sig_event \<Rightarrow> ('l, 'w word) signal \<Rightarrow> 'w word list" where
  "sig_called Emit s = map fst (fst (emit_containers s))"
| "sig_called _ s = []"

fun sig_run :: "('l, 'w::len word) sig_event list \<Rightarrow> ('l, 'w word) signal \<Rightarrow> ('l, 'w word) signal" where
  "sig_run [] s = s"
| "sig_run (e # es) s = sig_run es (sig_step e s)"

fun sig_trace :: "('l, 'w::len word) sig_event list \<Rightarrow> ('l, 'w word) signal \<Rightarrow> 'w word list" where
  "sig_trace [] s = []"
| "sig_trace (e # es) s = sig_called e s @ sig_trace es (sig_step e s)"

fun registers :: "('l, 'w::len word) sig_event \<Rightarrow> bool" where
  "registers (Listen _) = True"
| "registers (Listen_once _) = True"
| "registers _ = False"

definition registrations :: "('l, 'w::len word) sig_event list \<Rightarrow> nat" where
  "registrations es = length (filter registers es)"

definition listener_ids :: "('l, 'w::len word) signal \<Rightarrow> 'w word list" where
  "listener_ids s = map fst (listeners_once s) @ map fst (listeners s)"

lemmas signal_defs = listen_def listen_once_def remove_listener_def remove_all_listeners_def
  emit_def emit_containers_def Let_def

lemma sig_step_next:
  "next_listener_id (sig_step e s) = next_listener_id s + (if registers e then 1 else 0)"
  by (cases e) (simp_all add: signal_defs)

lemma sig_run_next:
  "next_listener_id (sig_run es s) = next_listener_id s + of_nat (registrations es)"
  by (induction es arbitrary: s) (simp_all add: registrations_def sig_step_next)

text \<open>The ids in use are distinct and were issued among the first \<open>n\<close>.\<close>

definition sig_inv :: "'w::len word \<Rightarrow> nat \<Rightarrow> ('l, 'w word) signal \<Rightarrow> bool" where
  "sig_inv base n s \<longleftrightarrow>
     next_listener_id s = base + of_nat n \<and> distinct (listener_ids s) \<and>
     set (listener_ids s) \<subseteq> (\<lambda>k. base + of_nat k) ` {..<n}"

lemma id_fresh:
  assumes "sig_inv (base :: 'w::len word) n s" and "n < 2 ^ LENGTH('w)"
  shows "base + of_nat n \<notin> set (listener_ids s)"
proof
  assume "base + of_nat n \<in> set (listener_ids s)"
  then obtain k where k: "k < n" "base + of_nat n = base + (of_nat k :: 'w word)"
    using assms(1) unfolding sig_inv_def by blast
  then have "(of_nat n :: 'w word) = of_nat k" by simp
  then have "n = k"
    using k(1) assms(2) of_nat_inverse [of n "of_nat k :: 'w word"]
      of_nat_inverse [of k "of_nat k :: 'w word"] by simp
  with k(1) show False by simp
qed

lemma sig_inv_register:
  assumes inv: "sig_inv (base :: 'w::len word) n s" and "n < 2 ^ LENGTH('w)" and "registers e"
  shows "sig_inv base (Suc n) (sig_step e s)"
proof -
  note fresh = id_fresh [OF assms(1,2)]
  have "(\<lambda>k. base + of_nat k) ` {..<Suc n} = insert (base + of_nat n) ((\<lambda>k. base + of_nat k) ` {..<n})"
    by (auto simp: lessThan_Suc)
  then show ?thesis
    using inv fresh \<open>registers e\<close>
    by (cases e) (auto simp: sig_inv_def signal_defs listener_ids_def)
qed

lemma sig_inv_other:
  assumes "sig_inv base n s" and "\<not> registers e"
  shows "sig_inv base n (sig_step e s)"
  using assms
  by (cases e) (auto simp: sig_inv_def signal_defs listener_ids_def distinct_map_filter)

lemma sig_inv_run:
  assumes "sig_inv (base :: 'w::len word) n s" and "n + registrations es \<le> 2 ^ LENGTH('w)"
  shows "sig_inv base (n + registrations es) (sig_run es s)"
  using assms
proof (induction es arbitrary: n s)
  case (Cons e es)
  show ?case
  proof (cases "registers e")
    case True
    then have "sig_inv base (Suc n) (sig_step e s)"
      using sig_inv_register [OF Cons.prems(1) _ True] Cons.prems(2) by (simp add: registrations_def)
    then show ?thesis
      using Cons.IH [of "Suc n"] Cons.prems True by (simp add: registrations_def)
  next
    case False
    then show ?thesis
      using Cons.IH [of n] sig_inv_other [OF Cons.prems(1)] Cons.prems by (simp add: registrations_def)
  qed
qed (simp add: registrations_def)

lemma sig_inv_new: "sig_inv i 0 (new_signal i)"
  by (simp add: sig_inv_def new_signal_def listener_ids_def)

text \<open>An id that is neither in use nor issued by the run is not called.\<close>

lemma sig_step_ids:
  "set (listener_ids (sig_step e s)) \<subseteq>
     set (listener_ids s) \<union> (if registers e then {next_listener_id s} else {})"
  by (cases e) (auto simp: signal_defs listener_ids_def)

definition issued :: "('l, 'w::len word) sig_event list \<Rightarrow> ('l, 'w word) signal \<Rightarrow> 'w word set" where
  "issued es s = (\<lambda>k. next_listener_id s + of_nat k) ` {..<registrations es}"

lemma issued_Cons:
  "issued (e # es) s \<supseteq> issued es (sig_step e s) \<union> (if registers e then {next_listener_id s} else {})"
proof (cases "registers e")
  case True
  have "issued es (sig_step e s) \<subseteq> issued (e # es) s"
  proof
    fix i
    assume "i \<in> issued es (sig_step e s)"
    then obtain k where "k < registrations es" "i = next_listener_id s + of_nat (Suc k)"
      using True unfolding issued_def by (auto simp: sig_step_next)
    then show "i \<in> issued (e # es) s"
      using True unfolding issued_def registrations_def by (intro image_eqI [of _ _ "Suc k"]) simp_all
  qed
  moreover have "next_listener_id s \<in> issued (e # es) s"
    using True unfolding issued_def registrations_def by (intro image_eqI [of _ _ 0]) simp_all
  ultimately show ?thesis using True by simp
next
  case False
  then show ?thesis by (simp add: issued_def registrations_def sig_step_next)
qed

lemma sig_trace_absent:
  "i \<notin> set (listener_ids s) \<Longrightarrow> i \<notin> issued es s \<Longrightarrow> i \<notin> set (sig_trace es s)"
proof (induction es arbitrary: s)
  case (Cons e es)
  have "i \<notin> set (listener_ids (sig_step e s))"
    using Cons.prems sig_step_ids [of e s] issued_Cons [of es e s] by (auto split: if_splits)
  moreover have "i \<notin> issued es (sig_step e s)"
    using Cons.prems issued_Cons [of es e s] by blast
  moreover have "i \<notin> set (sig_called e s)"
    using Cons.prems(1) by (cases e) (auto simp: emit_containers_def listener_ids_def)
  ultimately show ?case using Cons.IH by simp
qed simp

text \<open>A one-time listener that waits (registered once, no other listener shares its id) stays so
  until an emission, a removal or a new registration under its id.\<close>

definition waiting :: "'w::len word \<Rightarrow> ('l, 'w word) signal \<Rightarrow> bool" where
  "waiting i s \<longleftrightarrow> count_list (map fst (listeners_once s)) i = 1 \<and> i \<notin> fst ` set (listeners s)"

fun keeps_waiting :: "'w::len word \<Rightarrow> ('l, 'w word) sig_event \<Rightarrow> bool" where
  "keeps_waiting i (Remove j) \<longleftrightarrow> j \<noteq> i"
| "keeps_waiting i Remove_all \<longleftrightarrow> False"
| "keeps_waiting i Emit \<longleftrightarrow> False"
| "keeps_waiting i _ \<longleftrightarrow> True"

lemma count_list_filter_other:
  "j \<noteq> i \<Longrightarrow> count_list (map fst (filter (\<lambda>c. fst c \<noteq> j) xs)) i = count_list (map fst xs) i"
  by (induction xs) auto

lemma waiting_step:
  assumes "waiting i s" and "keeps_waiting i e" and "registers e \<longrightarrow> i \<noteq> next_listener_id s"
  shows "waiting i (sig_step e s)"
  using assms by (cases e) (auto simp: waiting_def signal_defs count_list_filter_other)

lemma waiting_run:
  assumes "waiting i s" and "list_all (keeps_waiting i) es" and "i \<notin> issued es s"
  shows "waiting i (sig_run es s) \<and> sig_trace es s = []"
  using assms
proof (induction es arbitrary: s)
  case (Cons e es)
  have iss: "i \<notin> issued es (sig_step e s)" and nxt: "registers e \<longrightarrow> i \<noteq> next_listener_id s"
    using Cons.prems(3) issued_Cons [of es e s] by (auto split: if_splits)
  have "sig_called e s = []" using Cons.prems(2) by (cases e) auto
  then show ?case
    using Cons.IH [OF waiting_step [OF Cons.prems(1) _ nxt] _ iss] Cons.prems(2) by simp
qed simp

lemma sig_run_append: "sig_run (es @ fs) s = sig_run fs (sig_run es s)"
  by (induction es arbitrary: s) simp_all

lemma sig_trace_append: "sig_trace (es @ fs) s = sig_trace es s @ sig_trace fs (sig_run es s)"
  by (induction es arbitrary: s) simp_all

lemma registrations_append: "registrations (es @ fs) = registrations es + registrations fs"
  by (simp add: registrations_def)

lemma issued_append:
  assumes "i \<notin> issued (es @ fs) s"
  shows "i \<notin> issued es s" and "i \<notin> issued fs (sig_run es s)"
proof -
  show "i \<notin> issued es s"
    using assms by (auto simp: issued_def registrations_append)
  show "i \<notin> issued fs (sig_run es s)"
  proof
    assume "i \<in> issued fs (sig_run es s)"
    then obtain k where "k < registrations fs" and "i = next_listener_id s + of_nat (registrations es + k)"
      by (auto simp: issued_def sig_run_next add.assoc)
    then have "i \<in> issued (es @ fs) s"
      unfolding issued_def registrations_append
      by (intro image_eqI [of _ _ "registrations es + k"]) simp_all
    with assms show False by simp
  qed
qed

lemma waiting_emit:
  assumes "waiting i s" and "i \<notin> issued es (sig_step Emit s)"
  shows "count_list (sig_trace (Emit # es) s) i = 1"
proof -
  have "i \<notin> set (listener_ids (sig_step Emit s))"
    using assms(1) by (auto simp: waiting_def signal_defs listener_ids_def)
  then have "count_list (sig_trace es (sig_step Emit s)) i = 0"
    using sig_trace_absent assms(2) by (simp add: count_list_0_iff)
  moreover have "count_list (map fst (listeners s)) i = 0"
    using assms(1) by (simp add: waiting_def count_list_0_iff)
  ultimately show ?thesis
    using assms(1) by (simp add: waiting_def emit_containers_def)
qed

lemma fresh_not_issued:
  fixes s :: "('l, 'w::len word) signal"
  assumes "next_listener_id s = i + 1" and "registrations es < 2 ^ LENGTH('w)"
  shows "i \<notin> issued es s"
proof
  assume "i \<in> issued es s"
  then obtain k where "k < registrations es" and "i = i + 1 + of_nat k"
    using assms(1) by (auto simp: issued_def)
  then have "(of_nat (Suc k) :: 'w word) = 0"
    by (metis add.assoc add_cancel_right_right of_nat_Suc)
  moreover have "Suc k < 2 ^ LENGTH('w)"
    using assms(2) \<open>k < registrations es\<close> by simp
  ultimately show False
    using of_nat_inverse [of "Suc k" "0 :: 'w word"] by simp
qed

subsection \<open>Properties\<close>

text \<open>From a new signal, as long as at most \<open>2^w\<close> listeners are ever registered, no two
  registered listeners share an id: \<open>remove(id)\<close> removes exactly the listener the id was
  returned for.\<close>

theorem listener_ids_distinct:
  fixes es :: "('l, 'w::len word) sig_event list"
  assumes "registrations es \<le> 2 ^ LENGTH('w)"
  shows "distinct (listener_ids (sig_run es (new_signal i)))"
  using sig_inv_run [OF sig_inv_new, of es i] assms by (simp add: sig_inv_def)

theorem listener_ids_distinct_witness:
  "distinct (listener_ids (sig_run [Listen (0::nat), Emit, Listen_once 1] (new_signal (7 :: 16 word))))"
  by (rule listener_ids_distinct) (simp add: registrations_def)

text \<open>C35. A listener registered with \<open>listen_once\<close> is called exactly once, by the first
  emission after its registration, whatever is registered, removed and emitted before and after,
  unless it is removed first or the counter wraps around to its id.\<close>

theorem once_listener_called_exactly_once:
  fixes pre mid post :: "('l, 'w::len word) sig_event list"
  assumes "listen_once l (sig_run pre (new_signal base)) = (i, s)"
    and "list_all (keeps_waiting i) mid"
    and "registrations pre + Suc (registrations (mid @ post)) \<le> 2 ^ LENGTH('w)"
  shows "count_list (sig_trace (mid @ Emit # post) s) i = 1"
proof -
  let ?s = "sig_run pre (new_signal base)"
  have i: "i = next_listener_id ?s"
    using assms(1) by (auto simp: listen_once_def Let_def)
  have s: "s = snd (listen_once l ?s)"
    by (simp add: assms(1))
  have inv: "sig_inv base (registrations pre) ?s"
    using sig_inv_run [OF sig_inv_new, of pre base] assms(3) by simp
  then have "i \<notin> set (listener_ids ?s)"
    using id_fresh [OF inv] assms(3) i by (simp add: sig_inv_def)
  then have w: "waiting i s"
    by (auto simp: waiting_def s i listen_once_def Let_def listener_ids_def count_list_0_iff)
  have "i \<notin> issued (mid @ Emit # post) s"
    by (rule fresh_not_issued) (use assms(3) in \<open>simp_all add: s i listen_once_def Let_def registrations_def\<close>)
  note iss = issued_append [OF this]
  have r: "waiting i (sig_run mid s)" "sig_trace mid s = []"
    using waiting_run [OF w assms(2)] iss by simp_all
  have "i \<notin> issued post (sig_step Emit (sig_run mid s))"
    using iss issued_Cons [of post Emit "sig_run mid s"] by auto
  then show ?thesis
    using waiting_emit [OF r(1)] r(2) by (simp add: sig_trace_append)
qed

theorem once_listener_called_exactly_once_witness:
  "count_list (sig_trace ([Listen (5::nat)] @ Emit # [Emit, Emit])
     (snd (listen_once 3 (sig_run [] (new_signal (0 :: 16 word)))))) 0 = 1"
  by (rule once_listener_called_exactly_once [where l = 3 and pre = "[]" and base = 0])
    (simp_all add: listen_once_def new_signal_def Let_def registrations_def)

text \<open>After exactly \<open>2^w\<close> registrations the counter is back at its first value: the next
  listener gets the id of the first one, and one \<open>remove\<close> of that id removes both.\<close>

theorem listener_ids_wrap:
  fixes es :: "('l, 'w::len word) sig_event list"
  assumes "list_all registers es" and "Suc (length es) = 2 ^ LENGTH('w)"
  shows "case listen l' (sig_run (Listen l # es) (new_signal i)) of (j, s) \<Rightarrow>
           j = i \<and> (i, l) \<in> set (listeners s) \<and> (i, l') \<in> set (listeners s) \<and>
           (\<forall>k. (i, k) \<notin> set (listeners (snd (remove_listener i s))))"
proof -
  let ?s = "sig_run (Listen l # es) (new_signal i)"
  have "list_all registers es \<Longrightarrow> (i, l) \<in> set (listeners s) \<Longrightarrow>
        (i, l) \<in> set (listeners (sig_run es s))" for s
    by (induction es arbitrary: s) (auto simp: signal_defs elim!: registers.elims)
  then have k: "(i, l) \<in> set (listeners ?s)"
    using assms(1) by (simp add: listen_def Let_def new_signal_def)
  have z: "(of_nat (2 ^ LENGTH('w)) :: 'w word) = 0" by simp
  have "registrations (Listen l # es) = 2 ^ LENGTH('w)"
    using assms by (simp add: registrations_def list_all_iff)
  then have "next_listener_id ?s = i"
    using sig_run_next [of "Listen l # es" "new_signal i"] z by (simp add: new_signal_def)
  then show ?thesis
    using k by (auto simp: listen_def remove_listener_def Let_def image_iff)
qed

theorem listener_ids_wrap_witness:
  "case listen (1::nat) (sig_run (Listen 0 # replicate 65535 (Listen 2)) (new_signal (9 :: 16 word))) of
     (j, s) \<Rightarrow> j = 9 \<and> (9, 0) \<in> set (listeners s) \<and> (9, 1) \<in> set (listeners s) \<and>
       (\<forall>k. (9, k) \<notin> set (listeners (snd (remove_listener 9 s))))"
  by (rule listener_ids_wrap) (simp_all add: list_all_iff)

end
