(* ===== verification/Command_Line.thy ===== *)
theory Command_Line
  imports Results Cpp_Strings
begin

section \<open>Commands (module command)\<close>

text \<open>
  \<open>CommandName\<close>, \<open>Command\<close> and \<open>CommandMap\<close>: a message that starts with a slash is a command;
  its name is checked and put in lower case, the arguments are the pieces between the spaces.
  \<open>boost::split\<close> is a parameter, constrained by the locale \<open>splitter\<close> of Cpp\_Strings.
  \<open>CommandName\<close> throws a \<open>runtime_error\<close>, which \<open>parse\<close> turns into \<open>nullopt\<close>; the
  \<open>out_of_range\<close> of \<open>substr\<close> is no \<open>runtime_error\<close> and goes through.
\<close>

datatype command_name = CommandName (name_string: string)

definition make_command_name :: "string \<Rightarrow> exn + command_name" where
  "make_command_name name =
     (case find_if name (\<lambda>c. \<not> is_alnum c) of
        Some _ \<Rightarrow> Inl (Runtime_exn ''Invalid command name.'')
      | None \<Rightarrow> Inr (CommandName (map to_lower name)))"

definition command_name_eq_string :: "command_name \<Rightarrow> string \<Rightarrow> bool" where
  "command_name_eq_string n s \<longleftrightarrow> name_string n = s"

record command =
  cmd_name :: command_name
  cmd_arguments :: "string list"
  cmd_raw_arguments :: string

definition parse_command :: "(string \<Rightarrow> string list) \<Rightarrow> string \<Rightarrow> exn + command option" where
  "parse_command split input =
     (case split input of
        [] \<Rightarrow> Inl (Undefined Out_of_bounds)
      | front # args \<Rightarrow>
          (case substr front 1 npos of
             None \<Rightarrow> Inl Out_of_range_exn
           | Some name \<Rightarrow>
               (case make_command_name name of
                  Inl _ \<Rightarrow> Inr None
                | Inr n \<Rightarrow>
                    (case (if args = [] then Some [] else substr input (length front + 1) npos) of
                       None \<Rightarrow> Inl Out_of_range_exn
                     | Some raw \<Rightarrow>
                         Inr (Some \<lparr>cmd_name = n, cmd_arguments = args, cmd_raw_arguments = raw\<rparr>)))))"

definition is_command :: "string \<Rightarrow> bool" where
  "is_command message \<longleftrightarrow> message \<noteq> [] \<and> hd message = CHR ''/''"

text \<open>\<open>CommandMap\<close>: \<open>insert\<close> is \<open>unordered_map::emplace\<close>, which keeps an executor already there.\<close>

type_synonym 'x command_map = "command_name \<rightharpoonup> 'x"

definition command_map_find :: "'x command_map \<Rightarrow> command_name \<Rightarrow> 'x option" where
  "command_map_find m n = find_in_map m n"

definition command_map_insert :: "command_name \<Rightarrow> 'x \<Rightarrow> 'x command_map \<Rightarrow> 'x command_map" where
  "command_map_insert n x m = (case m n of None \<Rightarrow> m(n \<mapsto> x) | Some _ \<Rightarrow> m)"

definition command_map_insert_literal :: "string \<Rightarrow> 'x \<Rightarrow> 'x command_map \<Rightarrow> exn + 'x command_map" where
  "command_map_insert_literal s x m =
     (case make_command_name s of Inl e \<Rightarrow> Inl e | Inr n \<Rightarrow> Inr (command_map_insert n x m))"

subsection \<open>Lemmas\<close>

lemma make_command_name_ok:
  "list_all is_alnum s \<Longrightarrow> make_command_name s = Inr (CommandName (map to_lower s))"
proof -
  assume "list_all is_alnum s"
  then have "find_if s (\<lambda>c. \<not> is_alnum c) = None"
    by (simp only: find_if_None list_all_iff) blast
  then show ?thesis by (simp add: make_command_name_def)
qed

lemma make_command_name_bad:
  assumes "\<not> list_all is_alnum s"
  shows "make_command_name s = Inl (Runtime_exn ''Invalid command name.'')"
proof -
  have "find_if s (\<lambda>c. \<not> is_alnum c) \<noteq> None"
    using assms by (simp only: find_if_None list_all_iff) blast
  then show ?thesis by (auto simp: make_command_name_def)
qed

lemma make_command_name_Inr:
  "make_command_name s = Inr n \<longleftrightarrow> list_all is_alnum s \<and> n = CommandName (map to_lower s)"
  by (cases "list_all is_alnum s") (auto simp: make_command_name_ok make_command_name_bad)

lemma make_command_name_Inl:
  "make_command_name s = Inl e \<Longrightarrow> e = Runtime_exn ''Invalid command name.'' \<and> \<not> list_all is_alnum s"
  by (cases "list_all is_alnum s") (auto simp: make_command_name_ok make_command_name_bad)

lemma split_front:
  assumes "splitter split d"
  obtains front args where "split s = front # args"
    and "args = [] \<longrightarrow> s = front"
    and "args \<noteq> [] \<longrightarrow> s = front @ d # join_with [d] args"
proof -
  have "split s \<noteq> []" and j: "join_with [d] (split s) = s"
    using assms by (simp_all add: splitter_def)
  then show thesis
    by (cases "split s") (auto intro!: that simp: join_with_Cons)
qed

lemma substr_tail: "substr (a # s) 1 n = Some (take n s)"
  by (simp add: substr_def)

subsection \<open>Properties\<close>

text \<open>C36. Parsing a printed command gives it back: for a nonempty name of letters and digits and
  arguments without spaces, the string \<open>/name arg ... arg\<close> parses to the name in lower case, the
  arguments, and the raw argument string, whichever function splits at the spaces. The length
  bound is that of \<open>std::string\<close>. The empty name is no valid name by its documentation, though the constructor
  accepts it (\<open>command_name_normal\<close>).\<close>

theorem command_parse_roundtrip:
  assumes "splitter split (CHR '' '')" and "name \<noteq> []" and "list_all is_alnum name"
    and "\<forall>a \<in> set args. CHR '' '' \<notin> set a"
    and "length (join_with '' '' ((CHR ''/'' # name) # args)) \<le> npos"
  shows "parse_command split (join_with '' '' ((CHR ''/'' # name) # args)) =
     Inr (Some \<lparr>cmd_name = CommandName (map to_lower name), cmd_arguments = args,
                cmd_raw_arguments = join_with '' '' args\<rparr>)"
proof -
  let ?s = "join_with '' '' ((CHR ''/'' # name) # args)"
  have clean: "\<forall>w \<in> set ((CHR ''/'' # name) # args). CHR '' '' \<notin> set w"
    using assms(3,4) by (auto simp: list_all_iff dest: is_alnum_not_space)
  have "split ?s = split_on (CHR '' '') ?s"
    using splitter.split_is_split_on [OF assms(1)] .
  also have "\<dots> = (CHR ''/'' # name) # args"
    using split_space.join_split_unique [OF _ clean] by simp
  finally have split: "split ?s = (CHR ''/'' # name) # args" .
  have len: "length name \<le> npos" "length (join_with '' '' args) \<le> npos"
    using assms(5) by (cases args; simp)+
  show ?thesis
    using split make_command_name_ok [OF assms(3)] len
    by (cases args) (simp_all add: parse_command_def substr_def)
qed

theorem command_parse_roundtrip_witness:
  "parse_command (split_on (CHR '' '')) ''/Kick bob now'' =
     Inr (Some \<lparr>cmd_name = CommandName ''kick'', cmd_arguments = [''bob'', ''now''],
                cmd_raw_arguments = ''bob now''\<rparr>)"
  using command_parse_roundtrip [OF split_space.splitter_axioms, of "''Kick''" "[''bob'', ''now'']"]
  by (simp add: is_alnum_def is_digit_def is_upper_def is_lower_def to_lower_def npos_def char_of_def bit_0)

text \<open>C37. What parsing can do: a message that starts with a slash never makes it throw; an empty
  message or one that starts with a space lets \<open>std::out_of_range\<close> out of \<open>parse\<close>; and every
  command it returns has a name of lower-case letters and digits, arguments without spaces and a
  raw argument string that is the arguments joined with spaces.\<close>

theorem command_parse_outcomes:
  assumes "splitter split (CHR '' '')" and "length input \<le> npos"
  shows "(parse_command split input = Inl Out_of_range_exn \<longleftrightarrow> input = [] \<or> hd input = CHR '' '') \<and>
         (is_command input \<longrightarrow> (\<exists>r. parse_command split input = Inr r)) \<and>
         (\<forall>c. parse_command split input = Inr (Some c) \<longrightarrow>
            (\<forall>x \<in> set (name_string (cmd_name c)). is_digit x \<or> is_lower x) \<and>
            (\<forall>a \<in> set (cmd_arguments c). CHR '' '' \<notin> set a) \<and>
            cmd_raw_arguments c = join_with '' '' (cmd_arguments c))"
proof -
  obtain front args where s: "split input = front # args" "args = [] \<longrightarrow> input = front"
    "args \<noteq> [] \<longrightarrow> input = front @ CHR '' '' # join_with '' '' args"
    using split_front [OF assms(1)] by metis
  have clean: "\<forall>w \<in> set (front # args). CHR '' '' \<notin> set w"
    using assms(1) s(1) by (metis splitter_def)
  have raw: "(if args = [] then Some [] else substr input (length front + 1) npos) =
             Some (join_with '' '' args)"
    using s(3) assms(2) by (cases args) (simp_all add: substr_def)
  have front: "front = [] \<longleftrightarrow> input = [] \<or> hd input = CHR '' ''"
    using s(2,3) clean by (cases front; cases args) auto
  have hdf: "is_command input \<Longrightarrow> front \<noteq> []"
    using front by (auto simp: is_command_def)
  show ?thesis
  proof (cases front)
    case Nil
    then have "parse_command split input = Inl Out_of_range_exn"
      by (simp add: parse_command_def s(1) substr_def)
    then show ?thesis using front hdf Nil by auto
  next
    case (Cons a as)
    have parse: "parse_command split input = (case make_command_name (take npos as) of
        Inl _ \<Rightarrow> Inr None
      | Inr n \<Rightarrow> Inr (Some \<lparr>cmd_name = n, cmd_arguments = args, cmd_raw_arguments = join_with '' '' args\<rparr>))"
    proof -
      have f: "substr front 1 npos = Some (take npos as)"
        using Cons by (simp add: substr_tail del: One_nat_def)
      show ?thesis
        unfolding parse_command_def s(1) list.case f option.case raw ..
    qed
    have "\<not> (input = [] \<or> hd input = CHR '' '')" using front Cons by simp
    moreover have "\<forall>x \<in> set (map to_lower (take npos as)). is_digit x \<or> is_lower x"
      if "list_all is_alnum (take npos as)"
      using that is_alnum_to_lower by (auto simp: list_all_iff)
    ultimately show ?thesis
      using clean by (auto simp: parse make_command_name_Inr split: sum.splits)
  qed
qed

theorem command_parse_outcomes_witness:
  "parse_command (split_on (CHR '' '')) '' hello'' = Inl Out_of_range_exn \<and>
   (\<exists>r. parse_command (split_on (CHR '' '')) ''/a b'' = Inr r)"
  using command_parse_outcomes [OF split_space.splitter_axioms, of "'' hello''"]
    command_parse_outcomes [OF split_space.splitter_axioms, of "''/a b''"]
  by (simp add: npos_def is_command_def)

text \<open>A name accepted by \<open>CommandName\<close> is a fixed point of it, and two names are equal
  exactly when they differ in case only; the empty name is accepted, against the documented
  pattern \<open>^[0-9a-z]+$\<close>.\<close>

theorem command_name_normal:
  "(\<forall>s n. make_command_name s = Inr n \<longrightarrow> make_command_name (name_string n) = Inr n) \<and>
   (\<forall>s t n. make_command_name s = Inr n \<longrightarrow>
      (make_command_name t = Inr n \<longleftrightarrow> list_all is_alnum t \<and> map to_lower t = map to_lower s)) \<and>
   make_command_name [] = Inr (CommandName [])"
  by (auto simp: make_command_name_Inr list_all_iff is_alnum_to_lower_alnum)

theorem command_name_normal_witness:
  "make_command_name ''ping'' = Inr (CommandName ''ping'') \<and>
   make_command_name (name_string (CommandName ''ping'')) = Inr (CommandName ''ping'')"
proof -
  have "make_command_name ''ping'' = Inr (CommandName ''ping'')"
    by (simp add: make_command_name_Inr is_alnum_def is_digit_def is_upper_def is_lower_def to_lower_def)
  then show ?thesis using command_name_normal by blast
qed

text \<open>A command map keeps the first executor set for a name: setting it again has no effect
  (the documentation of \<open>insert\<close> says it sets the executor); other names are not touched.\<close>

theorem command_map_first_wins:
  "command_map_find (command_map_insert n y (command_map_insert n x m)) k =
     (if k = n then Some (case m n of None \<Rightarrow> x | Some z \<Rightarrow> z) else command_map_find m k)"
  by (simp add: command_map_find_def command_map_insert_def split: option.split)

end
