(* ===== verification/Chat_Room.thy ===== *)
theory Chat_Room
  imports Chat_Members Signals Command_Line
begin

section \<open>Rooms: members, caches, owner, limits (module chat)\<close>

text \<open>
  \<open>Room\<close> of chat/include/Room.hpp and chat/src/Room.cpp, the part that does not call the game.

  A room keeps its members in a \<open>std::map\<close> by session id, and four \<open>std::set\<close>s of pointers to
  them (all users, active players, spectators, all users seen as spectators), ordered by the time
  the member joined: the ordered maps of Prelude, with the join time as key and the session id
  of the member pointed to as value. As the order compares nothing but the time, two members that
  joined at the same clock reading are one element for these sets.

  A room operation is an action on \<open>ctx\<close>: the room, the user objects, the messages sent (newest
  last), the static counter of \<open>Member\<close>, and a log of the accesses to freed memory that the
  operation made and survived (\<open>c_faults\<close>); reading a freed member is taken to give its last value.
  Command executors are C++ lambdas: the nine that the program registers are named here and
  executed in Server\_Daemon.
\<close>

datatype room_executor =
  Exec_members | Exec_room | Exec_nick | Exec_kick | Exec_option | Exec_options | Exec_load | Exec_end | Exec_start

datatype room_listener = Announce_join | Announce_leave | Announce_owner

datatype join = AS_PLAYER | AS_PLAYER_WAITING | AS_SPECTATOR

type_synonym room_signal = "(room_listener, 64 word) signal"

record 'g room =
  r_owner :: "session_id option"
  r_created_at :: int
  r_id :: string
  r_player_limit :: "64 word"
  r_spectator_limit :: "64 word"
  r_disqualified :: "64 word"
  r_members :: "(session_id \<times> member) list"
  r_users :: "(int \<times> session_id) list"
  r_players :: "(int \<times> session_id) list"
  r_spectators :: "(int \<times> session_id) list"
  r_users_as_spectators :: "(int \<times> session_id) list"
  r_game :: "'g option"
  r_started :: bool
  r_commands :: "room_executor command_map"
  r_protected_commands :: "room_executor command_map"
  r_on_owner_change :: room_signal
  r_on_member_join :: room_signal
  r_on_member_leave :: room_signal

text \<open>\<open>_game_started\<close> and the id counters of the signals have no initialiser: \<open>started\<close> and \<open>sig\<close>
  are what the memory held.\<close>

definition new_room :: "int \<Rightarrow> bool \<Rightarrow> (nat \<Rightarrow> 64 word) \<Rightarrow> string \<Rightarrow> 'g room" where
  "new_room now started sig i = \<lparr>r_owner = None, r_created_at = now, r_id = i, r_player_limit = 8,
     r_spectator_limit = 12, r_disqualified = 0, r_members = [], r_users = [], r_players = [],
     r_spectators = [], r_users_as_spectators = [], r_game = None, r_started = started,
     r_commands = (\<lambda>_. None), r_protected_commands = (\<lambda>_. None),
     r_on_owner_change = new_signal (sig 0), r_on_member_join = new_signal (sig 1),
     r_on_member_leave = new_signal (sig 2)\<rparr>"

record 'g ctx =
  c_room :: "'g room"
  c_users :: "session_id \<Rightarrow> user"
  c_sent :: "(session_id \<times> string) list"
  c_counter :: "64 word"
  c_faults :: "ub list"

definition new_ctx :: "(session_id \<Rightarrow> user) \<Rightarrow> 'g room \<Rightarrow> 'g ctx" where
  "new_ctx us r = \<lparr>c_room = r, c_users = us, c_sent = [], c_counter = 0, c_faults = []\<rparr>"

type_synonym ('g, 'a) room_op = "('g ctx, 'a) op"

definition modify_room :: "('g room \<Rightarrow> 'g room) \<Rightarrow> ('g, unit) room_op" where
  "modify_room f = smodify (\<lambda>s. s\<lparr>c_room := f (c_room s)\<rparr>)"

definition read_room :: "('g room \<Rightarrow> 'a) \<Rightarrow> ('g, 'a) room_op" where
  "read_room f = sread (\<lambda>s. f (c_room s))"

definition modify_user :: "session_id \<Rightarrow> (user \<Rightarrow> user) \<Rightarrow> ('g, unit) room_op" where
  "modify_user u f = smodify (\<lambda>s. s\<lparr>c_users := (c_users s)(u := f (c_users s u))\<rparr>)"

definition send_message :: "session_id \<Rightarrow> string \<Rightarrow> ('g, unit) room_op" where
  "send_message u m = smodify (\<lambda>s. s\<lparr>c_sent := c_sent s @ [(u, m)]\<rparr>)"

definition send_system_message :: "session_id \<Rightarrow> string \<Rightarrow> ('g, unit) room_op" where
  "send_system_message u m = send_message u m"

definition send_error_message :: "session_id \<Rightarrow> string \<Rightarrow> ('g, unit) room_op" where
  "send_error_message u m = send_message u (''Error: '' @ m)"

definition use_after_free :: "('g, unit) room_op" where
  "use_after_free = smodify (\<lambda>s. s\<lparr>c_faults := c_faults s @ [Use_after_free]\<rparr>)"

subsection \<open>Members and caches\<close>

definition find_member :: "session_id \<Rightarrow> 'g room \<Rightarrow> member option" where
  "find_member u r = map_of (r_members r) u"

definition find_member_by_name :: "(session_id \<Rightarrow> user) \<Rightarrow> string \<Rightarrow> 'g room \<Rightarrow> member option" where
  "find_member_by_name us n r =
     (case find_if (r_members r) (\<lambda>e. u_name (us (m_user (snd e))) = n) of
        None \<Rightarrow> None | Some e \<Rightarrow> Some (snd e))"

abbreviation spectating :: "member \<Rightarrow> bool" where
  "spectating m \<equiv> is_spectator m \<or> is_disqualified m"

abbreviation playing :: "member \<Rightarrow> bool" where
  "playing m \<equiv> is_player m \<and> \<not> is_disqualified m"

definition cached_remove :: "member \<Rightarrow> 'g room \<Rightarrow> 'g room" where
  "cached_remove m r = r\<lparr>
     r_users := om_erase (m_since m) (r_users r),
     r_users_as_spectators := om_erase (m_since m) (r_users_as_spectators r),
     r_disqualified := (if is_disqualified m then r_disqualified r - 1 else r_disqualified r),
     r_spectators := (if spectating m then om_erase (m_since m) (r_spectators r) else r_spectators r),
     r_players := (if playing m then om_erase (m_since m) (r_players r) else r_players r)\<rparr>"

definition cached_add :: "member \<Rightarrow> 'g room \<Rightarrow> 'g room" where
  "cached_add m r = r\<lparr>
     r_users := om_insert (m_since m) (m_user m) (r_users r),
     r_users_as_spectators := om_insert (m_since m) (m_user m) (r_users_as_spectators r),
     r_disqualified := (if is_disqualified m then r_disqualified r + 1 else r_disqualified r),
     r_spectators := (if spectating m then om_insert (m_since m) (m_user m) (r_spectators r) else r_spectators r),
     r_players := (if playing m then om_insert (m_since m) (m_user m) (r_players r) else r_players r)\<rparr>"

text \<open>\<open>MemberGuard guard(this, member); member.field = value;\<close>: out of the caches, the change,
  back into the caches at the end of the scope.\<close>

definition guarded :: "session_id \<Rightarrow> (member \<Rightarrow> member) \<Rightarrow> 'g room \<Rightarrow> 'g room" where
  "guarded u f r = (case find_member u r of
     None \<Rightarrow> r
   | Some m \<Rightarrow> cached_add (f m)
       ((cached_remove m r)\<lparr>r_members := om_modify u f (r_members (cached_remove m r))\<rparr>))"

subsection \<open>Queries\<close>

definition player_count :: "'g room \<Rightarrow> 64 word" where
  "player_count r = of_nat (length (r_players r)) + r_disqualified r"

definition active_player_count :: "'g room \<Rightarrow> 64 word" where
  "active_player_count r = of_nat (length (r_players r))"

definition spectator_count :: "'g room \<Rightarrow> 64 word" where
  "spectator_count r = of_nat (length (r_spectators r)) - r_disqualified r"

definition user_count :: "'g room \<Rightarrow> 64 word" where
  "user_count r = of_nat (length (r_members r))"

definition is_full :: "'g room \<Rightarrow> bool" where
  "is_full r \<longleftrightarrow> player_count r \<ge> r_player_limit r"

definition is_game_active :: "'g room \<Rightarrow> bool" where
  "is_game_active r \<longleftrightarrow> r_started r"

definition is_game_loaded :: "'g room \<Rightarrow> bool" where
  "is_game_loaded r \<longleftrightarrow> r_game r \<noteq> None"

definition spectators :: "'g room \<Rightarrow> (int \<times> session_id) list" where
  "spectators r = (if is_game_active r then r_spectators r else r_users_as_spectators r)"

definition find_player :: "session_id \<Rightarrow> 'g room \<Rightarrow> session_id option" where
  "find_player u r = map_option snd (find_if (r_players r) (\<lambda>e. snd e = u))"

definition find_player_by_name :: "(session_id \<Rightarrow> user) \<Rightarrow> string \<Rightarrow> 'g room \<Rightarrow> session_id option" where
  "find_player_by_name us n r = map_option snd (find_if (r_players r) (\<lambda>e. u_name (us (snd e)) = n))"

definition find_spectator :: "session_id \<Rightarrow> 'g room \<Rightarrow> session_id option" where
  "find_spectator u r = map_option snd (find_if (spectators r) (\<lambda>e. snd e = u))"

definition find_spectator_by_name :: "(session_id \<Rightarrow> user) \<Rightarrow> string \<Rightarrow> 'g room \<Rightarrow> session_id option" where
  "find_spectator_by_name us n r = map_option snd (find_if (spectators r) (\<lambda>e. u_name (us (snd e)) = n))"

definition find_user :: "session_id \<Rightarrow> 'g room \<Rightarrow> session_id option" where
  "find_user u r = map_option snd (find_if (r_users r) (\<lambda>e. snd e = u))"

definition find_user_by_name :: "(session_id \<Rightarrow> user) \<Rightarrow> string \<Rightarrow> 'g room \<Rightarrow> session_id option" where
  "find_user_by_name us n r = map_option snd (find_if (r_users r) (\<lambda>e. u_name (us (snd e)) = n))"

subsection \<open>Broadcasts and signals\<close>

definition send_unless_suppressed :: "string \<Rightarrow> session_id \<Rightarrow> ('g, unit) room_op" where
  "send_unless_suppressed msg u = sbind (read_room (find_member u))
     (\<lambda>m. case m of
        None \<Rightarrow> undefined_behaviour Use_after_free
      | Some m \<Rightarrow> swhen (\<not> m_suppress m) (send_message u msg))"

definition broadcast_message :: "string \<Rightarrow> ('g, unit) room_op" where
  "broadcast_message msg = sbind (read_room r_users) (\<lambda>us. sfor us (\<lambda>e. send_unless_suppressed msg (snd e)))"

definition broadcast_message_to_spectators :: "string \<Rightarrow> ('g, unit) room_op" where
  "broadcast_message_to_spectators msg =
     sbind (read_room spectators) (\<lambda>us. sfor us (\<lambda>e. send_unless_suppressed msg (snd e)))"

text \<open>A packet is its text.\<close>

definition broadcast_packet :: "string \<Rightarrow> ('g, unit) room_op" where
  "broadcast_packet p = sbind (read_room r_users) (\<lambda>us. sfor us (\<lambda>e. send_unless_suppressed p (snd e)))"

definition broadcast_packet_to_spectators :: "string \<Rightarrow> ('g, unit) room_op" where
  "broadcast_packet_to_spectators p =
     sbind (read_room spectators) (\<lambda>us. sfor us (\<lambda>e. send_unless_suppressed p (snd e)))"

text \<open>The listeners that \<open>ServerManager::create_room\<close> registers.\<close>

fun room_announcement :: "room_listener \<Rightarrow> string \<Rightarrow> string" where
  "room_announcement Announce_join n = ''[+] '' @ n"
| "room_announcement Announce_leave n = ''[-] '' @ n"
| "room_announcement Announce_owner n = ''[!] '' @ n @ '' is the new owner.''"

definition user_name :: "session_id \<Rightarrow> ('g, string) room_op" where
  "user_name u = sread (\<lambda>s. u_name (c_users s u))"

definition run_listener :: "session_id \<Rightarrow> room_listener \<Rightarrow> ('g, unit) room_op" where
  "run_listener u l = sbind (user_name u) (\<lambda>n. broadcast_message (room_announcement l n))"

definition fire ::
  "('g room \<Rightarrow> room_signal) \<Rightarrow> (room_signal \<Rightarrow> 'g room \<Rightarrow> 'g room) \<Rightarrow> session_id \<Rightarrow> ('g, unit) room_op"
where
  "fire sel upd u = sbind (read_room (\<lambda>r. emit (sel r))) (\<lambda>(ls, sig).
     sseq (modify_room (upd sig)) (sfor ls (run_listener u)))"

definition fire_join :: "session_id \<Rightarrow> ('g, unit) room_op" where
  "fire_join = fire r_on_member_join (\<lambda>sig r. r\<lparr>r_on_member_join := sig\<rparr>)"

definition fire_leave :: "session_id \<Rightarrow> ('g, unit) room_op" where
  "fire_leave = fire r_on_member_leave (\<lambda>sig r. r\<lparr>r_on_member_leave := sig\<rparr>)"

definition fire_owner_change :: "session_id \<Rightarrow> ('g, unit) room_op" where
  "fire_owner_change = fire r_on_owner_change (\<lambda>sig r. r\<lparr>r_on_owner_change := sig\<rparr>)"

definition set_owner :: "session_id option \<Rightarrow> ('g, unit) room_op" where
  "set_owner owner = sbind (read_room (\<lambda>r. case owner of None \<Rightarrow> True | Some u \<Rightarrow> find_member u r \<noteq> None))
     (\<lambda>ok. if \<not> ok then throw_chat USER_NOT_FOUND
       else sseq (modify_room (\<lambda>r. r\<lparr>r_owner := owner\<rparr>))
         (case owner of None \<Rightarrow> sreturn () | Some u \<Rightarrow> fire_owner_change u))"

subsection \<open>Joining, the waitlist, limits, disqualification\<close>

definition join_status :: "session_id \<Rightarrow> join \<Rightarrow> 'g room \<Rightarrow> chat_kind + member_status" where
  "join_status u how r =
     (let current_players = player_count r - (if find_player u r \<noteq> None then 1 else 0);
          current_spectators = spectator_count r - (if find_spectator u r \<noteq> None then 1 else 0)
      in case how of
        AS_PLAYER \<Rightarrow>
          if current_players \<ge> r_player_limit r then Inl ROOM_FULL
          else if is_game_active r then Inl NOT_ALLOWED_DURING_GAME
          else Inr PLAYER
      | AS_SPECTATOR \<Rightarrow>
          if current_spectators < r_spectator_limit r then Inr SPECTATOR else Inl ROOM_FULL
      | AS_PLAYER_WAITING \<Rightarrow>
          if current_players < r_player_limit r then Inr PLAYER
          else if current_spectators < r_spectator_limit r then Inr SPECTATOR
          else Inl ROOM_FULL)"

definition insert_member :: "member \<Rightarrow> 'g room \<Rightarrow> 'g room" where
  "insert_member m r = r\<lparr>r_members := om_insert (m_user m) m (r_members r)\<rparr>"

definition set_suppress :: "bool \<Rightarrow> session_id \<Rightarrow> 'g room \<Rightarrow> 'g room" where
  "set_suppress b u r = r\<lparr>r_members := om_modify u (\<lambda>m. m\<lparr>m_suppress := b\<rparr>) (r_members r)\<rparr>"

definition admit_new :: "int \<Rightarrow> session_id \<Rightarrow> member_status \<Rightarrow> ('g, unit) room_op" where
  "admit_new now u st =
     sbind (sread c_counter) (\<lambda>k.
     sseqs [
       smodify (\<lambda>s. s\<lparr>c_counter := k + 1\<rparr>),
       modify_room (insert_member (new_member now k u st)),
       modify_room (set_suppress True u),
       modify_room (cached_add ((new_member now k u st)\<lparr>m_suppress := True\<rparr>)),
       sbind (read_room r_owner) (\<lambda>ow. swhen (ow = None) (set_owner (Some u))),
       fire_join u,
       modify_room (set_suppress False u)])"

definition add_user :: "int \<Rightarrow> session_id \<Rightarrow> join \<Rightarrow> ('g, unit) room_op" where
  "add_user now u how =
     sbind (read_room (join_status u how)) (\<lambda>x. case x of
       Inl k \<Rightarrow> throw_chat k
     | Inr st \<Rightarrow> sbind (read_room (find_member u)) (\<lambda>m. case m of
         Some _ \<Rightarrow> modify_room (guarded u (\<lambda>m. m\<lparr>m_status := st\<rparr>))
       | None \<Rightarrow> admit_new now u st))"

fun promote :: "session_id list \<Rightarrow> 'g room \<Rightarrow> 'g room" where
  "promote [] r = r"
| "promote (u # us) r =
     (if player_count r < r_player_limit r then promote us (guarded u (\<lambda>m. m\<lparr>m_status := PLAYER\<rparr>) r) else r)"

definition waitlisted :: "'g room \<Rightarrow> session_id list" where
  "waitlisted r = filter (\<lambda>u. case find_member u r of None \<Rightarrow> False | Some m \<Rightarrow> is_waitlisted m)
     (map snd (spectators r))"

definition flush_waitlist :: "'g room \<Rightarrow> 'g room" where
  "flush_waitlist r =
     (if is_game_active r \<or> spectator_count r = 0 then r else promote (waitlisted r) r)"

definition set_player_limit :: "64 word \<Rightarrow> ('g, unit) room_op" where
  "set_player_limit limit =
     (if limit < 1 then sthrow (Chat_exn (chat_exception_with NOT_ALLOWED_OPTION ''Player limit must be positive.''))
      else sbind (read_room id) (\<lambda>r.
        let overflow = sint (player_count r - limit) in
        if overflow > 0 then
          (if nat overflow > length (r_players r) then undefined_behaviour Out_of_bounds
           else sfor (take (nat overflow) (r_players r))
             (\<lambda>e. modify_room (guarded (snd e) (\<lambda>m. m\<lparr>m_status := PLAYER_WAITLIST\<rparr>))))
        else sreturn ()))"

definition disqualify_player :: "session_id \<Rightarrow> 'g room \<Rightarrow> 'g room" where
  "disqualify_player u r = (case find_member u r of
     None \<Rightarrow> r
   | Some m \<Rightarrow> if \<not> is_player m then r else guarded u (\<lambda>m. m\<lparr>m_disqualified := True\<rparr>) r)"

definition reset_player :: "session_id \<Rightarrow> 'g room \<Rightarrow> 'g room" where
  "reset_player u r = (case find_member u r of
     None \<Rightarrow> r
   | Some m \<Rightarrow> if m_disqualified m then guarded u (\<lambda>m. m\<lparr>m_disqualified := False\<rparr>) r else r)"

definition reset_players :: "'g room \<Rightarrow> 'g room" where
  "reset_players r = fold reset_player (map fst (r_members r)) r"

definition end_game :: "'g room \<Rightarrow> 'g room" where
  "end_game r = (reset_players r)\<lparr>r_started := False\<rparr>"

definition room_eq :: "'g room \<Rightarrow> 'g room \<Rightarrow> bool" where
  "room_eq a b \<longleftrightarrow> r_id a = r_id b"

end
