(* ===== verification/Room_Invariant.thy ===== *)
theory Room_Invariant
  imports Chat_Room
begin

section \<open>The room invariant: the caches are the members\<close>

text \<open>
  The abstract view of a room is its member map alone. \<open>room_core\<close> says that the four cached
  sets and the counter of disqualified players are functions of it, and that no two members
  joined at the same clock reading. Every change of the room is shown to keep it.
\<close>

definition entries :: "(member \<Rightarrow> bool) \<Rightarrow> (session_id \<times> member) list \<Rightarrow> (int \<times> session_id) set" where
  "entries P ms = (\<lambda>(u, m). (m_since m, u)) ` {e \<in> set ms. P (snd e)}"

definition cache_ok :: "(member \<Rightarrow> bool) \<Rightarrow> (session_id \<times> member) list \<Rightarrow> (int \<times> session_id) list \<Rightarrow> bool" where
  "cache_ok P ms c \<longleftrightarrow> om_ok c \<and> set c = entries P ms"

definition members_ok :: "(session_id \<times> member) list \<Rightarrow> bool" where
  "members_ok ms \<longleftrightarrow> om_ok ms \<and> (\<forall>(u, m) \<in> set ms. m_user m = u) \<and> inj_on (\<lambda>(u, m). m_since m) (set ms)"

definition count_members :: "(member \<Rightarrow> bool) \<Rightarrow> (session_id \<times> member) list \<Rightarrow> nat" where
  "count_members P ms = length (filter (\<lambda>e. P (snd e)) ms)"

definition room_core :: "'g room \<Rightarrow> bool" where
  "room_core r \<longleftrightarrow> members_ok (r_members r) \<and>
     cache_ok (\<lambda>_. True) (r_members r) (r_users r) \<and>
     cache_ok (\<lambda>_. True) (r_members r) (r_users_as_spectators r) \<and>
     cache_ok playing (r_members r) (r_players r) \<and>
     cache_ok spectating (r_members r) (r_spectators r) \<and>
     r_disqualified r = of_nat (count_members is_disqualified (r_members r))"

definition owner_ok :: "'g room \<Rightarrow> bool" where
  "owner_ok r \<longleftrightarrow> (case r_owner r of None \<Rightarrow> r_members r = [] | Some u \<Rightarrow> u \<in> fst ` set (r_members r))"

text \<open>A started game is loaded: \<open>is_game_active\<close> is what the operations test before they call it.\<close>

definition room_inv :: "'g room \<Rightarrow> bool" where
  "room_inv r \<longleftrightarrow> room_core r \<and> owner_ok r \<and> (is_game_active r \<longrightarrow> is_game_loaded r)"

subsection \<open>The member map and its caches\<close>

lemma members_okD:
  assumes "members_ok ms"
  shows "om_ok ms" and "map_of ms u = Some m \<longleftrightarrow> (u, m) \<in> set ms" and "(u, m) \<in> set ms \<Longrightarrow> m_user m = u"
    and "(u, m) \<in> set ms \<Longrightarrow> (v, n) \<in> set ms \<Longrightarrow> m_since m = m_since n \<Longrightarrow> u = v \<and> m = n"
  using assms om_ok_map_of [of ms u m] unfolding members_ok_def inj_on_def by (blast, blast, blast, fastforce)

lemma entries_iff: "(t, u) \<in> entries P ms \<longleftrightarrow> (\<exists>m. (u, m) \<in> set ms \<and> P m \<and> m_since m = t)"
  by (force simp: entries_def)

lemma set_modify_present:
  assumes "om_ok ms" and "(u, m) \<in> set ms"
  shows "set (om_modify u f ms) = insert (u, f m) (set ms - {(u, m)})"
proof -
  have eq: "(u, x) \<in> set ms \<longleftrightarrow> x = m" for x
    using om_ok_unique [OF assms(1,2)] assms(2) by blast
  have "(v, n) \<in> set (om_modify u f ms) \<longleftrightarrow> (v, n) \<in> insert (u, f m) (set ms - {(u, m)})" for v n
    by (cases "v = u") (simp_all add: om_set_modify eq)
  then show ?thesis by (metis (no_types) subrelI subset_antisym)
qed

lemma set_erase_present:
  assumes "om_ok ms" and "(u, m) \<in> set ms"
  shows "set (om_erase u ms) = set ms - {(u, m)}"
proof -
  have eq: "(u, x) \<in> set ms \<longleftrightarrow> x = m" for x
    using om_ok_unique [OF assms(1,2)] assms(2) by blast
  have "(v, n) \<in> set (om_erase u ms) \<longleftrightarrow> (v, n) \<in> set ms - {(u, m)}" for v n
    by (cases "v = u") (simp_all add: om_set_erase eq)
  then show ?thesis by (metis (no_types) subrelI subset_antisym)
qed

lemma members_ok_modify:
  assumes ok: "members_ok ms" and m: "map_of ms u = Some m" and "m_since (f m) = m_since m" and "m_user (f m) = m_user m"
  shows "members_ok (om_modify u f ms)"
proof -
  note D = members_okD [OF ok]
  have um: "(u, m) \<in> set ms" using m D(2) by simp
  have "inj_on (\<lambda>(u, m). m_since m) (insert (u, f m) (set ms - {(u, m)}))"
    unfolding inj_on_def using D(4) [OF um] D(4) um assms(3) by (auto; fastforce)
  then show ?thesis
    using D(1) D(3) [OF um] D(3) assms(4) unfolding members_ok_def set_modify_present [OF D(1) um]
    by (auto simp: om_ok_modify)
qed

lemma members_ok_insert:
  assumes ok: "members_ok ms" and "m_user m \<notin> fst ` set ms" and "m_since m \<notin> (\<lambda>e. m_since (snd e)) ` set ms"
  shows "members_ok (om_insert (m_user m) m ms)"
  using assms om_ok_insert unfolding members_ok_def om_set_insert_fresh [OF assms(2)]
  by (auto simp: image_iff)

lemma members_ok_erase: "members_ok ms \<Longrightarrow> members_ok (om_erase u ms)"
  unfolding members_ok_def om_set_erase by (auto intro: om_ok_erase inj_on_subset)

lemma cache_ok_modify:
  assumes ok: "members_ok ms" and c: "cache_ok P ms c" and m: "map_of ms u = Some m"
    and same: "m_since (f m) = m_since m"
  shows "cache_ok P (om_modify u f ms)
    (let c1 = if P m then om_erase (m_since m) c else c in
     if P (f m) then om_insert (m_since (f m)) u c1 else c1)"
proof -
  note D = members_okD [OF ok]
  have um: "(u, m) \<in> set ms" using m D(2) by simp
  let ?c1 = "if P m then om_erase (m_since m) c else c"
  have oc: "om_ok c" and sc: "set c = entries P ms" using c by (simp_all add: cache_ok_def)
  have c1: "set ?c1 = entries P (om_erase u ms)"
  proof -
    have "e \<in> set ?c1 \<longleftrightarrow> e \<in> entries P (om_erase u ms)" for e
    proof (cases e)
      case (Pair t v)
      have "v \<noteq> u" if "(v, n) \<in> set ms" "m_since n \<noteq> m_since m" for n
        using that D(2) m by (metis option.inject)
      moreover have "m_since n \<noteq> m_since m" if "(v, n) \<in> set ms" "v \<noteq> u" for n
        using that D(4) [OF um] by metis
      moreover have "v \<noteq> u" if "(v, n) \<in> set ms" "P n" "\<not> P m" for n
        using that D(2) m by (metis option.inject)
      ultimately show ?thesis
        by (auto simp: Pair om_set_erase sc entries_iff)
    qed
    then show ?thesis by blast
  qed
  have o1: "om_ok ?c1" using oc by (simp add: om_ok_erase)
  have fresh: "m_since (f m) \<notin> fst ` set ?c1"
    unfolding c1 using D(4) [OF um] same by (auto simp: entries_def om_set_erase)
  have sm: "set (om_modify u f ms) = insert (u, f m) (set (om_erase u ms))"
    unfolding set_modify_present [OF D(1) um] set_erase_present [OF D(1) um] ..
  have en: "entries P (om_modify u f ms) =
      (if P (f m) then insert (m_since (f m), u) (entries P (om_erase u ms)) else entries P (om_erase u ms))"
    unfolding entries_def sm by auto
  show ?thesis
    using c1 o1 fresh by (auto simp: cache_ok_def Let_def en om_ok_insert om_set_insert_fresh simp del: if_split_asm)
qed

lemma cache_ok_insert:
  assumes ok: "members_ok ms" and c: "cache_ok P ms c" and "m_user m \<notin> fst ` set ms"
    and "m_since m \<notin> (\<lambda>e. m_since (snd e)) ` set ms"
  shows "cache_ok P (om_insert (m_user m) m ms) (if P m then om_insert (m_since m) (m_user m) c else c)"
proof -
  have "m_since m \<notin> fst ` set c"
    using c assms(4) by (force simp: cache_ok_def entries_def)
  moreover have "entries P (om_insert (m_user m) m ms) =
      (if P m then insert (m_since m, m_user m) (entries P ms) else entries P ms)"
    unfolding entries_def om_set_insert_fresh [OF assms(3)] by auto
  ultimately show ?thesis
    using c by (auto simp: cache_ok_def om_ok_insert om_set_insert_fresh)
qed

lemma cache_ok_erase:
  assumes ok: "members_ok ms" and c: "cache_ok P ms c" and m: "map_of ms u = Some m"
  shows "cache_ok P (om_erase u ms) (if P m then om_erase (m_since m) c else c)"
proof -
  note D = members_okD [OF ok]
  have um: "(u, m) \<in> set ms" using m D(2) by simp
  have "e \<in> set (if P m then om_erase (m_since m) c else c) \<longleftrightarrow> e \<in> entries P (om_erase u ms)" for e
  proof (cases e)
    case (Pair t v)
    have "v \<noteq> u" if "(v, n) \<in> set ms" "m_since n \<noteq> m_since m" for n
      using that D(2) m by (metis option.inject)
    moreover have "m_since n \<noteq> m_since m" if "(v, n) \<in> set ms" "v \<noteq> u" for n
      using that D(4) [OF um] by metis
    moreover have "v \<noteq> u" if "(v, n) \<in> set ms" "P n" "\<not> P m" for n
      using that D(2) m by (metis option.inject)
    ultimately show ?thesis
      using c by (auto simp: Pair om_set_erase cache_ok_def entries_iff)
  qed
  then show ?thesis
    using c by (auto simp: cache_ok_def om_ok_erase)
qed

lemma count_members_modify:
  "om_ok ms \<Longrightarrow> map_of ms u = Some m \<Longrightarrow>
     count_members P (om_modify u f ms) + (if P m then 1 else 0) = count_members P ms + (if P (f m) then 1 else 0)"
  using length_filter_modify [of ms u m "\<lambda>e. P (snd e)" f] by (simp add: count_members_def)

lemma count_members_erase:
  "om_ok ms \<Longrightarrow> map_of ms u = Some m \<Longrightarrow>
     count_members P (om_erase u ms) + (if P m then 1 else 0) = count_members P ms"
  using length_filter_erase [of ms u m "\<lambda>e. P (snd e)"] by (simp add: count_members_def)

lemma count_members_insert:
  "u \<notin> fst ` set ms \<Longrightarrow> count_members P (om_insert u m ms) = count_members P ms + (if P m then 1 else 0)"
  using length_filter_insert [of u ms "\<lambda>e. P (snd e)" m] by (simp add: count_members_def)

subsection \<open>Changes of a room keep the invariant\<close>

text \<open>What the changes of a member do not touch: the owner, the ids of the members, the times they
  joined, and whether a game is loaded.\<close>

type_synonym frame = "session_id option \<times> (session_id \<times> int) list \<times> bool"

definition room_frame :: "'g room \<Rightarrow> frame" where
  "room_frame r = (r_owner r, map (\<lambda>e. (fst e, m_since (snd e))) (r_members r), is_game_loaded r)"

lemma frame_keys: "fst ` set (r_members r) = fst ` set (fst (snd (room_frame r)))"
  by (simp add: room_frame_def image_image)

lemma frame_sinces: "(\<lambda>e. m_since (snd e)) ` set (r_members r) = snd ` set (fst (snd (room_frame r)))"
  by (simp add: room_frame_def image_image)

lemma owner_ok_frame: "room_frame r = room_frame r' \<Longrightarrow> owner_ok r = owner_ok r'"
proof -
  assume f: "room_frame r = room_frame r'"
  then have "r_owner r = r_owner r'" by (simp add: room_frame_def)
  moreover have "fst ` set (r_members r) = fst ` set (r_members r')" using f frame_keys by metis
  ultimately show ?thesis by (auto simp: owner_ok_def split: option.split)
qed

lemma find_member_core: "room_core r \<Longrightarrow> find_member u r = Some m \<longleftrightarrow> (u, m) \<in> set (r_members r)"
  by (simp add: find_member_def room_core_def members_okD(2))

lemma room_core_member: "room_core r \<Longrightarrow> find_member u r = Some m \<Longrightarrow> m_user m = u"
  using members_okD(3) [of "r_members r" u m] by (simp add: find_member_core) (simp add: room_core_def)

lemma find_member_keys: "find_member u r = None \<longleftrightarrow> u \<notin> fst ` set (r_members r)"
  by (simp add: find_member_def map_of_eq_None_iff)

lemma modify_frame:
  "(\<And>m. m_since (f m) = m_since m) \<Longrightarrow>
     map (\<lambda>e. (fst e, m_since (snd e))) (om_modify u f ms) = map (\<lambda>e. (fst e, m_since (snd e))) ms"
  by (induction ms) (auto simp: om_modify_def)

lemma guarded_frame [simp]:
  "(\<And>m. m_since (f m) = m_since m) \<Longrightarrow> room_frame (guarded u f r) = room_frame r"
  by (simp add: guarded_def room_frame_def cached_add_def cached_remove_def modify_frame is_game_loaded_def
    split: option.split)

lemma suppress_frame [simp]: "room_frame (set_suppress b u r) = room_frame r"
  by (simp add: set_suppress_def room_frame_def modify_frame is_game_loaded_def)

lemma guarded_fields [simp]:
  "r_player_limit (guarded u f r) = r_player_limit r"
  "r_spectator_limit (guarded u f r) = r_spectator_limit r"
  "r_started (guarded u f r) = r_started r"
  "r_game (guarded u f r) = r_game r"
  "r_owner (guarded u f r) = r_owner r"
  "r_id (guarded u f r) = r_id r"
  by (simp_all add: guarded_def cached_add_def cached_remove_def split: option.split)

lemma guarded_members:
  "r_members (guarded u f r) = om_modify u f (r_members r)"
proof (cases "find_member u r")
  case None
  then have "om_modify u f (r_members r) = r_members r"
    unfolding find_member_keys by (auto simp: om_modify_def image_iff intro!: map_idI)
  then show ?thesis using None by (simp add: guarded_def)
qed (simp add: guarded_def cached_add_def cached_remove_def)

lemma room_core_guarded:
  assumes core: "room_core r" and same: "\<And>m. m_since (f m) = m_since m" "\<And>m. m_user (f m) = m_user m"
  shows "room_core (guarded u f r)"
proof (cases "find_member u r")
  case None
  then show ?thesis using core by (simp add: guarded_def)
next
  case (Some m)
  then have m: "map_of (r_members r) u = Some m" by (simp add: find_member_def)
  have ok: "members_ok (r_members r)" using core by (simp add: room_core_def)
  have u: "m_user m = u" using room_core_member [OF core Some] .
  note step = cache_ok_modify [where f = f, OF ok _ m same(1), unfolded Let_def]
  have caches: "cache_ok (\<lambda>_. True) (om_modify u f (r_members r)) (r_users (guarded u f r))"
    "cache_ok (\<lambda>_. True) (om_modify u f (r_members r)) (r_users_as_spectators (guarded u f r))"
    "cache_ok playing (om_modify u f (r_members r)) (r_players (guarded u f r))"
    "cache_ok spectating (om_modify u f (r_members r)) (r_spectators (guarded u f r))"
    using core step [of "\<lambda>_. True" "r_users r"] step [of "\<lambda>_. True" "r_users_as_spectators r"]
      step [of playing "r_players r"] step [of spectating "r_spectators r"]
    by (simp_all add: room_core_def guarded_def Some cached_add_def cached_remove_def u same cong: if_cong)
  have "r_disqualified (guarded u f r) + (if is_disqualified m then 1 else 0) =
      r_disqualified r + (if is_disqualified (f m) then 1 else 0)"
    by (simp add: guarded_def Some cached_add_def cached_remove_def)
  also have "r_disqualified r = of_nat (count_members is_disqualified (r_members r))"
    using core by (simp add: room_core_def)
  also have "of_nat (count_members is_disqualified (r_members r)) + (if is_disqualified (f m) then 1 else (0 :: 64 word)) =
      of_nat (count_members is_disqualified (om_modify u f (r_members r))) + (if is_disqualified m then 1 else 0)"
    using arg_cong [OF count_members_modify [OF members_okD(1) [OF ok] m, of is_disqualified f],
        of "of_nat :: nat \<Rightarrow> 64 word"] by (simp split: if_splits)
  finally have "r_disqualified (guarded u f r) = of_nat (count_members is_disqualified (om_modify u f (r_members r)))"
    by simp
  then show ?thesis
    using caches members_ok_modify [where f = f, OF ok m same(1) same(2)] by (simp add: room_core_def guarded_members)
qed

lemma room_core_insert:
  assumes core: "room_core r" and "find_member (m_user m) r = None"
    and "m_since m \<notin> (\<lambda>e. m_since (snd e)) ` set (r_members r)"
  shows "room_core (cached_add m (insert_member m r))"
proof -
  have new: "m_user m \<notin> fst ` set (r_members r)" using assms(2) by (simp add: find_member_keys)
  have ok: "members_ok (r_members r)" using core by (simp add: room_core_def)
  note step = cache_ok_insert [OF ok _ new assms(3)]
  show ?thesis
    using core step [of "\<lambda>_. True" "r_users r"] step [of "\<lambda>_. True" "r_users_as_spectators r"]
      step [of playing "r_players r"] step [of spectating "r_spectators r"] members_ok_insert [OF ok new assms(3)]
      count_members_insert [OF new, of is_disqualified m]
    by (simp add: room_core_def cached_add_def insert_member_def cong: if_cong)
qed

lemma room_core_remove:
  assumes core: "room_core r" and "find_member u r = Some m"
  shows "room_core ((cached_remove m r)\<lparr>r_members := om_erase u (r_members r)\<rparr>)"
proof -
  have m: "map_of (r_members r) u = Some m" using assms(2) by (simp add: find_member_def)
  have ok: "members_ok (r_members r)" using core by (simp add: room_core_def)
  note step = cache_ok_erase [OF ok _ m]
  have "of_nat (count_members is_disqualified (om_erase u (r_members r))) + (if is_disqualified m then 1 else (0 :: 64 word)) =
      of_nat (count_members is_disqualified (r_members r))"
    using arg_cong [OF count_members_erase [OF members_okD(1) [OF ok] m, of is_disqualified],
        of "of_nat :: nat \<Rightarrow> 64 word"] by (simp split: if_splits)
  then have d: "of_nat (count_members is_disqualified (om_erase u (r_members r))) =
      of_nat (count_members is_disqualified (r_members r)) - (if is_disqualified m then 1 else (0 :: 64 word))"
    by (simp add: eq_diff_eq)
  show ?thesis
    using core step [of "\<lambda>_. True" "r_users r"] step [of "\<lambda>_. True" "r_users_as_spectators r"]
      step [of playing "r_players r"] step [of spectating "r_spectators r"] members_ok_erase [OF ok, of u] d
    by (simp add: room_core_def cached_remove_def cong: if_cong)
qed

lemma room_core_suppress: "room_core r \<Longrightarrow> room_core (set_suppress b u r)"
proof -
  assume core: "room_core r"
  let ?f = "\<lambda>m. m\<lparr>m_suppress := b\<rparr>"
  have kinds: "is_player (?f m) = is_player m" "is_spectator (?f m) = is_spectator m"
    "is_disqualified (?f m) = is_disqualified m" for m
    by (simp_all add: member_kinds)
  have ok: "members_ok (r_members r)" using core by (simp add: room_core_def)
  show ?thesis
  proof (cases "map_of (r_members r) u")
    case None
    then have "om_modify u ?f (r_members r) = r_members r"
      by (auto simp: om_modify_def image_iff map_of_eq_None_iff intro!: map_idI)
    then show ?thesis using core by (simp add: set_suppress_def)
  next
    case (Some m)
    have "(u, m) \<in> set (r_members r)" using Some members_okD(2) [OF ok] by simp
    note sm = set_modify_present [OF members_okD(1) [OF ok] this, of ?f]
    have um: "(u, x) \<in> set (r_members r) \<longleftrightarrow> x = m" for x
      using Some members_okD(2) [OF ok, of u x] by auto
    have "entries P (om_modify u ?f (r_members r)) = entries P (r_members r)"
      if P: "\<And>m. P (?f m) = P m" for P
    proof -
      have "(t, v) \<in> entries P (om_modify u ?f (r_members r)) \<longleftrightarrow> (t, v) \<in> entries P (r_members r)" for t v
        by (cases "v = u") (simp_all add: entries_iff sm um P)
      then show ?thesis by (metis (no_types) subrelI subset_antisym)
    qed
    then have "cache_ok P (om_modify u ?f (r_members r)) c = cache_ok P (r_members r) c"
      if "\<And>m. P (?f m) = P m" for P c using that by (simp add: cache_ok_def)
    moreover have "count_members is_disqualified (om_modify u ?f (r_members r)) = count_members is_disqualified (r_members r)"
      using count_members_modify [OF members_okD(1) [OF ok] Some, of is_disqualified ?f] kinds by simp
    ultimately show ?thesis
      using core members_ok_modify [OF ok Some, of ?f] by (simp add: room_core_def set_suppress_def kinds)
  qed
qed

lemma room_core_cong:
  "room_core r \<Longrightarrow> r_members r' = r_members r \<Longrightarrow> r_users r' = r_users r \<Longrightarrow> r_players r' = r_players r \<Longrightarrow>
   r_spectators r' = r_spectators r \<Longrightarrow> r_users_as_spectators r' = r_users_as_spectators r \<Longrightarrow>
   r_disqualified r' = r_disqualified r \<Longrightarrow> room_core r'"
  by (simp add: room_core_def)

lemma room_core_promote: "room_core r \<Longrightarrow> room_core (promote us r) \<and> room_frame (promote us r) = room_frame r"
  by (induction us arbitrary: r) (simp_all add: room_core_guarded)

lemma room_core_flush: "room_core r \<Longrightarrow> room_core (flush_waitlist r) \<and> room_frame (flush_waitlist r) = room_frame r"
  by (simp add: flush_waitlist_def room_core_promote)

lemma room_core_disqualify:
  "room_core r \<Longrightarrow> room_core (disqualify_player u r) \<and> room_frame (disqualify_player u r) = room_frame r"
  by (simp add: disqualify_player_def room_core_guarded split: option.split)

lemma room_core_reset: "room_core r \<Longrightarrow> room_core (reset_players r) \<and> room_frame (reset_players r) = room_frame r"
proof -
  have "room_core r' \<Longrightarrow> room_core (fold reset_player us r') \<and> room_frame (fold reset_player us r') = room_frame r'"
    for us and r' :: "'a room"
    by (induction us arbitrary: r') (simp_all add: reset_player_def room_core_guarded split: option.split)
  then show "room_core r \<Longrightarrow> ?thesis" by (simp add: reset_players_def)
qed

lemma room_core_end_game: "room_core r \<Longrightarrow> room_core (end_game r) \<and> room_frame (end_game r) = room_frame r"
  using room_core_reset [of r] room_core_cong [of "reset_players r" "end_game r"]
  by (simp add: end_game_def room_frame_def is_game_loaded_def)

lemma room_core_new: "room_core (new_room now started sig i)"
  by (simp add: room_core_def new_room_def members_ok_def cache_ok_def entries_def count_members_def)

end
