(* ===== verification/Game_Control.thy ===== *)
theory Game_Control
  imports Room_Invariant
begin

section \<open>Rooms and their games (modules chat and game)\<close>

text \<open>
  \<open>arepa::game::Controller\<close> is an abstract class: a table of callbacks that act on the room the
  game runs in (through \<open>Environment\<close>, which \<open>Room\<close> implements). \<open>'g\<close> is the state of the game
  object; it is part of the room. Here are the operations of \<open>Room\<close> that call the game, and
  \<open>DefaultController\<close>. The locale \<open>game_contract\<close> is what a room relies on: a callback may
  disqualify players and change statuses through the environment, but it keeps the caches in step
  with the members, and neither admits nor removes a member nor changes the owner.
\<close>

datatype intercept = INTERCEPTED | DEFAULT

record 'g controller =
  k_initialize :: "('g, unit) room_op"
  k_player_message :: "session_id \<Rightarrow> string \<Rightarrow> ('g, intercept) room_op"
  k_player_command :: "session_id \<Rightarrow> command \<Rightarrow> ('g, intercept) room_op"
  k_spectator_message :: "session_id \<Rightarrow> string \<Rightarrow> ('g, intercept) room_op"
  k_spectator_command :: "session_id \<Rightarrow> command \<Rightarrow> ('g, intercept) room_op"
  k_on_player_quit :: "session_id \<Rightarrow> ('g, unit) room_op"
  k_on_option_change :: "string \<Rightarrow> string \<Rightarrow> ('g, (unit, string) result) room_op"
  k_list_option_descriptions :: "('g, (string \<times> string) list) room_op"
  k_update :: "('g, unit) room_op"
  k_start :: "('g, unit) room_op"

text \<open>\<open>Controller::list_option_descriptions\<close> returns \<open>{ {} }\<close>: one pair of empty strings.\<close>

definition default_option_descriptions :: "('g, (string \<times> string) list) room_op" where
  "default_option_descriptions = sreturn [([], [])]"

definition default_spectator_message :: "session_id \<Rightarrow> string \<Rightarrow> ('g, intercept) room_op" where
  "default_spectator_message u m = sreturn DEFAULT"

definition default_spectator_command :: "session_id \<Rightarrow> command \<Rightarrow> ('g, intercept) room_op" where
  "default_spectator_command u c = sreturn DEFAULT"

definition default_on_player_quit :: "session_id \<Rightarrow> ('g, unit) room_op" where
  "default_on_player_quit u = modify_room end_game"

definition default_on_option_change :: "string \<Rightarrow> string \<Rightarrow> ('g, (unit, string) result) room_op" where
  "default_on_option_change k v = sreturn (Error_result ''This game does not take any options.'')"

text \<open>\<open>this->_game->f(...)\<close> with a null game is undefined.\<close>

definition on_game :: "('g, 'a) room_op \<Rightarrow> ('g, 'a) room_op" where
  "on_game m = sbind (read_room r_game) (\<lambda>g. case g of None \<Rightarrow> undefined_behaviour Null_deref | Some _ \<Rightarrow> m)"

subsection \<open>Room operations that call the game\<close>

definition take_out :: "session_id \<Rightarrow> member \<Rightarrow> 'g room \<Rightarrow> 'g room" where
  "take_out u m r = (cached_remove m r)\<lparr>r_members := om_erase u (r_members r)\<rparr>"

text \<open>The end of \<open>_remove_user\<close>. \<open>owner == user\<close> reads the member the owner pointer points to and
  the shared pointer inside the erased member.\<close>

definition shift_owner :: "session_id \<Rightarrow> ('g, unit) room_op" where
  "shift_owner u = sbind (read_room id) (\<lambda>r. case r_owner r of
     None \<Rightarrow> sreturn ()
   | Some ow \<Rightarrow> sseq use_after_free
       (if ow \<noteq> u then sreturn ()
        else if r_members r = [] then modify_room (\<lambda>r. r\<lparr>r_owner := None\<rparr>)
        else (case r_users r of
          [] \<Rightarrow> undefined_behaviour Out_of_bounds
        | e # _ \<Rightarrow> set_owner (Some (snd e)))))"

definition quit_game :: "'g controller \<Rightarrow> session_id \<Rightarrow> member \<Rightarrow> ('g, unit) room_op" where
  "quit_game K u m = sbind (read_room is_game_active) (\<lambda>active. swhen active
     (sseq use_after_free
       (swhen (is_player m \<or> is_disqualified m) (on_game (k_on_player_quit K u)))))"

definition remove_user :: "'g controller \<Rightarrow> session_id \<Rightarrow> ('g, unit) room_op" where
  "remove_user K u = sbind (read_room (find_member u)) (\<lambda>m0. case m0 of
     None \<Rightarrow> sreturn ()
   | Some _ \<Rightarrow> sseq (fire_leave u)
       (sbind (read_room (find_member u)) (\<lambda>m1. case m1 of
          None \<Rightarrow> undefined_behaviour Use_after_free
        | Some m \<Rightarrow> sseqs [
            modify_room (take_out u m),
            quit_game K u m,
            modify_room flush_waitlist,
            shift_owner u])))"

definition set_spectator_limit :: "'g controller \<Rightarrow> 64 word \<Rightarrow> ('g, unit) room_op" where
  "set_spectator_limit K limit = sbind (read_room id) (\<lambda>r.
     let overflow = sint (spectator_count r - limit);
         remove = sort_key (\<lambda>e. m_since (snd e)) (filter (\<lambda>e. is_player (snd e)) (r_members r))
     in if overflow > 0 then
          (if nat overflow > length remove then undefined_behaviour Out_of_bounds
           else sfor (take (nat overflow) remove) (\<lambda>e. remove_user K (fst e)))
        else sreturn ())"

definition update_game :: "'g controller \<Rightarrow> ('g, unit) room_op" where
  "update_game K = sbind (read_room is_game_active) (\<lambda>active. swhen active (on_game (k_update K)))"

definition process_message :: "'g controller \<Rightarrow> session_id \<Rightarrow> string \<Rightarrow> ('g, bool) room_op" where
  "process_message K u message = sbind (read_room (find_member u)) (\<lambda>m. case m of
     None \<Rightarrow> sreturn False
   | Some m \<Rightarrow> sbind (read_room is_game_active) (\<lambda>active.
       sbind (if active \<and> is_player m
              then on_game (if is_player m \<and> \<not> is_disqualified m
                then k_player_message K u message else k_spectator_message K u message)
              else sreturn DEFAULT) (\<lambda>result.
       if result = INTERCEPTED then sreturn True
       else sbind (sread id) (\<lambda>s.
         let prefix = (if is_game_loaded (c_room s) \<and> (is_spectator m \<or> is_disqualified m)
                       then ''[spectator] '' else []);
             outbound = prefix @ u_name (c_users s u) @ '': '' @ message
         in sseq (broadcast_message outbound) (sreturn True)))))"

definition load_game :: "'g controller \<Rightarrow> 'g \<Rightarrow> ('g, unit) room_op" where
  "load_game K g = sseqs [
     modify_room (\<lambda>r. if r_game r \<noteq> None \<and> r_started r then end_game r else r),
     modify_room (\<lambda>r. r\<lparr>r_game := Some g\<rparr>),
     on_game (k_initialize K)]"

definition start_game :: "'g controller \<Rightarrow> ('g, unit) room_op" where
  "start_game K = sbind (read_room is_game_loaded) (\<lambda>loaded.
     if \<not> loaded then throw_chat REQUIRES_GAME
     else sseqs [
       modify_room reset_players,
       sbind (read_room r_players) (\<lambda>ps. sfor ps (\<lambda>e.
         modify_user (snd e) (\<lambda>u. u\<lparr>u_stats := increment_wins (u_stats u)\<rparr>))),
       modify_room (\<lambda>r. r\<lparr>r_started := True\<rparr>),
       on_game (k_start K)])"

definition game_option :: "'g controller \<Rightarrow> string \<Rightarrow> string \<Rightarrow> ('g, (unit, string) result) room_op" where
  "game_option K key val = sbind (read_room is_game_loaded) (\<lambda>loaded.
     if \<not> loaded then throw_chat REQUIRES_GAME else on_game (k_on_option_change K key val))"

definition game :: "('g, 'g) room_op" where
  "game = sbind (read_room r_game) (\<lambda>g. case g of None \<Rightarrow> throw_chat REQUIRES_GAME | Some g \<Rightarrow> sreturn g)"

subsection \<open>Preservation: messages and signals\<close>

text \<open>A predicate on contexts that only looks at the room.\<close>

definition on_room :: "('g room \<Rightarrow> bool) \<Rightarrow> 'g ctx \<Rightarrow> bool" where
  "on_room P s \<longleftrightarrow> P (c_room s)"

abbreviation framed :: "frame \<Rightarrow> 'g ctx \<Rightarrow> bool" where
  "framed F \<equiv> on_room (\<lambda>r. room_core r \<and> room_frame r = F)"

lemma preserves_send [pres_intros]: "preserves (on_room P) (send_message u m)"
  by (simp add: preserves_def send_message_def act_simps on_room_def)

lemma preserves_send_system [pres_intros]: "preserves (on_room P) (send_system_message u m)"
  by (simp add: send_system_message_def pres_intros)

lemma preserves_send_error [pres_intros]: "preserves (on_room P) (send_error_message u m)"
  by (simp add: send_error_message_def pres_intros)

lemma preserves_use_after_free [pres_intros]: "preserves (on_room P) use_after_free"
  by (simp add: preserves_def use_after_free_def act_simps on_room_def)

lemma preserves_modify_user [pres_intros]: "preserves (on_room P) (modify_user u f)"
  by (simp add: preserves_def modify_user_def act_simps on_room_def)

lemma preserves_read_room [pres_intros]: "preserves I (read_room f)"
  by (simp add: read_room_def pres_intros)

lemma preserves_modify_room [pres_intros]:
  "(\<And>r. P r \<Longrightarrow> P (f r)) \<Longrightarrow> preserves (on_room P) (modify_room f)"
  by (simp add: preserves_def modify_room_def act_simps on_room_def)

lemma preserves_send_unless [pres_intros]: "preserves (on_room P) (send_unless_suppressed msg u)"
  unfolding send_unless_suppressed_def by (auto intro!: pres_intros split: option.split)

lemma preserves_broadcast [pres_intros]: "preserves (on_room P) (broadcast_message msg)"
  unfolding broadcast_message_def by (intro pres_intros)

lemma preserves_broadcast_spectators [pres_intros]:
  "preserves (on_room P) (broadcast_message_to_spectators msg)"
  unfolding broadcast_message_to_spectators_def by (intro pres_intros)

lemma preserves_run_listener [pres_intros]: "preserves (on_room P) (run_listener u l)"
  unfolding run_listener_def user_name_def by (intro pres_intros)

lemma preserves_fire:
  "(\<And>sig r. P r \<Longrightarrow> P (upd sig r)) \<Longrightarrow> preserves (on_room P) (fire sel upd u)"
  unfolding fire_def by (auto intro!: pres_intros split: prod.split)

definition signal_free :: "('g room \<Rightarrow> bool) \<Rightarrow> bool" where
  "signal_free P \<longleftrightarrow> (\<forall>r sig. P (r\<lparr>r_on_owner_change := sig\<rparr>) = P r \<and>
     P (r\<lparr>r_on_member_join := sig\<rparr>) = P r \<and> P (r\<lparr>r_on_member_leave := sig\<rparr>) = P r)"

lemma preserves_fires [pres_intros]:
  "signal_free P \<Longrightarrow> preserves (on_room P) (fire_join u)"
  "signal_free P \<Longrightarrow> preserves (on_room P) (fire_leave u)"
  "signal_free P \<Longrightarrow> preserves (on_room P) (fire_owner_change u)"
  unfolding fire_join_def fire_leave_def fire_owner_change_def signal_free_def
  by (simp_all add: preserves_fire)

lemma signal_free_core_frame [simp]: "signal_free (\<lambda>r. room_core r \<and> room_frame r = F)"
  by (auto simp: signal_free_def room_core_def room_frame_def is_game_loaded_def)

end
