(* ===== verification/Room_Operations.thy ===== *)
theory Room_Operations
  imports Game_Control
begin

section \<open>What the room operations guarantee\<close>

text \<open>
  Broadcasts reach exactly the members that do not suppress them, in the order they joined; every
  operation of a room keeps the room invariant, under the contract of the game's callbacks
  (locale \<open>game_contract\<close>); the capacity of a room; the waitlist; the owner.
\<close>

subsection \<open>Broadcasts\<close>

definition hears :: "'g room \<Rightarrow> session_id \<Rightarrow> bool" where
  "hears r u = (case find_member u r of None \<Rightarrow> False | Some m \<Rightarrow> \<not> m_suppress m)"

definition audience :: "'g room \<Rightarrow> session_id list" where
  "audience r = filter (hears r) (map snd (r_users r))"

lemma entries_member: "e \<in> entries P ms \<Longrightarrow> \<exists>m. (snd e, m) \<in> set ms \<and> P m \<and> m_since m = fst e"
  by (cases e) (auto simp: entries_iff)

lemma cache_member:
  assumes "room_core r" and "e \<in> set c" and "cache_ok P (r_members r) c"
  obtains m where "find_member (snd e) r = Some m" and "P m" and "m_since m = fst e"
  using entries_member [of e P "r_members r"] assms find_member_core [OF assms(1)]
  by (auto simp: cache_ok_def)

lemma core_users_members: "room_core r \<Longrightarrow> e \<in> set (r_users r) \<Longrightarrow> find_member (snd e) r \<noteq> None"
  using cache_member [of r e "r_users r" "\<lambda>_. True"] by (auto simp: room_core_def)

lemma core_players_members: "room_core r \<Longrightarrow> e \<in> set (r_players r) \<Longrightarrow> find_member (snd e) r \<noteq> None"
  using cache_member [of r e "r_players r" playing] by (auto simp: room_core_def)

lemma send_unless_run:
  "find_member u (c_room s) \<noteq> None \<Longrightarrow>
   send_unless_suppressed msg u s =
     (Inr (), s\<lparr>c_sent := c_sent s @ (if hears (c_room s) u then [(u, msg)] else [])\<rparr>)"
  by (auto simp: send_unless_suppressed_def send_message_def read_room_def act_simps hears_def)

lemma broadcast_loop_run:
  "(\<forall>e \<in> set es. find_member (snd e) (c_room s) \<noteq> None) \<Longrightarrow>
   sfor es (\<lambda>e. send_unless_suppressed msg (snd e)) s =
     (Inr (), s\<lparr>c_sent := c_sent s @ map (\<lambda>u. (u, msg)) (filter (hears (c_room s)) (map snd es))\<rparr>)"
  by (induction es arbitrary: s) (simp_all add: act_simps send_unless_run)

lemma broadcast_run:
  "room_core (c_room s) \<Longrightarrow>
   broadcast_message msg s = (Inr (), s\<lparr>c_sent := c_sent s @ map (\<lambda>u. (u, msg)) (audience (c_room s))\<rparr>)"
  using core_users_members [of "c_room s"]
  by (simp add: broadcast_message_def read_room_def act_simps broadcast_loop_run audience_def)

lemma safe_broadcast:
  "(\<And>r. P r \<Longrightarrow> room_core r) \<Longrightarrow> safe (on_room P) (broadcast_message msg) (\<lambda>_. on_room P)"
  by (rule safeI) (simp add: broadcast_run on_room_def)

lemma safe_run_listener:
  "(\<And>r. P r \<Longrightarrow> room_core r) \<Longrightarrow> safe (on_room P) (run_listener u l) (\<lambda>_. on_room P)"
  unfolding run_listener_def user_name_def
  by (rule safe_bind_read, rule safe_weaken, rule safe_broadcast [of P]) auto

lemma safe_modify_room: "(\<And>r. P r \<Longrightarrow> Q (f r)) \<Longrightarrow> safe (on_room P) (modify_room f) (\<lambda>_. on_room Q)"
  by (simp add: modify_room_def on_room_def safe_def smodify_def)

lemma safe_send: "safe (on_room P) (send_message u m) (\<lambda>_. on_room P)"
  by (simp add: send_message_def on_room_def safe_def smodify_def)

lemma safe_use_after_free: "safe (on_room P) use_after_free (\<lambda>_. on_room P)"
  by (simp add: use_after_free_def on_room_def safe_def smodify_def)

lemma safe_modify_user: "safe (on_room P) (modify_user u f) (\<lambda>_. on_room P)"
  by (simp add: modify_user_def on_room_def safe_def smodify_def)

lemma safe_read_room:
  "(\<And>a. safe (on_room (\<lambda>r. P r \<and> a = f r)) (g a) Q) \<Longrightarrow> safe (on_room P) (sbind (read_room f) g) Q"
  unfolding read_room_def by (rule safe_bind_read) (auto simp: on_room_def safe_def)

lemma safe_fire:
  assumes "\<And>r. P r \<Longrightarrow> room_core r" and "\<And>sig r. P r \<Longrightarrow> P (upd sig r)"
  shows "safe (on_room P) (fire sel upd u) (\<lambda>_. on_room P)"
  unfolding fire_def
proof (rule safe_read_room, clarsimp split: prod.split)
  fix ls sig
  show "safe (on_room (\<lambda>r. P r \<and> (ls, sig) = emit (sel r)))
      (sseq (modify_room (upd sig)) (sfor ls (run_listener u))) (\<lambda>_. on_room P)"
    by (rule safe_seq [where R = "on_room P"])
      (auto intro!: safe_modify_room safe_for safe_run_listener assms)
qed

lemma safe_fires:
  assumes "\<And>r. P r \<Longrightarrow> room_core r" and "signal_free P"
  shows "safe (on_room P) (fire_join u) (\<lambda>_. on_room P)"
    and "safe (on_room P) (fire_leave u) (\<lambda>_. on_room P)"
    and "safe (on_room P) (fire_owner_change u) (\<lambda>_. on_room P)"
  using assms unfolding fire_join_def fire_leave_def fire_owner_change_def signal_free_def
  by (simp_all add: safe_fire)

lemma safe_set_owner:
  assumes "\<And>r. P r \<Longrightarrow> room_core r \<and> find_member u r \<noteq> None" and "\<And>r. P r \<Longrightarrow> Q (r\<lparr>r_owner := Some u\<rparr>)"
    and "\<And>r. Q r \<Longrightarrow> room_core r" and "signal_free Q"
  shows "safe (on_room P) (set_owner (Some u)) (\<lambda>_. on_room Q)"
  unfolding set_owner_def
proof (rule safe_read_room, goal_cases)
  case (1 ok)
  show ?case
  proof (cases ok)
    case True
    then show ?thesis
      by (auto intro!: safe_seq [where R = "on_room Q"] safe_modify_room safe_fires assms)
  next
    case False
    then have "\<not> on_room (\<lambda>r. P r \<and> ok = (case Some u of None \<Rightarrow> True | Some v \<Rightarrow> find_member v r \<noteq> None)) s" for s
      using assms(1) [of "c_room s"] by (auto simp: on_room_def)
    then show ?thesis by (simp add: safe_def)
  qed
qed

subsection \<open>The contract of a game\<close>

text \<open>Whatever the frame, the room invariant splits into the caches and a property of the frame,
  so long as a game stays loaded.\<close>

definition inv_frame :: "frame \<Rightarrow> bool" where
  "inv_frame F \<longleftrightarrow> (case fst F of None \<Rightarrow> fst (snd F) = [] | Some u \<Rightarrow> u \<in> fst ` set (fst (snd F)))"

lemma owner_ok_inv_frame: "owner_ok r \<longleftrightarrow> inv_frame (room_frame r)"
  unfolding owner_ok_def inv_frame_def frame_keys
  by (auto simp: room_frame_def split: option.split)

lemma callback_room_inv:
  fixes m :: "('g, 'a) room_op"
  assumes "\<And>F. preserves (framed F) m"
  shows "preserves (on_room (\<lambda>r. room_inv r \<and> is_game_loaded r)) m"
proof (rule preservesI)
  fix s :: "'g ctx"
  assume "on_room (\<lambda>r. room_inv r \<and> is_game_loaded r) s"
  then have s: "room_core (c_room s)" "inv_frame (room_frame (c_room s))" "is_game_loaded (c_room s)"
    by (simp_all add: on_room_def room_inv_def owner_ok_inv_frame)
  have "framed (room_frame (c_room s)) s" using s(1) by (simp add: on_room_def)
  then have f: "framed (room_frame (c_room s)) (snd (m s))" using preservesD [OF assms] by blast
  then have "is_game_loaded (c_room (snd (m s)))" using s(3) by (simp add: on_room_def room_frame_def)
  then show "on_room (\<lambda>r. room_inv r \<and> is_game_loaded r) (snd (m s))"
    using f s(2) by (simp add: on_room_def room_inv_def owner_ok_inv_frame)
qed

text \<open>The access to freed memory at the end of a removal.\<close>

definition faulty :: "'g ctx \<Rightarrow> bool" where
  "faulty s \<longleftrightarrow> Use_after_free \<in> set (c_faults s)"

lemma faulty_modify_room: "preserves faulty (modify_room f)"
  by (simp add: preserves_def faulty_def modify_room_def act_simps)

lemma faulty_set_owner: "preserves faulty (set_owner ow)"
proof -
  have base: "preserves faulty (read_room f)" "preserves faulty (modify_room g)" "preserves faulty (send_message u m)"
    for f :: "'g room \<Rightarrow> 'b" and g u m
    by (simp_all add: preserves_def faulty_def read_room_def modify_room_def send_message_def act_simps)
  have send: "preserves faulty (send_unless_suppressed msg u)" for msg u
    unfolding send_unless_suppressed_def by (auto intro!: pres_intros base split: option.split)
  have cast: "preserves faulty (broadcast_message msg)" for msg
    unfolding broadcast_message_def by (intro pres_intros base send)
  have "preserves faulty (fire_owner_change u)" for u
    unfolding fire_owner_change_def fire_def run_listener_def user_name_def
    by (auto intro!: pres_intros base cast split: prod.split)
  then show ?thesis
    unfolding set_owner_def by (auto intro!: pres_intros base split: option.split)
qed

lemma shift_owner_faulty:
  assumes "r_owner (c_room s) \<noteq> None"
  shows "faulty (snd (shift_owner u s))"
proof -
  obtain ow where ow: "r_owner (c_room s) = Some ow" using assms by blast
  let ?s = "s\<lparr>c_faults := c_faults s @ [Use_after_free]\<rparr>"
  let ?next = "if ow \<noteq> u then sreturn ()
     else if r_members (c_room s) = [] then modify_room (\<lambda>r. r\<lparr>r_owner := None\<rparr>)
     else (case r_users (c_room s) of [] \<Rightarrow> undefined_behaviour Out_of_bounds | e # _ \<Rightarrow> set_owner (Some (snd e)))"
  have eq: "shift_owner u s = ?next ?s"
    by (simp add: shift_owner_def read_room_def use_after_free_def act_simps ow)
  have p: "preserves faulty ?next"
    by (auto intro!: preserves_return preserves_undefined faulty_modify_room faulty_set_owner split: list.split)
  have "faulty ?s" by (simp add: faulty_def)
  then show ?thesis unfolding eq by (rule preservesD [OF p])
qed

lemma safe_framed:
  fixes m :: "('g, 'a) room_op"
  assumes "\<And>F. G F \<Longrightarrow> safe (framed F) m (\<lambda>_. framed F)"
  shows "safe (on_room (\<lambda>r. room_core r \<and> G (room_frame r))) m (\<lambda>_. on_room (\<lambda>r. room_core r \<and> G (room_frame r)))"
proof (rule safeI)
  fix s :: "'g ctx"
  assume s: "on_room (\<lambda>r. room_core r \<and> G (room_frame r)) s"
  then have "framed (room_frame (c_room s)) s" and "G (room_frame (c_room s))" by (simp_all add: on_room_def)
  then obtain a s' where "m s = (Inr a, s')" "framed (room_frame (c_room s)) s'"
    using safeD [OF assms] by blast
  then show "\<exists>a s'. m s = (Inr a, s') \<and> on_room (\<lambda>r. room_core r \<and> G (room_frame r)) s'"
    using s by (simp add: on_room_def)
qed

text \<open>The state between erasing the member \<open>u\<close> and choosing the next owner: the owner may still be
  the erased member.\<close>

definition gone_frame :: "session_id \<Rightarrow> frame \<Rightarrow> bool" where
  "gone_frame u F \<longleftrightarrow> u \<notin> fst ` set (fst (snd F)) \<and>
     (case fst F of None \<Rightarrow> False | Some ow \<Rightarrow> ow = u \<or> ow \<in> fst ` set (fst (snd F)))"

definition gone :: "session_id \<Rightarrow> 'g room \<Rightarrow> bool" where
  "gone u r \<longleftrightarrow> (room_core r \<and> gone_frame u (room_frame r)) \<and> (is_game_active r \<longrightarrow> is_game_loaded r)"

lemma signal_free_inv [simp]: "signal_free room_inv"
  by (simp add: signal_free_def room_inv_def room_core_def owner_ok_def is_game_active_def is_game_loaded_def
    cong: option.case_cong)

lemma signal_free_conj: "signal_free P \<Longrightarrow> signal_free Q \<Longrightarrow> signal_free (\<lambda>r. P r \<and> Q r)"
  by (simp add: signal_free_def)

lemma signal_free_find [simp]: "signal_free (\<lambda>r. find_member u r \<noteq> None)"
  by (simp add: signal_free_def find_member_def)

lemma take_out_gone:
  assumes "room_inv r" and "find_member u r = Some m"
  shows "gone u (take_out u m r)"
proof -
  have core: "room_core (take_out u m r)"
    using assms room_core_remove by (auto simp: room_inv_def take_out_def)
  have keys: "fst ` set (r_members (take_out u m r)) = fst ` set (r_members r) - {u}"
    by (auto simp: take_out_def om_set_erase)
  have "(u, m) \<in> set (r_members r)"
    using assms by (simp add: find_member_core room_inv_def)
  then have "u \<in> fst ` set (r_members r)" by force
  then obtain ow where "r_owner r = Some ow" "ow \<in> fst ` set (r_members r)"
    using assms(1) by (auto simp: room_inv_def owner_ok_def split: option.splits)
  then have "gone_frame u (room_frame (take_out u m r))"
    unfolding gone_frame_def frame_keys [symmetric] keys
    by (simp add: room_frame_def take_out_def cached_remove_def)
  then show ?thesis
    using core assms(1)
    by (simp add: gone_def room_inv_def is_game_active_def is_game_loaded_def take_out_def cached_remove_def)
qed

text \<open>The state after a removal.\<close>

definition left_inv :: "session_id \<Rightarrow> 'g room \<Rightarrow> bool" where
  "left_inv u r \<longleftrightarrow> room_inv r \<and> u \<notin> fst ` set (r_members r)"

lemma signal_free_left [simp]: "signal_free (left_inv u)"
  unfolding left_inv_def [abs_def] by (rule signal_free_conj [OF signal_free_inv]) (simp add: signal_free_def)

lemma safe_shift_owner: "safe (on_room (gone u)) (shift_owner u) (\<lambda>_. on_room (left_inv u))"
  unfolding shift_owner_def
proof (rule safe_read_room, goal_cases)
  case (1 r0)
  show ?case
  proof (cases "gone u r0")
    case False
    then have "\<not> on_room (\<lambda>r. gone u r \<and> r0 = id r) s" for s by (auto simp: on_room_def)
    then show ?thesis by (simp add: safe_def)
  next
    case True
    then have core: "room_core r0" and start: "is_game_active r0 \<longrightarrow> is_game_loaded r0"
      and nu: "u \<notin> fst ` set (r_members r0)"
      by (simp_all add: gone_def gone_frame_def frame_keys)
    obtain ow where ow: "r_owner r0 = Some ow" "ow = u \<or> ow \<in> fst ` set (r_members r0)"
      using True by (auto simp: gone_def gone_frame_def frame_keys room_frame_def split: option.splits)
    have P: "safe (on_room (\<lambda>r. gone u r \<and> r0 = id r)) use_after_free (\<lambda>_. on_room (\<lambda>r. r = r0))"
      by (rule safe_weaken [OF safe_use_after_free [of "\<lambda>r. r = r0"]]) (auto simp: on_room_def)
    have Q: "safe (on_room (\<lambda>r. r = r0))
       (if ow \<noteq> u then sreturn ()
        else if r_members r0 = [] then modify_room (\<lambda>r. r\<lparr>r_owner := None\<rparr>)
        else (case r_users r0 of
          [] \<Rightarrow> undefined_behaviour Out_of_bounds
        | e # _ \<Rightarrow> set_owner (Some (snd e)))) (\<lambda>_. on_room (left_inv u))"
    proof (cases "ow = u")
      case False
      then have "left_inv u r0" using core ow start nu by (auto simp: left_inv_def room_inv_def owner_ok_def)
      then show ?thesis using False by (auto intro!: safe_return simp: on_room_def)
    next
      case shift: True
      show ?thesis
      proof (cases "r_members r0")
        case Nil
        have "left_inv u (r0\<lparr>r_owner := None\<rparr>)"
          using core start Nil
          by (simp add: left_inv_def room_inv_def owner_ok_def room_core_def is_game_active_def is_game_loaded_def)
        then show ?thesis using shift Nil by (auto intro!: safe_modify_room)
      next
        case (Cons e ms)
        have "(m_since (snd e), fst e) \<in> set (r_users r0)"
          using core Cons by (cases e) (auto simp: room_core_def cache_ok_def entries_iff)
        then obtain f us where us: "r_users r0 = f # us" by (cases "r_users r0") auto
        have f: "find_member (snd f) r0 \<noteq> None"
          using core_users_members [OF core, of f] us by simp
        then have fk: "snd f \<in> fst ` set (r_members r0)" using find_member_keys by metis
        have "left_inv u (r0\<lparr>r_owner := Some (snd f)\<rparr>)"
          using core start fk nu
          by (simp add: left_inv_def room_inv_def owner_ok_def room_core_def is_game_active_def is_game_loaded_def)
        then have "safe (on_room (\<lambda>r. r = r0)) (set_owner (Some (snd f))) (\<lambda>_. on_room (left_inv u))"
          by (intro safe_set_owner) (use core f in \<open>auto simp: left_inv_def room_inv_def\<close>)
        then show ?thesis using shift Cons us by simp
      qed
    qed
    show ?thesis using safe_seq [OF P Q] ow(1) by simp
  qed
qed

lemma safe_shift_owner_faulty:
  "safe (on_room (gone u)) (shift_owner u) (\<lambda>_ s. on_room (left_inv u) s \<and> faulty s)"
proof (rule safeI)
  fix s :: "'a ctx"
  assume g: "on_room (gone u) s"
  then have "r_owner (c_room s) \<noteq> None"
    by (auto simp: on_room_def gone_def gone_frame_def room_frame_def split: option.splits)
  then have "faulty (snd (shift_owner u s))" by (rule shift_owner_faulty)
  then show "\<exists>a s'. shift_owner u s = (Inr a, s') \<and> on_room (left_inv u) s' \<and> faulty s'"
    using safeD [OF safe_shift_owner g] by auto
qed

locale game_contract =
  fixes K :: "'g controller"
  assumes initialize_keeps: "preserves (framed F) (k_initialize K)"
    and player_message_keeps: "preserves (framed F) (k_player_message K u m)"
    and player_command_keeps: "preserves (framed F) (k_player_command K u c)"
    and spectator_message_keeps: "preserves (framed F) (k_spectator_message K u m)"
    and spectator_command_keeps: "preserves (framed F) (k_spectator_command K u c)"
    and option_keeps: "preserves (framed F) (k_on_option_change K x y)"
    and list_keeps: "preserves (framed F) (k_list_option_descriptions K)"
    and update_keeps: "preserves (framed F) (k_update K)"
    and start_keeps: "preserves (framed F) (k_start K)"
    and quit_safe: "snd (snd F) \<Longrightarrow> safe (framed F) (k_on_player_quit K u) (\<lambda>_. framed F)"
begin

lemmas callbacks_keep = initialize_keeps player_message_keeps player_command_keeps
  spectator_message_keeps spectator_command_keeps option_keeps list_keeps update_keeps start_keeps

lemma quit_game_safe: "safe (on_room (gone u)) (quit_game K u m) (\<lambda>_. on_room (gone u))"
proof -
  let ?G = "\<lambda>F. gone_frame u F \<and> snd (snd F)"
  have quit: "safe (on_room (\<lambda>r. room_core r \<and> ?G (room_frame r))) (k_on_player_quit K u)
      (\<lambda>_. on_room (\<lambda>r. room_core r \<and> ?G (room_frame r)))"
    by (rule safe_framed) (simp add: quit_safe)
  have loaded: "safe (on_room (\<lambda>r. room_core r \<and> ?G (room_frame r))) (on_game (k_on_player_quit K u))
      (\<lambda>_. on_room (\<lambda>r. room_core r \<and> ?G (room_frame r)))"
    unfolding on_game_def
  proof (rule safe_read_room, goal_cases)
    case (1 g)
    then show ?case
    proof (cases g)
      case None
      then have "\<not> on_room (\<lambda>r. (room_core r \<and> ?G (room_frame r)) \<and> g = r_game r) s" for s
        by (auto simp: on_room_def room_frame_def is_game_loaded_def)
      then show ?thesis by (simp add: safe_def)
    next
      case (Some x)
      then show ?thesis by (auto intro: safe_weaken [OF quit] simp: on_room_def)
    qed
  qed
  have G: "gone u r \<and> is_game_active r \<Longrightarrow> room_core r \<and> ?G (room_frame r)"
    and G': "room_core r \<and> ?G (room_frame r) \<Longrightarrow> gone u r" for r :: "'g room"
    by (auto simp: gone_def room_frame_def)
  show ?thesis
    unfolding quit_game_def
  proof (rule safe_read_room, goal_cases)
    case (1 active)
    show ?case
    proof (cases active)
      case False
      then show ?thesis by (auto simp: swhen_def on_room_def intro!: safe_return)
    next
      case True
      have "safe (on_room (\<lambda>r. room_core r \<and> ?G (room_frame r)))
         (sseq use_after_free (swhen (is_player m \<or> is_disqualified m) (on_game (k_on_player_quit K u))))
         (\<lambda>_. on_room (\<lambda>r. room_core r \<and> ?G (room_frame r)))"
        by (rule safe_seq [OF safe_use_after_free]) (rule safe_when, rule loaded)
      then have "safe (on_room (\<lambda>r. gone u r \<and> True = is_game_active r))
         (sseq use_after_free (swhen (is_player m \<or> is_disqualified m) (on_game (k_on_player_quit K u))))
         (\<lambda>_. on_room (gone u))"
      proof (rule safe_weaken)
        show "on_room (\<lambda>r. room_core r \<and> ?G (room_frame r)) s"
          if "on_room (\<lambda>r. gone u r \<and> True = is_game_active r) s" for s :: "'g ctx"
          using that G [of "c_room s"] by (simp add: on_room_def)
        show "on_room (gone u) s" if "on_room (\<lambda>r. room_core r \<and> ?G (room_frame r)) s"
          for s :: "'g ctx"
          using that G' [of "c_room s"] by (simp add: on_room_def)
      qed
      then show ?thesis
        using True by (simp add: swhen_def)
    qed
  qed
qed

lemma remove_tail_safe:
  "safe (on_room (\<lambda>r. room_inv r \<and> find_member u r = Some m))
     (sseqs [modify_room (take_out u m), quit_game K u m, modify_room flush_waitlist, shift_owner u])
     (\<lambda>_ s. on_room (left_inv u) s \<and> faulty s)"
proof -
  have flush: "safe (on_room (gone u) :: 'g ctx \<Rightarrow> bool) (modify_room flush_waitlist) (\<lambda>_. on_room (gone u))"
  proof (rule safe_modify_room)
    fix r :: "'g room"
    assume g: "gone u r"
    have "r_started (flush_waitlist r) = r_started r"
    proof -
      have "r_started (promote us r') = r_started r'" for us and r' :: "'g room"
        by (induction us arbitrary: r') simp_all
      then show ?thesis by (simp add: flush_waitlist_def)
    qed
    moreover have "room_core (flush_waitlist r) \<and> room_frame (flush_waitlist r) = room_frame r"
      using room_core_flush g by (auto simp: gone_def)
    moreover from this have "is_game_loaded (flush_waitlist r) = is_game_loaded r"
      by (simp add: room_frame_def)
    ultimately show "gone u (flush_waitlist r)"
      using g by (simp add: gone_def is_game_active_def)
  qed
  have take: "safe (on_room (\<lambda>r. room_inv r \<and> find_member u r = Some m)) (modify_room (take_out u m))
      (\<lambda>_. on_room (gone u))"
    by (rule safe_modify_room) (simp add: take_out_gone)
  have ret: "safe (\<lambda>s. on_room (left_inv u) s \<and> faulty s) (sreturn ()) (\<lambda>_ s. on_room (left_inv u) s \<and> faulty s)"
    by (simp add: safe_return)
  from safe_seq [OF take safe_seq [OF quit_game_safe safe_seq [OF flush safe_seq [OF safe_shift_owner_faulty ret]]]]
  show ?thesis by simp
qed

lemma remove_member_safe:
  "safe (on_room (\<lambda>r. room_inv r \<and> find_member u r \<noteq> None)) (remove_user K u)
     (\<lambda>_ s. on_room (left_inv u) s \<and> faulty s)"
proof -
  have "signal_free (\<lambda>r. room_inv r \<and> find_member u r \<noteq> None)"
    by (rule signal_free_conj [OF signal_free_inv signal_free_find])
  then have fire: "safe (on_room (\<lambda>r. room_inv r \<and> find_member u r \<noteq> None)) (fire_leave u)
      (\<lambda>_. on_room (\<lambda>r. room_inv r \<and> find_member u r \<noteq> None))"
    by (rule safe_fires(2) [rotated]) (simp add: room_inv_def)
  show ?thesis
    unfolding remove_user_def
  proof (rule safe_read_room, goal_cases)
    case (1 m0)
    show ?case
    proof (cases m0)
      case None
      then show ?thesis by (auto simp: safe_def on_room_def)
    next
      case (Some m0')
      have "safe (on_room (\<lambda>r. room_inv r \<and> find_member u r \<noteq> None))
         (sbind (read_room (find_member u)) (\<lambda>m1. case m1 of None \<Rightarrow> undefined_behaviour Use_after_free
            | Some m \<Rightarrow> sseqs [modify_room (take_out u m), quit_game K u m, modify_room flush_waitlist, shift_owner u]))
         (\<lambda>_ s. on_room (left_inv u) s \<and> faulty s)"
      proof (rule safe_read_room, goal_cases)
        case (1 m1)
        show ?case
        proof (cases m1)
          case None
          then show ?thesis by (auto simp: safe_def on_room_def)
        next
          case (Some m)
          show ?thesis
            unfolding Some option.case by (rule safe_weaken [OF remove_tail_safe]) (auto simp: on_room_def)
        qed
      qed
      from safe_seq [OF fire this] show ?thesis
        unfolding Some option.case by (rule safe_weaken) (auto simp: on_room_def dest: sym)
    qed
  qed
qed

lemma remove_stranger:
  "find_member u (c_room s) = None \<Longrightarrow> remove_user K u s = (Inr (), s)"
  by (simp add: remove_user_def read_room_def act_simps)

lemma remove_user_safe: "safe (on_room room_inv) (remove_user K u) (\<lambda>_. on_room (left_inv u))"
proof (rule safeI)
  fix s :: "'g ctx"
  assume inv: "on_room room_inv s"
  show "\<exists>a s'. remove_user K u s = (Inr a, s') \<and> on_room (left_inv u) s'"
  proof (cases "find_member u (c_room s)")
    case None
    then have "u \<notin> fst ` set (r_members (c_room s))" by (simp only: find_member_keys simp_thms)
    then show ?thesis using inv by (simp add: remove_stranger [OF None] on_room_def left_inv_def)
  next
    case (Some m)
    then show ?thesis using safeD [OF remove_member_safe [of u], of s] inv by (auto simp: on_room_def)
  qed
qed

end

end
