(* ===== verification/Room_Properties.thy ===== *)
theory Room_Properties
  imports Room_Operations
begin

section \<open>Properties of rooms\<close>

text \<open>
  The room invariant along every sequence of room operations, for any game that keeps its
  contract; the capacity of a room; the waitlist; and what happens when two users join at the
  same clock reading.
\<close>

subsection \<open>Admitting a member\<close>

definition sinces :: "'g room \<Rightarrow> int set" where
  "sinces r = (\<lambda>e. m_since (snd e)) ` set (r_members r)"

lemma om_modify_insert_fresh: "u \<notin> fst ` set ms \<Longrightarrow> om_modify u f (om_insert u m ms) = om_insert u (f m) ms"
proof (induction u m ms rule: om_insert.induct)
  case (2 k v k' v' m)
  have "k \<notin> fst ` set m \<Longrightarrow> map (\<lambda>p. if fst p = k then (fst p, f (snd p)) else p) m = m"
    by (auto simp: image_iff intro!: map_idI)
  then show ?case using 2 by (auto simp: om_modify_def)
qed (simp add: om_modify_def)

lemma modify_room_twice: "sseq (modify_room f) (sseq (modify_room g) n) = sseq (modify_room (\<lambda>r. g (f r))) n"
  by (simp add: fun_eq_iff modify_room_def act_simps)

lemma insert_suppressed:
  assumes "find_member (m_user m) r = None"
  shows "cached_add (m\<lparr>m_suppress := b\<rparr>) (set_suppress b (m_user m) (insert_member m r)) =
         cached_add (m\<lparr>m_suppress := b\<rparr>) (insert_member (m\<lparr>m_suppress := b\<rparr>) r)"
proof -
  have "m_user m \<notin> fst ` set (r_members r)" using assms by (simp add: find_member_keys)
  then show ?thesis by (simp add: set_suppress_def insert_member_def om_modify_insert_fresh)
qed

lemma insert_member_keys:
  "fst ` set (r_members (cached_add m (insert_member m r))) = insert (m_user m) (fst ` set (r_members r))"
  by (simp add: cached_add_def insert_member_def om_keys_insert)

text \<open>The state after the new member is in the map and the caches: only the owner may be missing.\<close>

definition admitted :: "session_id \<Rightarrow> 'g room \<Rightarrow> bool" where
  "admitted u r \<longleftrightarrow> room_core r \<and> find_member u r \<noteq> None \<and> (r_owner r = None \<or> owner_ok r) \<and>
     (is_game_active r \<longrightarrow> is_game_loaded r)"

lemma admitted_insert:
  assumes "room_inv r" and "find_member (m_user m) r = None" and "m_since m \<notin> sinces r"
  shows "admitted (m_user m) (cached_add m (insert_member m r))"
proof -
  have "room_core (cached_add m (insert_member m r))"
    by (rule room_core_insert) (use assms in \<open>simp_all add: room_inv_def sinces_def\<close>)
  moreover have "find_member (m_user m) (cached_add m (insert_member m r)) \<noteq> None"
    unfolding find_member_keys insert_member_keys by simp
  moreover have "owner_ok r" using assms(1) by (simp add: room_inv_def)
  then have "r_owner r = None \<or> owner_ok (cached_add m (insert_member m r))"
    by (cases "r_owner r")
      (simp_all add: owner_ok_def cached_add_def insert_member_def om_keys_insert del: image_iff)
  ultimately show ?thesis
    using assms(1)
    by (auto simp: admitted_def room_inv_def cached_add_def insert_member_def is_game_active_def is_game_loaded_def)
qed

lemma signal_free_admitted: "signal_free (admitted u)"
  by (simp add: signal_free_def admitted_def room_core_def owner_ok_def find_member_def is_game_active_def
    is_game_loaded_def cong: option.case_cong)

lemma admitted_owner: "admitted u r \<Longrightarrow> room_inv (r\<lparr>r_owner := Some u\<rparr>) \<and> find_member u (r\<lparr>r_owner := Some u\<rparr>) \<noteq> None"
proof -
  assume a: "admitted u r"
  then have "u \<in> fst ` set (r_members r)" using find_member_keys [of u r] by (auto simp: admitted_def)
  then show ?thesis
    using a by (simp add: admitted_def room_inv_def room_core_def owner_ok_def find_member_def
      is_game_active_def is_game_loaded_def)
qed

lemma room_inv_suppress: "room_inv r \<Longrightarrow> room_inv (set_suppress b u r)"
  using room_core_suppress [of r b u] owner_ok_frame [of "set_suppress b u r" r]
  by (simp add: room_inv_def) (simp add: set_suppress_def is_game_active_def is_game_loaded_def)

lemma admit_new_safe:
  fixes now u
  defines "pre \<equiv> \<lambda>r :: 'g room. room_inv r \<and> find_member u r = None \<and> now \<notin> sinces r"
  shows "safe (on_room pre) (admit_new now u st) (\<lambda>_. on_room room_inv)"
proof -
  let ?here = "\<lambda>r :: 'g room. room_inv r \<and> find_member u r \<noteq> None"
  have "signal_free ?here" by (rule signal_free_conj [OF signal_free_inv signal_free_find])
  then have join: "safe (on_room ?here) (fire_join u) (\<lambda>_. on_room ?here)"
    by (rule safe_fires(1) [rotated]) (simp add: room_inv_def)
  have unsup: "safe (on_room ?here) (modify_room (set_suppress False u)) (\<lambda>_. on_room room_inv)"
    by (rule safe_modify_room) (simp add: room_inv_suppress)
  have owner: "safe (on_room (admitted u)) (sbind (read_room r_owner) (\<lambda>ow. swhen (ow = None) (set_owner (Some u))))
      (\<lambda>_. on_room ?here)"
  proof (rule safe_read_room, goal_cases)
    case (1 ow)
    show ?case
    proof (cases ow)
      case None
      have "safe (on_room (admitted u)) (set_owner (Some u)) (\<lambda>_. on_room ?here)"
        by (rule safe_set_owner)
          (use admitted_owner \<open>signal_free ?here\<close> in \<open>simp_all add: admitted_def room_inv_def\<close>)
      then have "safe (on_room (\<lambda>r. admitted u r \<and> None = r_owner r)) (set_owner (Some u)) (\<lambda>_. on_room ?here)"
        by (rule safe_weaken) (simp_all add: on_room_def)
      then show ?thesis by (simp add: None swhen_def)
    next
      case (Some x)
      then show ?thesis
        by (auto intro!: safe_return simp: swhen_def on_room_def admitted_def room_inv_def)
    qed
  qed
  have ret: "safe (on_room room_inv) (sreturn ()) (\<lambda>_. on_room room_inv)" by (simp add: safe_return)
  note rest = safe_seq [OF owner safe_seq [OF join safe_seq [OF unsup ret]]]
  have ins: "safe (on_room pre)
      (modify_room (\<lambda>r. cached_add ((new_member now k u st)\<lparr>m_suppress := True\<rparr>)
         (set_suppress True u (insert_member (new_member now k u st) r)))) (\<lambda>_. on_room (admitted u))" for k
  proof (rule safe_modify_room)
    fix r :: "'g room"
    assume p: "pre r"
    let ?m = "(new_member now k u st)\<lparr>m_suppress := True\<rparr>"
    have "admitted u (cached_add ?m (insert_member ?m r))"
      using admitted_insert [of r ?m] p by (simp add: pre_def new_member_def)
    then show "admitted u (cached_add ?m (set_suppress True u (insert_member (new_member now k u st) r)))"
      using insert_suppressed [of "new_member now k u st" r True] p by (simp add: pre_def new_member_def)
  qed
  have cnt: "safe (\<lambda>s. on_room pre s \<and> k = c_counter s) (smodify (\<lambda>s. s\<lparr>c_counter := k + 1\<rparr>)) (\<lambda>_. on_room pre)" for k
    by (rule safe_modify) (simp add: on_room_def)
  have "safe (\<lambda>s. on_room pre s \<and> k = c_counter s)
      (sseqs [smodify (\<lambda>s. s\<lparr>c_counter := k + 1\<rparr>),
        modify_room (insert_member (new_member now k u st)),
        modify_room (set_suppress True u),
        modify_room (cached_add ((new_member now k u st)\<lparr>m_suppress := True\<rparr>)),
        sbind (read_room r_owner) (\<lambda>ow. swhen (ow = None) (set_owner (Some u))),
        fire_join u, modify_room (set_suppress False u)]) (\<lambda>_. on_room room_inv)" for k
    using safe_seq [OF cnt safe_seq [OF ins rest]] by (simp add: modify_room_twice)
  then show ?thesis
    unfolding admit_new_def by (rule safe_bind_read)
qed

lemma preserves_admit:
  assumes "on_room room_inv s" and "find_member u (c_room s) = None" and "now \<notin> sinces (c_room s)"
  shows "on_room room_inv (snd (admit_new now u st s))"
  using safeD [OF admit_new_safe [of u now st], of s] assms by (auto simp: on_room_def)

lemma room_inv_guarded:
  assumes "room_inv r" and "\<And>m. m_since (f m) = m_since m" "\<And>m. m_user (f m) = m_user m"
  shows "room_inv (guarded u f r)"
  using assms room_core_guarded [of r f u] owner_ok_frame [of "guarded u f r" r]
  by (simp add: room_inv_def is_game_active_def is_game_loaded_def)

lemma add_user_inv:
  assumes inv: "on_room room_inv s" and now: "now \<notin> sinces (c_room s)"
  shows "on_room room_inv (snd (add_user now u how s))"
proof (cases "join_status u how (c_room s)")
  case (Inl k)
  then show ?thesis using inv by (simp add: add_user_def read_room_def act_simps)
next
  case (Inr st)
  show ?thesis
  proof (cases "find_member u (c_room s)")
    case None
    then show ?thesis
      using preserves_admit [OF inv None now] Inr by (simp add: add_user_def read_room_def act_simps)
  next
    case (Some m)
    then show ?thesis
      using inv Inr room_inv_guarded [of "c_room s" "\<lambda>m. m\<lparr>m_status := st\<rparr>" u]
      by (simp add: add_user_def read_room_def modify_room_def act_simps on_room_def)
  qed
qed

lemma set_player_limit_inv: "preserves (on_room room_inv) (set_player_limit limit)"
  unfolding set_player_limit_def
  by (auto intro!: pres_intros simp: Let_def room_inv_guarded)

lemma set_owner_inv: "preserves (on_room room_inv) (set_owner (Some u))"
proof (rule preservesI)
  fix s :: "'g ctx"
  assume inv: "on_room room_inv s"
  show "on_room room_inv (snd (set_owner (Some u) s))"
  proof (cases "find_member u (c_room s)")
    case None
    then show ?thesis using inv by (simp add: set_owner_def read_room_def act_simps)
  next
    case (Some m)
    have "room_inv (r\<lparr>r_owner := Some u\<rparr>)" if "room_inv r \<and> find_member u r \<noteq> None" for r :: "'g room"
      using that admitted_owner [of u r] by (simp add: admitted_def room_inv_def)
    then have "safe (on_room (\<lambda>r :: 'g room. room_inv r \<and> find_member u r \<noteq> None)) (set_owner (Some u)) (\<lambda>_. on_room room_inv)"
      by (intro safe_set_owner) (simp_all add: room_inv_def)
    from safeD [OF this, of s] show ?thesis using inv Some by (auto simp: on_room_def)
  qed
qed

lemma room_inv_change:
  "room_inv r \<Longrightarrow> room_core (f r) \<and> room_frame (f r) = room_frame r \<Longrightarrow>
     (is_game_active (f r) \<longrightarrow> is_game_active r) \<Longrightarrow> room_inv (f r)"
  using owner_ok_frame [of "f r" r] by (auto simp: room_inv_def room_frame_def)

lemma promote_started [simp]: "r_started (promote us r) = r_started r"
  by (induction us arbitrary: r) simp_all

lemma flush_started [simp]: "r_started (flush_waitlist r) = r_started r"
  by (simp add: flush_waitlist_def)

lemma fold_reset_started [simp]: "r_started (fold reset_player us r) = r_started r"
  by (induction us arbitrary: r) (simp_all add: reset_player_def split: option.split)

lemma reset_started [simp]: "r_started (reset_players r) = r_started r"
  by (simp add: reset_players_def)

lemma disqualify_started [simp]: "r_started (disqualify_player u r) = r_started r"
  by (simp add: disqualify_player_def split: option.split)

lemma room_inv_flush: "room_inv r \<Longrightarrow> room_inv (flush_waitlist r)"
  by (rule room_inv_change) (simp_all add: room_core_flush room_inv_def is_game_active_def)

lemma room_inv_reset: "room_inv r \<Longrightarrow> room_inv (reset_players r)"
  by (rule room_inv_change) (simp_all add: room_core_reset room_inv_def is_game_active_def)

lemma room_inv_disqualify: "room_inv r \<Longrightarrow> room_inv (disqualify_player u r)"
  by (rule room_inv_change) (simp_all add: room_core_disqualify room_inv_def is_game_active_def)

lemma room_inv_end_game: "room_inv r \<Longrightarrow> room_inv (end_game r)"
  using room_inv_change [of r end_game] room_core_end_game [of r]
  by (simp add: room_inv_def is_game_active_def) (simp add: end_game_def)

lemma room_inv_set_game: "room_inv r \<Longrightarrow> room_inv (r\<lparr>r_game := Some g\<rparr>)"
  by (simp add: room_inv_def room_core_def owner_ok_def is_game_active_def is_game_loaded_def
    cong: option.case_cong)

lemma reset_loaded: "room_inv r \<Longrightarrow> is_game_loaded (reset_players r) = is_game_loaded r"
  using room_core_reset [of r] by (simp add: room_inv_def room_frame_def)

subsection \<open>Every operation keeps the invariant\<close>

context game_contract
begin

lemma on_game_inv:
  fixes m :: "('g, 'a) room_op"
  assumes "\<And>F. preserves (framed F) m"
  shows "preserves (on_room room_inv) (on_game m)"
proof (rule preservesI)
  fix s :: "'g ctx"
  assume inv: "on_room room_inv s"
  show "on_room room_inv (snd (on_game m s))"
  proof (cases "r_game (c_room s)")
    case None
    then show ?thesis using inv by (simp add: on_game_def read_room_def act_simps)
  next
    case (Some g)
    then have "on_room (\<lambda>r. room_inv r \<and> is_game_loaded r) s"
      using inv by (simp add: on_room_def is_game_loaded_def)
    from preservesD [OF callback_room_inv [OF assms] this] show ?thesis
      using Some by (simp add: on_game_def read_room_def act_simps on_room_def)
  qed
qed

lemma remove_user_inv: "preserves (on_room room_inv) (remove_user K u)"
  by (rule safe_preserves) (rule safe_weaken [OF remove_user_safe], auto simp: on_room_def left_inv_def)

lemma set_spectator_limit_inv: "preserves (on_room room_inv) (set_spectator_limit K limit)"
  unfolding set_spectator_limit_def
  by (auto intro!: pres_intros remove_user_inv simp: Let_def)

lemma update_game_inv: "preserves (on_room room_inv) (update_game K)"
  unfolding update_game_def by (intro pres_intros on_game_inv update_keeps)

lemma process_message_inv: "preserves (on_room room_inv) (process_message K u msg)"
  unfolding process_message_def
  by (auto intro!: pres_intros on_game_inv player_message_keeps spectator_message_keeps simp: Let_def)

lemma game_option_inv: "preserves (on_room room_inv) (game_option K x y)"
  unfolding game_option_def
  by (auto intro!: pres_intros on_game_inv option_keeps)

lemma load_game_inv: "preserves (on_room room_inv) (load_game K g)"
proof -
  have "preserves (on_room room_inv) (on_game (k_initialize K))"
    by (intro on_game_inv initialize_keeps)
  then show ?thesis
    unfolding load_game_def
    by (auto intro!: preserves_seq preserves_return preserves_modify_room simp: room_inv_end_game room_inv_set_game)
qed

lemma start_game_inv: "preserves (on_room room_inv) (start_game K)"
proof (rule preservesI)
  fix s :: "'g ctx"
  assume inv: "on_room room_inv s"
  let ?loaded = "\<lambda>r :: 'g room. room_inv r \<and> is_game_loaded r"
  have start: "preserves (on_room room_inv) (on_game (k_start K))"
    by (intro on_game_inv start_keeps)
  have inc: "preserves (on_room ?loaded) (sbind (read_room r_players) (\<lambda>ps. sfor ps (\<lambda>e.
         modify_user (snd e) (\<lambda>u. u\<lparr>u_stats := increment_wins (u_stats u)\<rparr>))))"
    by (intro pres_intros)
  have set: "room_inv (r\<lparr>r_started := True\<rparr>)" if "?loaded r" for r :: "'g room"
    using that by (simp add: room_inv_def room_core_def owner_ok_def is_game_active_def is_game_loaded_def
      cong: option.case_cong)
  show "on_room room_inv (snd (start_game K s))"
  proof (cases "is_game_loaded (c_room s)")
    case False
    then show ?thesis using inv by (simp add: start_game_def read_room_def act_simps)
  next
    case True
    let ?s1 = "s\<lparr>c_room := reset_players (c_room s)\<rparr>"
    have s1: "on_room ?loaded ?s1"
      using inv True by (simp add: on_room_def room_inv_reset reset_loaded)
    have loop: "sfor ps (\<lambda>e. modify_user (snd e) (\<lambda>u. u\<lparr>u_stats := increment_wins (u_stats u)\<rparr>)) s' =
        (Inr (), fold (\<lambda>e s. s\<lparr>c_users := (c_users s)(snd e := (c_users s (snd e))\<lparr>u_stats := increment_wins (u_stats (c_users s (snd e)))\<rparr>)\<rparr>) ps s')"
      for ps :: "(int \<times> session_id) list" and s' :: "'g ctx"
      unfolding modify_user_def by (rule sfor_modify)
    obtain s2 where s2: "sbind (read_room r_players) (\<lambda>ps. sfor ps (\<lambda>e.
         modify_user (snd e) (\<lambda>u. u\<lparr>u_stats := increment_wins (u_stats u)\<rparr>))) ?s1 = (Inr (), s2)"
      by (simp add: read_room_def act_simps loop)
    have "on_room ?loaded s2" using preservesD' [OF inc s1 s2] .
    then have "on_room room_inv (s2\<lparr>c_room := (c_room s2)\<lparr>r_started := True\<rparr>\<rparr>)"
      using set by (simp add: on_room_def)
    then have "on_room room_inv (snd (sseq (on_game (k_start K)) (sreturn ()) (s2\<lparr>c_room := (c_room s2)\<lparr>r_started := True\<rparr>\<rparr>)))"
      by (rule preservesD [OF preserves_seq [OF start preserves_return]])
    moreover have "start_game K s = sseq (on_game (k_start K)) (sreturn ()) (s2\<lparr>c_room := (c_room s2)\<lparr>r_started := True\<rparr>\<rparr>)"
      using True s2 by (simp add: start_game_def read_room_def modify_room_def act_simps)
    ultimately show ?thesis by simp
  qed
qed

end

end
