(* ===== verification/Room_Runs.thy ===== *)
theory Room_Runs
  imports Room_Properties
begin

section \<open>Runs of a room, capacity, waitlist, removal\<close>

subsection \<open>Sequences of operations\<close>

datatype 'g room_event =
    Add int session_id join
  | Remove_user session_id
  | Set_owner session_id
  | Set_player_limit "64 word"
  | Set_spectator_limit "64 word"
  | Message session_id string
  | Load_game 'g
  | Start_game
  | End_game
  | Game_option string string
  | Update_game
  | Disqualify session_id
  | Reset_players
  | Flush_waitlist

fun room_step :: "'g controller \<Rightarrow> 'g room_event \<Rightarrow> 'g ctx \<Rightarrow> 'g ctx" where
  "room_step K (Add now u how) s = snd (add_user now u how s)"
| "room_step K (Remove_user u) s = snd (remove_user K u s)"
| "room_step K (Set_owner u) s = snd (set_owner (Some u) s)"
| "room_step K (Set_player_limit n) s = snd (set_player_limit n s)"
| "room_step K (Set_spectator_limit n) s = snd (set_spectator_limit K n s)"
| "room_step K (Message u m) s = snd (process_message K u m s)"
| "room_step K (Load_game g) s = snd (load_game K g s)"
| "room_step K Start_game s = snd (start_game K s)"
| "room_step K End_game s = snd (modify_room end_game s)"
| "room_step K (Game_option x y) s = snd (game_option K x y s)"
| "room_step K Update_game s = snd (update_game K s)"
| "room_step K (Disqualify u) s = snd (modify_room (disqualify_player u) s)"
| "room_step K Reset_players s = snd (modify_room reset_players s)"
| "room_step K Flush_waitlist s = snd (modify_room flush_waitlist s)"

fun room_run :: "'g controller \<Rightarrow> 'g room_event list \<Rightarrow> 'g ctx \<Rightarrow> 'g ctx" where
  "room_run K [] s = s"
| "room_run K (e # es) s = room_run K es (room_step K e s)"

text \<open>No user joins at the clock reading at which a present member joined.\<close>

fun clock_fresh :: "'g room_event \<Rightarrow> 'g ctx \<Rightarrow> bool" where
  "clock_fresh (Add now u how) s \<longleftrightarrow> now \<notin> sinces (c_room s)"
| "clock_fresh _ s \<longleftrightarrow> True"

fun clocks_fresh :: "'g controller \<Rightarrow> 'g room_event list \<Rightarrow> 'g ctx \<Rightarrow> bool" where
  "clocks_fresh K [] s \<longleftrightarrow> True"
| "clocks_fresh K (e # es) s \<longleftrightarrow> clock_fresh e s \<and> clocks_fresh K es (room_step K e s)"

context game_contract
begin

lemma room_step_inv: "on_room room_inv s \<Longrightarrow> clock_fresh e s \<Longrightarrow> on_room room_inv (room_step K e s)"
proof (cases e)
  case (Add now u how)
  then show "on_room room_inv s \<Longrightarrow> clock_fresh e s \<Longrightarrow> ?thesis" by (simp add: add_user_inv)
qed (auto intro: preservesD [OF remove_user_inv] preservesD [OF set_owner_inv]
      preservesD [OF set_player_limit_inv] preservesD [OF set_spectator_limit_inv]
      preservesD [OF process_message_inv] preservesD [OF load_game_inv] preservesD [OF start_game_inv]
      preservesD [OF game_option_inv] preservesD [OF update_game_inv]
      preservesD [OF preserves_modify_room] room_inv_end_game room_inv_disqualify room_inv_reset room_inv_flush)

lemma room_run_inv: "on_room room_inv s \<Longrightarrow> clocks_fresh K es s \<Longrightarrow> on_room room_inv (room_run K es s)"
  by (induction es arbitrary: s) (auto simp: room_step_inv)

end

lemma room_inv_new: "room_inv (new_room now False sig i)"
  by (simp add: room_inv_def room_core_new owner_ok_def is_game_active_def) (simp add: new_room_def)

subsection \<open>What an admission leaves alone\<close>

text \<open>The last steps of an admission (owner, signal, suppression flag) keep what does not depend
  on them.\<close>

definition admission_stable :: "('g room \<Rightarrow> bool) \<Rightarrow> bool" where
  "admission_stable P \<longleftrightarrow> signal_free P \<and> (\<forall>r ow. P r \<longrightarrow> P (r\<lparr>r_owner := ow\<rparr>)) \<and> (\<forall>r b u. P r \<longrightarrow> P (set_suppress b u r))"

lemma admit_new_leaves:
  assumes "admission_stable P"
    and "P (cached_add ((new_member now (c_counter s) u st)\<lparr>m_suppress := True\<rparr>)
          (set_suppress True u (insert_member (new_member now (c_counter s) u st) (c_room s))))"
  shows "P (c_room (snd (admit_new now u st s)))"
proof -
  have sf: "signal_free P" and ow: "P r \<Longrightarrow> P (r\<lparr>r_owner := x\<rparr>)" and sup: "P r \<Longrightarrow> P (set_suppress b v r)" for r x b v
    using assms(1) by (auto simp: admission_stable_def)
  have owner: "preserves (on_room P) (set_owner (Some u))"
    unfolding set_owner_def using sf ow by (auto intro!: pres_intros)
  let ?tail = "sseqs [sbind (read_room r_owner) (\<lambda>ow. swhen (ow = None) (set_owner (Some u))),
       fire_join u, modify_room (set_suppress False u)]"
  have tail: "preserves (on_room P) ?tail"
    using sf sup owner by (auto intro!: pres_intros)
  let ?s = "s\<lparr>c_counter := c_counter s + 1,
      c_room := cached_add ((new_member now (c_counter s) u st)\<lparr>m_suppress := True\<rparr>)
          (set_suppress True u (insert_member (new_member now (c_counter s) u st) (c_room s)))\<rparr>"
  have "admit_new now u st s = ?tail ?s"
    by (simp add: admit_new_def read_room_def modify_room_def act_simps)
  moreover have "on_room P ?s" using assms(2) by (simp add: on_room_def)
  ultimately show ?thesis using preservesD [OF tail, of ?s] by (simp add: on_room_def)
qed

lemma suppress_caches [simp]:
  "r_players (set_suppress b u r) = r_players r" "r_spectators (set_suppress b u r) = r_spectators r"
  "r_users (set_suppress b u r) = r_users r"
  "r_disqualified (set_suppress b u r) = r_disqualified r" "r_player_limit (set_suppress b u r) = r_player_limit r"
  "r_spectator_limit (set_suppress b u r) = r_spectator_limit r" "r_started (set_suppress b u r) = r_started r"
  by (simp_all add: set_suppress_def)

lemma suppress_find: "find_member v (set_suppress b u r) \<noteq> None \<longleftrightarrow> find_member v r \<noteq> None"
  by (auto simp: set_suppress_def find_member_def om_map_of_modify)

lemma core_find_user:
  assumes "room_core r"
  shows "find_user u r = (if find_member u r = None then None else Some u)"
proof (cases "find_member u r")
  case None
  have "e \<in> set (r_users r) \<Longrightarrow> snd e \<noteq> u" for e
    using core_users_members [OF assms, of e] None by auto
  then have "find_if (r_users r) (\<lambda>e. snd e = u) = None" by (simp only: find_if_None) blast
  then show ?thesis using None by (simp add: find_user_def)
next
  case (Some m)
  then have "(m_since m, u) \<in> set (r_users r)"
    using assms find_member_core [OF assms] by (auto simp: room_core_def cache_ok_def entries_iff)
  then have "find_if (r_users r) (\<lambda>e. snd e = u) \<noteq> None" unfolding find_if_None by force
  then obtain e where "find_if (r_users r) (\<lambda>e. snd e = u) = Some e" by blast
  then show ?thesis using find_if_Some Some by (fastforce simp: find_user_def)
qed

lemma core_not_found:
  assumes "room_core r" and "find_member u r = None"
  shows "find_player u r = None" and "find_spectator u r = None"
proof -
  have abs: "find_if c (\<lambda>e. snd e = u) = None" if "cache_ok P (r_members r) c" for P c
  proof -
    have "e \<in> set c \<Longrightarrow> snd e \<noteq> u" for e
      using cache_member [OF assms(1) _ that, of e] assms(2) by (metis option.distinct(1))
    then show ?thesis by (simp only: find_if_None) blast
  qed
  show "find_player u r = None"
    using assms(1) abs by (auto simp: find_player_def room_core_def)
  show "find_spectator u r = None"
    using assms(1) abs by (auto simp: find_spectator_def spectators_def room_core_def)
qed

text \<open>The counts after a new member of status \<open>st\<close> is in the caches.\<close>

lemma admitted_counts:
  fixes r :: "'g room" and st :: member_status and k :: "64 word"
  assumes core: "room_core r" and "find_member u r = None" and "now \<notin> sinces r"
  defines "r' \<equiv> cached_add ((new_member now k u st)\<lparr>m_suppress := True\<rparr>)
    (set_suppress True u (insert_member (new_member now k u st) r))"
  shows "player_count r' = player_count r + (if st = PLAYER then 1 else 0)"
    and "spectator_count r' = spectator_count r + (if st = PLAYER then 0 else 1)"
    and "r_player_limit r' = r_player_limit r" and "r_spectator_limit r' = r_spectator_limit r"
proof -
  have fresh: "now \<notin> fst ` set c" if "cache_ok P (r_members r) c" for P c
  proof
    assume "now \<in> fst ` set c"
    then obtain e where "e \<in> set c" "fst e = now" by auto
    have "e \<in> entries P (r_members r)" using that \<open>e \<in> set c\<close> by (simp add: cache_ok_def)
    then obtain m where "(snd e, m) \<in> set (r_members r)" "m_since m = now"
      using entries_member \<open>fst e = now\<close> by blast
    then have "now \<in> sinces r"
      unfolding sinces_def by (intro image_eqI [of _ _ "(snd e, m)"]) simp_all
    with assms(3) show False ..
  qed
  have p: "now \<notin> fst ` set (r_players r)" and q: "now \<notin> fst ` set (r_spectators r)"
    using core fresh by (auto simp: room_core_def)
  show "player_count r' = player_count r + (if st = PLAYER then 1 else 0)"
    using om_length_insert_fresh [OF p, of u]
    by (simp add: r'_def player_count_def cached_add_def insert_member_def new_member_def member_kinds)
  show "spectator_count r' = spectator_count r + (if st = PLAYER then 0 else 1)"
    using om_length_insert_fresh [OF q, of u]
    by (cases st) (simp_all add: r'_def spectator_count_def cached_add_def insert_member_def new_member_def member_kinds)
  show "r_player_limit r' = r_player_limit r" and "r_spectator_limit r' = r_spectator_limit r"
    by (simp_all add: r'_def cached_add_def insert_member_def)
qed

lemma stable_counts:
  "admission_stable (\<lambda>r. player_count r = a \<and> spectator_count r = b \<and> r_player_limit r = c \<and> r_spectator_limit r = d)"
  by (simp add: admission_stable_def signal_free_def player_count_def spectator_count_def)

lemma word_less_add_1: "x < n \<Longrightarrow> x + 1 \<le> (n :: 'w::len word)"
  by (rule inc_le)

subsection \<open>The caches as a function of the members\<close>

text \<open>The reference definition of a cached set: the members that satisfy \<open>P\<close>, by join time.\<close>

definition members_by_time :: "(member \<Rightarrow> bool) \<Rightarrow> 'g room \<Rightarrow> (int \<times> session_id) list" where
  "members_by_time P r =
     sort_key fst (map (\<lambda>e. (m_since (snd e), fst e)) (filter (\<lambda>e. P (snd e)) (r_members r)))"

lemma cache_is_members_by_time:
  assumes "members_ok (r_members r)" and "cache_ok P (r_members r) c"
  shows "c = members_by_time P r"
proof (rule om_ok_eqI)
  show "om_ok c" using assms(2) by (simp add: cache_ok_def)
  have "distinct (map (\<lambda>e. m_since (snd e)) (filter (\<lambda>e. P (snd e)) (r_members r)))"
    using assms(1) om_ok_distinct [of "r_members r"] distinct_map [of fst "r_members r"]
    unfolding members_ok_def distinct_map
    by (auto simp: case_prod_unfold intro: inj_on_subset)
  then have "distinct (map fst (members_by_time P r))"
    by (simp add: members_by_time_def distinct_map distinct_sort comp_def inj_on_def) blast
  then show "om_ok (members_by_time P r)"
    unfolding om_ok_def strict_sorted_iff by (simp add: members_by_time_def)
  show "set c = set (members_by_time P r)"
    using assms(2) by (auto simp: cache_ok_def entries_def members_by_time_def image_iff)
qed

lemma core_caches:
  assumes "room_core r"
  shows "r_users r = members_by_time (\<lambda>_. True) r" "r_users_as_spectators r = members_by_time (\<lambda>_. True) r"
    "r_players r = members_by_time playing r" "r_spectators r = members_by_time spectating r"
  using assms by (simp_all add: room_core_def cache_is_members_by_time)

lemma filter_members_by_time:
  assumes "room_core r" and "\<And>u m. find_member u r = Some m \<Longrightarrow> P m \<Longrightarrow> Q u \<longleftrightarrow> P' m"
  shows "filter Q (map snd (members_by_time P r)) = map snd (members_by_time (\<lambda>m. P m \<and> P' m) r)"
proof -
  have "filter (\<lambda>e. P (snd e) \<and> Q (fst e)) (r_members r) = filter (\<lambda>e. P (snd e) \<and> P' (snd e)) (r_members r)"
    using assms find_member_core [OF assms(1)] by (intro filter_cong) auto
  then show ?thesis
    by (simp add: members_by_time_def filter_map filter_sort comp_def)
qed

text \<open>Who hears a broadcast, as a function of the members.\<close>

lemma core_audience: "room_core r \<Longrightarrow> audience r = map snd (members_by_time (\<lambda>m. \<not> m_suppress m) r)"
  using filter_members_by_time [of r "\<lambda>_. True" "hears r" "\<lambda>m. \<not> m_suppress m"]
  by (simp add: audience_def core_caches hears_def)

subsection \<open>The waitlist\<close>

lemma guarded_find: "find_member v (guarded u f r) = (if v = u then map_option f (find_member u r) else find_member v r)"
  by (simp add: find_member_def guarded_members om_map_of_modify)

lemma count_members_split:
  "count_members spectating ms = count_members is_disqualified ms + count_members (\<lambda>m. is_spectator m \<and> \<not> is_disqualified m) ms"
  by (induction ms) (auto simp: count_members_def)

lemma om_length_entries:
  fixes r :: "'g room"
  assumes "members_ok (r_members r)" and "cache_ok P (r_members r) c"
  shows "length c = count_members P (r_members r)"
  by (subst cache_is_members_by_time [OF assms]) (simp add: members_by_time_def count_members_def)

text \<open>The spectator count is the number of spectators that are not disqualified players.\<close>

lemma spectator_count_members:
  assumes "room_core r"
  shows "spectator_count r = of_nat (count_members (\<lambda>m. is_spectator m \<and> \<not> is_disqualified m) (r_members r))"
  using assms om_length_entries [of r spectating "r_spectators r"]
  by (simp add: spectator_count_def room_core_def count_members_split)

lemma player_count_members:
  assumes "room_core r"
  shows "player_count r = of_nat (count_members (\<lambda>m. is_player m \<or> is_disqualified m) (r_members r))"
proof -
  have "count_members (\<lambda>m. is_player m \<or> is_disqualified m) ms =
      count_members playing ms + count_members is_disqualified ms" for ms
    by (induction ms) (auto simp: count_members_def)
  then show ?thesis
    using assms om_length_entries [of r playing "r_players r"]
    by (simp add: player_count_def room_core_def)
qed

text \<open>Promoting stops when the room is full or the list is used up; it changes a prefix of the list, and
  one promotion takes at most one of the free places.\<close>

lemma waitlisted_by_time:
  "room_core r \<Longrightarrow> \<not> is_game_active r \<Longrightarrow> waitlisted r = map snd (members_by_time is_waitlisted r)"
  using filter_members_by_time [of r "\<lambda>_. True" "\<lambda>u. case find_member u r of None \<Rightarrow> False | Some m \<Rightarrow> is_waitlisted m" is_waitlisted]
  by (simp add: waitlisted_def spectators_def core_caches)

lemma promotion_count:
  fixes r :: "'g room" and u :: session_id
  assumes core: "room_core r"
  defines "r' \<equiv> guarded u (\<lambda>m. m\<lparr>m_status := PLAYER\<rparr>) r"
  shows "player_count r' = player_count r \<or> player_count r' = player_count r + 1"
proof (cases "find_member u r")
  case None
  then show ?thesis by (simp add: r'_def guarded_def)
next
  case (Some m)
  let ?P = "\<lambda>m. is_player m \<or> is_disqualified m"
  have core': "room_core r'" unfolding r'_def by (rule room_core_guarded [OF core]) simp_all
  have "om_ok (r_members r)" using core by (simp add: room_core_def members_ok_def)
  from count_members_modify [OF this, of u m ?P "\<lambda>m. m\<lparr>m_status := PLAYER\<rparr>"] Some
  have "count_members ?P (r_members r') = count_members ?P (r_members r) + (if ?P m then 0 else 1)"
    by (simp add: r'_def guarded_members find_member_def member_kinds split: if_splits)
  then show ?thesis unfolding player_count_members [OF core] player_count_members [OF core'] by (simp split: if_splits)
qed

lemma promoted_twice:
  "(\<lambda>x. if b then x\<lparr>m_status := PLAYER, m_status := PLAYER\<rparr> else x\<lparr>m_status := PLAYER\<rparr>) = (\<lambda>x :: member. x\<lparr>m_status := PLAYER\<rparr>)"
  by (simp add: fun_eq_iff)

lemma promote_prefix:
  "room_core r \<Longrightarrow> \<exists>k \<le> length us. (k < length us \<longrightarrow> is_full (promote us r)) \<and>
     (\<forall>v. find_member v (promote us r) =
       map_option (\<lambda>m. if v \<in> set (take k us) then m\<lparr>m_status := PLAYER\<rparr> else m) (find_member v r)) \<and>
     player_count (promote us r) \<le> max (player_count r) (r_player_limit r)"
proof (induction us arbitrary: r)
  case Nil
  then show ?case by (simp add: option.map_ident)
next
  case (Cons u us)
  show ?case
  proof (cases "player_count r < r_player_limit r")
    case False
    then show ?thesis by (intro exI [of _ 0]) (simp add: is_full_def option.map_ident)
  next
    case True
    let ?r = "guarded u (\<lambda>m. m\<lparr>m_status := PLAYER\<rparr>) r"
    have core: "room_core ?r" by (rule room_core_guarded [OF Cons.prems]) simp_all
    have "player_count ?r \<le> r_player_limit r"
      using promotion_count [OF Cons.prems, of u] True word_less_add_1 [OF True] by auto
    moreover obtain k where k: "k \<le> length us" "k < length us \<longrightarrow> is_full (promote us ?r)"
      "\<forall>v. find_member v (promote us ?r) =
        map_option (\<lambda>m. if v \<in> set (take k us) then m\<lparr>m_status := PLAYER\<rparr> else m) (find_member v ?r)"
      "player_count (promote us ?r) \<le> max (player_count ?r) (r_player_limit r)"
      using Cons.IH [OF core] by auto
    ultimately show ?thesis
      using True by (intro exI [of _ "Suc k"]) (auto simp: guarded_find option.map_comp comp_def promoted_twice max_def split: if_splits)
  qed
qed

subsection \<open>Properties\<close>

text \<open>C14. Capacity. In a room in order whose limits are respected, when a user who is not a member joins at
  a clock reading at which no member joined, by whatever method, the number of
  players stays within the player limit and the number of spectators within the spectator limit,
  whether the join succeeds or throws. The join fails exactly in these cases: as a player, when the
  room is full of players or a game runs; as a spectator, when it is full of spectators, and only then: that a
  game runs does not stop it, although the comment of \<open>Join::AS_SPECTATOR\<close> says so; by the
  default method, when it is full of both.\<close>

theorem add_user_capacity:
  fixes s :: "'g ctx"
  assumes "room_inv (c_room s)" and "find_member u (c_room s) = None" and "now \<notin> sinces (c_room s)"
    and "player_count (c_room s) \<le> r_player_limit (c_room s)"
    and "spectator_count (c_room s) \<le> r_spectator_limit (c_room s)"
  shows "case add_user now u how s of (res, s') \<Rightarrow>
    player_count (c_room s') \<le> r_player_limit (c_room s') \<and>
    spectator_count (c_room s') \<le> r_spectator_limit (c_room s') \<and>
    (res = Inr () \<longleftrightarrow> (case how of
       AS_PLAYER \<Rightarrow> player_count (c_room s) < r_player_limit (c_room s) \<and> \<not> is_game_active (c_room s)
     | AS_SPECTATOR \<Rightarrow> spectator_count (c_room s) < r_spectator_limit (c_room s)
     | AS_PLAYER_WAITING \<Rightarrow> player_count (c_room s) < r_player_limit (c_room s) \<or>
                            spectator_count (c_room s) < r_spectator_limit (c_room s)))"
proof -
  let ?r = "c_room s"
  have core: "room_core ?r" using assms(1) by (simp add: room_inv_def)
  note nf = core_not_found [OF core assms(2)]
  show ?thesis
  proof (cases "join_status u how ?r")
    case (Inl k)
    then have "add_user now u how s = (Inl (Chat_exn (chat_exception_of k)), s)"
      by (simp add: add_user_def read_room_def act_simps)
    then show ?thesis
      using Inl assms(4,5) nf by (auto simp: join_status_def Let_def not_le split: join.splits if_splits)
  next
    case (Inr st)
    have add: "add_user now u how s = admit_new now u st s"
      using Inr assms(2) by (simp add: add_user_def read_room_def act_simps)
    obtain s' where s': "admit_new now u st s = (Inr (), s')"
      using safeD [OF admit_new_safe [of u now st], of s] assms by (auto simp: on_room_def)
    note counts = admitted_counts [OF core assms(2,3), of "c_counter s" st]
    have "player_count (c_room s') = player_count ?r + (if st = PLAYER then 1 else 0) \<and>
        spectator_count (c_room s') = spectator_count ?r + (if st = PLAYER then 0 else 1) \<and>
        r_player_limit (c_room s') = r_player_limit ?r \<and> r_spectator_limit (c_room s') = r_spectator_limit ?r"
      using admit_new_leaves [OF stable_counts, of now s u st] counts s' by simp
    then show ?thesis
      using Inr assms(4,5) nf unfolding add s'
      by (auto simp: join_status_def Let_def not_le word_less_add_1 split: join.splits if_splits)
  qed
qed


definition demo_users :: "session_id \<Rightarrow> user" where
  "demo_users i = \<lparr>u_id = i, u_name = dec (unat (uuid i)), u_nickname = None, u_stats = new_stats\<rparr>"

definition demo_ctx :: "nat ctx" where
  "demo_ctx = new_ctx demo_users (new_room 0 False (\<lambda>_. 0) ''ABCDE'')"

lemma demo_ctx_room: "c_room demo_ctx = new_room 0 False (\<lambda>_. 0) ''ABCDE''"
  by (simp add: demo_ctx_def new_ctx_def)

lemmas new_room_simps = new_room_def find_member_def sinces_def player_count_def spectator_count_def

text \<open>A room with one player.\<close>

definition demo_one :: "nat ctx" where
  "demo_one = snd (add_user 5 (SessionId 1) AS_PLAYER_WAITING demo_ctx)"

lemma demo_one_facts:
  "find_member (SessionId 2) (c_room demo_one) = None" "find_member (SessionId 1) (c_room demo_one) \<noteq> None"
  "5 \<in> sinces (c_room demo_one)" "6 \<notin> sinces (c_room demo_one)"
  "join_status (SessionId 2) AS_PLAYER_WAITING (c_room demo_one) = Inr PLAYER"
  "\<not> is_game_active (c_room demo_one)" "spectator_count (c_room demo_one) = 0"
  by code_simp+

lemma demo_inv: "room_inv (c_room demo_one)"
proof -
  have "on_room room_inv demo_ctx" by (simp add: on_room_def demo_ctx_room room_inv_new)
  then have "on_room room_inv demo_one"
    unfolding demo_one_def by (rule add_user_inv) (simp add: demo_ctx_room sinces_def new_room_def)
  then show ?thesis by (simp add: on_room_def)
qed

theorem add_user_capacity_witness:
  "fst (add_user 5 (SessionId 3) AS_PLAYER_WAITING demo_ctx) = Inr ()"
  using add_user_capacity [of demo_ctx "SessionId 3" 5 AS_PLAYER_WAITING]
  by (simp add: demo_ctx_room room_inv_new) (simp add: new_room_simps split: prod.splits)

text \<open>C16. Flushing the waitlist outside a game turns the longest-waiting members into players: with the
  waiting members sorted by the time they joined, it promotes the first \<open>k\<close> of them, for some \<open>k\<close>, and changes no
  member in any other way. It promotes enough: afterwards the room is full of players, or all that still wait
  are disqualified. It does not promote too many: the players do not exceed the player limit, unless they
  did before, and then they do not become more.\<close>

theorem flush_waitlist_promotes:
  assumes "room_inv r" and "\<not> is_game_active r" and "length (r_members r) < 2 ^ 64"
  shows "\<exists>k \<le> length (members_by_time is_waitlisted r).
    (\<forall>v. find_member v (flush_waitlist r) =
       map_option (\<lambda>m. if v \<in> set (take k (map snd (members_by_time is_waitlisted r))) then m\<lparr>m_status := PLAYER\<rparr> else m)
         (find_member v r)) \<and>
    (is_full (flush_waitlist r) \<or>
       (\<forall>u m. find_member u (flush_waitlist r) = Some m \<longrightarrow> is_waitlisted m \<longrightarrow> is_disqualified m)) \<and>
    player_count (flush_waitlist r) \<le> max (player_count r) (r_player_limit r)"
proof -
  have core: "room_core r" using assms(1) by (simp add: room_inv_def)
  let ?W = "map snd (members_by_time is_waitlisted r)"
  show ?thesis
  proof (cases "spectator_count r = 0")
    case True
    let ?P = "\<lambda>m. is_spectator m \<and> \<not> is_disqualified m"
    have "count_members ?P (r_members r) \<le> length (r_members r)"
      by (simp add: count_members_def)
    then have "count_members ?P (r_members r) < 2 ^ LENGTH(64)" using assms(3) by simp
    then have "count_members ?P (r_members r) = 0"
      using True spectator_count_members [OF core] of_nat_inverse [of "count_members ?P (r_members r)" "0 :: 64 word"]
      by simp
    then have "find_member u r = Some m \<longrightarrow> is_waitlisted m \<longrightarrow> is_disqualified m" for u m
      by (auto simp: count_members_def filter_empty_conv find_member_core [OF core] member_kinds)
    then show ?thesis
      using True by (auto simp: flush_waitlist_def option.map_ident intro!: exI [of _ 0])
  next
    case False
    then have fl: "flush_waitlist r = promote ?W r"
      using assms(2) by (simp add: flush_waitlist_def waitlisted_by_time [OF core])
    obtain k where k: "k \<le> length ?W" "k < length ?W \<longrightarrow> is_full (flush_waitlist r)"
      "\<forall>v. find_member v (flush_waitlist r) =
         map_option (\<lambda>m. if v \<in> set (take k ?W) then m\<lparr>m_status := PLAYER\<rparr> else m) (find_member v r)"
      "player_count (flush_waitlist r) \<le> max (player_count r) (r_player_limit r)"
      using promote_prefix [OF core, of ?W] unfolding fl by blast
    have "\<not> is_waitlisted m" if all: "k = length ?W" and now: "find_member u (flush_waitlist r) = Some m" for u m
    proof
      assume w: "is_waitlisted m"
      obtain n where n: "find_member u r = Some n" "m = (if u \<in> set (take k ?W) then n\<lparr>m_status := PLAYER\<rparr> else n)"
        using now k(3) by auto
      have out: "u \<notin> set ?W"
      proof
        assume "u \<in> set ?W"
        then have "m_status m = PLAYER" using n(2) all by simp
        with w show False by (simp add: is_waitlisted_def)
      qed
      then have "n = m" using n(2) all by simp
      have "(u, n) \<in> set (r_members r)" using n(1) find_member_core [OF core] by simp
      then have "u \<in> set ?W" using w \<open>n = m\<close> by (force simp: members_by_time_def)
      with out show False ..
    qed
    then have "is_full (flush_waitlist r) \<or>
       (\<forall>u m. find_member u (flush_waitlist r) = Some m \<longrightarrow> is_waitlisted m \<longrightarrow> is_disqualified m)"
      using k(1,2) by (metis le_neq_implies_less)
    then show ?thesis using k by (intro exI [of _ k]) simp
  qed
qed

text \<open>A room for two players, with one player and two who wait.\<close>

definition demo_waiting :: "nat ctx" where
  "demo_waiting = (let s = snd (set_player_limit 1 (snd (add_user 7 (SessionId 3) AS_PLAYER_WAITING
       (snd (add_user 6 (SessionId 2) AS_PLAYER_WAITING demo_one)))))
     in s\<lparr>c_room := (c_room s)\<lparr>r_player_limit := 2\<rparr>\<rparr>)"

lemma demo_waiting_facts:
  "\<not> is_game_active (c_room demo_waiting)" "length (r_members (c_room demo_waiting)) = 3"
  "members_by_time is_waitlisted (c_room demo_waiting) = [(5, SessionId 1), (6, SessionId 2)]"
  "player_count (c_room demo_waiting) = 1"
  "7 \<notin> sinces (c_room (snd (add_user 6 (SessionId 2) AS_PLAYER_WAITING demo_one)))"
  by code_simp+

lemma demo_waiting_inv: "room_inv (c_room demo_waiting)"
proof -
  have "on_room room_inv (snd (set_player_limit 1 (snd (add_user 7 (SessionId 3) AS_PLAYER_WAITING
       (snd (add_user 6 (SessionId 2) AS_PLAYER_WAITING demo_one))))))"
    by (rule preservesD [OF set_player_limit_inv], rule add_user_inv, rule add_user_inv)
      (simp_all add: on_room_def demo_inv demo_one_facts demo_waiting_facts)
  then show ?thesis
    by (simp add: demo_waiting_def on_room_def Let_def room_inv_def room_core_def owner_ok_def is_game_active_def is_game_loaded_def
      cong: option.case_cong)
qed

theorem flush_waitlist_promotes_witness:
  "\<exists>k \<le> length [(5 :: int, SessionId 1), (6, SessionId 2)]. (\<forall>v. find_member v (flush_waitlist (c_room demo_waiting)) =
       map_option (\<lambda>m. if v \<in> set (take k [SessionId 1, SessionId 2]) then m\<lparr>m_status := PLAYER\<rparr> else m)
         (find_member v (c_room demo_waiting))) \<and>
    player_count (flush_waitlist (c_room demo_waiting)) \<le> max 1 (r_player_limit (c_room demo_waiting))"
proof -
  have "length (r_members (c_room demo_waiting)) < 2 ^ 64" by (simp add: demo_waiting_facts)
  from flush_waitlist_promotes [OF demo_waiting_inv demo_waiting_facts(1) this] show ?thesis
    by (simp only: demo_waiting_facts list.map snd_conv) blast
qed

text \<open>Two users that join at the same clock reading. The second becomes a member, but none of
  the sets ordered by join time takes it: the room does not find it, and no broadcast reaches it.\<close>

theorem same_instant_join_lost:
  assumes "room_inv (c_room s)" and "find_member u (c_room s) = None" and "now \<in> sinces (c_room s)"
    and "join_status u how (c_room s) = Inr st"
  shows "case add_user now u how s of (res, s') \<Rightarrow>
    find_member u (c_room s') \<noteq> None \<and> find_user u (c_room s') = None \<and> u \<notin> set (audience (c_room s'))"
proof -
  let ?r = "c_room s"
  have core: "room_core ?r" using assms(1) by (simp add: room_inv_def)
  have nu: "u \<notin> snd ` set (r_users ?r)"
    using core_users_members [OF core] assms(2) by (metis imageE)
  have add: "add_user now u how s = admit_new now u st s"
    using assms by (simp add: add_user_def read_room_def act_simps)
  have t: "now \<in> fst ` set (r_users ?r)"
  proof -
    obtain v n where "(v, n) \<in> set (r_members ?r)" "m_since n = now"
      using assms(3) by (auto simp: sinces_def)
    then have "(now, v) \<in> set (r_users ?r)"
      using core by (auto simp: room_core_def cache_ok_def entries_iff)
    then show ?thesis by force
  qed
  have st: "admission_stable (\<lambda>r. r_users r = r_users ?r \<and> find_member u r \<noteq> None)"
    by (simp add: admission_stable_def signal_free_def suppress_find del: not_None_eq)
      (simp add: find_member_def)
  have "r_users (c_room (snd (admit_new now u st s))) = r_users ?r \<and>
      find_member u (c_room (snd (admit_new now u st s))) \<noteq> None"
  proof (rule admit_new_leaves [OF st], rule conjI, goal_cases)
    case 1
    then show ?case
      using core t by (simp add: cached_add_def insert_member_def new_member_def room_core_def cache_ok_def om_insert_present)
  next
    case 2
    then show ?case
      using insert_suppressed [of "new_member now (c_counter s) u st" ?r True] assms(2)
        insert_member_keys [of "(new_member now (c_counter s) u st)\<lparr>m_suppress := True\<rparr>" ?r]
      by (simp add: find_member_keys new_member_def)
  qed
  then show ?thesis
    using nu unfolding add
    by (auto simp: find_user_def audience_def find_if_None image_iff split: prod.split)
qed

theorem same_instant_join_lost_witness:
  "case add_user 5 (SessionId 2) AS_PLAYER_WAITING demo_one of (res, s') \<Rightarrow>
    find_member (SessionId 2) (c_room s') \<noteq> None \<and> find_user (SessionId 2) (c_room s') = None \<and>
    SessionId 2 \<notin> set (audience (c_room s'))"
  by (rule same_instant_join_lost [OF demo_inv demo_one_facts(1,3,5)])

text \<open>A member who plays cannot become a spectator of a room without spectators: outside a
  game every member counts as an own spectator to be subtracted, so the count wraps around to
  \<open>2^64 - 1\<close> and the join is refused with ROOM\_FULL, although nobody spectates.\<close>

theorem player_cannot_become_spectator:
  assumes "room_inv (c_room s)" and "\<not> is_game_active (c_room s)" and "find_member u (c_room s) \<noteq> None"
    and "spectator_count (c_room s) = 0"
  shows "add_user now u AS_SPECTATOR s = (Inl (Chat_exn (chat_exception_of ROOM_FULL)), s)"
proof -
  let ?r = "c_room s"
  have core: "room_core ?r" using assms(1) by (simp add: room_inv_def)
  obtain m where "find_member u ?r = Some m" using assms(3) by blast
  then have "(m_since m, u) \<in> set (spectators ?r)"
    using core assms(2) find_member_core [OF core]
    by (auto simp: spectators_def room_core_def cache_ok_def entries_iff)
  then have "find_if (spectators ?r) (\<lambda>e. snd e = u) \<noteq> None" unfolding find_if_None by force
  then have "find_spectator u ?r \<noteq> None" by (simp add: find_spectator_def)
  moreover have "\<not> (- 1 :: 64 word) < x" for x
    by (simp add: not_less)
  ultimately have "join_status u AS_SPECTATOR ?r = Inl ROOM_FULL"
    using assms(4) by (simp add: join_status_def Let_def)
  then show ?thesis by (simp add: add_user_def read_room_def act_simps)
qed

theorem player_cannot_become_spectator_witness:
  "add_user 7 (SessionId 1) AS_SPECTATOR demo_one = (Inl (Chat_exn (chat_exception_of ROOM_FULL)), demo_one)"
  by (rule player_cannot_become_spectator [OF demo_inv demo_one_facts(6,2,7)])

end
