(* ===== verification/Simon_Game.thy ===== *)
theory Simon_Game
  imports Room_Runs
begin

section \<open>The Simon game (module server\_daemon)\<close>

text \<open>
  \<open>EXAMPLE_Simon\<close>, the game controller the daemon registers: one player is Simon and says
  something, the others have to repeat it. \<open>boost::trim_copy\<close> is a parameter (\<open>trim\<close>). The state
  of the game object is the record \<open>simon\<close>; \<open>_incomplete\<close> is a \<open>std::set\<close> of ids. The controller
  is shown to keep the contract of Room\_Operations, so the room invariant holds along every run
  of a room with this game.
\<close>

record simon =
  sm_simon :: session_id
  sm_message :: string
  sm_incomplete :: "(session_id \<times> unit) list"

text \<open>\<open>std::make_unique<EXAMPLE_Simon>()\<close>: the id is an unspecified UUID until \<open>initialize\<close>.\<close>

definition new_simon :: "session_id \<Rightarrow> simon" where
  "new_simon junk = \<lparr>sm_simon = junk, sm_message = [], sm_incomplete = []\<rparr>"

type_synonym 'a simon_op = "(simon, 'a) room_op"

definition get_simon :: "simon simon_op" where
  "get_simon = sbind (read_room r_game) (\<lambda>g. case g of None \<Rightarrow> undefined_behaviour Null_deref | Some g \<Rightarrow> sreturn g)"

definition modify_simon :: "(simon \<Rightarrow> simon) \<Rightarrow> unit simon_op" where
  "modify_simon f = modify_room (\<lambda>r. r\<lparr>r_game := map_option f (r_game r)\<rparr>)"

text \<open>\<open>ptr->name()\<close> of a member pointer that may be null.\<close>

definition name_of_ptr :: "session_id option \<Rightarrow> ('g, string) room_op" where
  "name_of_ptr p = (case p of None \<Rightarrow> undefined_behaviour Null_deref | Some u \<Rightarrow> user_name u)"

definition simon_name :: "string simon_op" where
  "simon_name = sbind get_simon (\<lambda>g. sbind (read_room (find_player (sm_simon g))) name_of_ptr)"

definition check_win :: "unit simon_op" where
  "check_win = sbind (read_room active_player_count) (\<lambda>n.
     if n = 1 then
       sbind simon_name (\<lambda>name. sseqs [
         broadcast_message (''[SIMON]: Game over! Nobody could keep up with '' @ name),
         modify_room end_game])
     else if n = 2 then
       sbind get_simon (\<lambda>g. sbind (read_room r_players) (\<lambda>ps.
         case find_if ps (\<lambda>e. snd e \<noteq> sm_simon g) of
           None \<Rightarrow> undefined_behaviour Out_of_bounds
         | Some e \<Rightarrow> sbind (user_name (snd e)) (\<lambda>name. sseqs [
             broadcast_message (''[SIMON]: Game over! '' @ name @ '' wins!''),
             modify_user (snd e) (\<lambda>u. u\<lparr>u_stats := increment_wins (u_stats u)\<rparr>)])))
     else sreturn ())"

definition end_round :: "unit simon_op" where
  "end_round = sseq
     (sbind get_simon (\<lambda>g. sfor (sm_incomplete g) (\<lambda>fail.
        sbind (read_room (find_player (fst fail))) (\<lambda>player.
        sbind (name_of_ptr player) (\<lambda>name. sseqs [
          broadcast_message (''[SIMON]: '' @ name @ '' is disqualified! They couldn't keep up.''),
          modify_room (disqualify_player (fst fail))])))))
     check_win"

definition next_round :: "string \<Rightarrow> unit simon_op" where
  "next_round message = sseqs [
     modify_simon (\<lambda>g. g\<lparr>sm_message := message, sm_incomplete := []\<rparr>),
     sbind get_simon (\<lambda>g. sbind (read_room r_players) (\<lambda>ps.
       sfor ps (\<lambda>e. swhen (snd e \<noteq> sm_simon g)
         (modify_simon (\<lambda>g. g\<lparr>sm_incomplete := om_insert (snd e) () (sm_incomplete g)\<rparr>))))),
     sbind simon_name (\<lambda>name. sbind get_simon (\<lambda>g.
       broadcast_message (''[SIMON]: '' @ name @ '' says: '' @ sm_message g)))]"

definition simon_rules :: "string list" where
  "simon_rules = [
     ''----------------------------------------------------------------------------'',
     ''Welcome to The Game of Simon!'',
     ''The rules are simple:'',
     '''',
     ''One person is simon, and he or she says things.'',
     ''The rest of you need to repeat what was said by Simon without making a typo.'',
     '''',
     ''Good luck!'',
     ''----------------------------------------------------------------------------'']"

definition simon_initialize :: "unit simon_op" where
  "simon_initialize = sbind (read_room r_owner) (\<lambda>ow. case ow of
     None \<Rightarrow> undefined_behaviour Null_deref
   | Some u \<Rightarrow> sseq (modify_simon (\<lambda>g. g\<lparr>sm_simon := u\<rparr>)) (sfor simon_rules broadcast_message))"

definition simon_player_message :: "(string \<Rightarrow> string) \<Rightarrow> session_id \<Rightarrow> string \<Rightarrow> intercept simon_op" where
  "simon_player_message trim u message = sbind get_simon (\<lambda>g.
     if u = sm_simon g then
       sseq end_round (sbind (read_room is_game_active) (\<lambda>active.
         sseq (swhen active (next_round (trim message))) (sreturn INTERCEPTED)))
     else if u \<in> fst ` set (sm_incomplete g) then
       sseq (swhen (trim message \<noteq> sm_message g)
           (sbind (user_name u) (\<lambda>name. sseqs [
              broadcast_message (''[SIMON]: '' @ name @ '' is disqualified! They said: '' @ message),
              sbind (read_room (find_player u)) (\<lambda>p. case p of
                None \<Rightarrow> undefined_behaviour Null_deref
              | Some v \<Rightarrow> modify_room (disqualify_player v)),
              check_win])))
         (sseq (modify_simon (\<lambda>g. g\<lparr>sm_incomplete := om_erase u (sm_incomplete g)\<rparr>)) (sreturn INTERCEPTED))
     else sseq (send_message u ''If you want to speak in the Simon game, use /say'') (sreturn INTERCEPTED))"

definition simon_player_command :: "session_id \<Rightarrow> command \<Rightarrow> intercept simon_op" where
  "simon_player_command u c =
     (if command_name_eq_string (cmd_name c) ''say'' \<or> command_name_eq_string (cmd_name c) ''s'' then
        sseq (swhen (cmd_raw_arguments c \<noteq> [])
            (sbind (user_name u) (\<lambda>name. broadcast_message (name @ '': '' @ cmd_raw_arguments c))))
          (sreturn INTERCEPTED)
      else sreturn DEFAULT)"

definition simon_on_player_quit :: "session_id \<Rightarrow> unit simon_op" where
  "simon_on_player_quit u = sbind get_simon (\<lambda>g. swhen (u = sm_simon g) (sseqs [
     broadcast_message ''Simon left during the game!'',
     broadcast_message ''The game is now cancelled.'',
     modify_room end_game]))"

definition simon_on_option_change :: "string \<Rightarrow> string \<Rightarrow> (unit, string) result simon_op" where
  "simon_on_option_change option val =
     (if option = ''simon'' then
        (case parse_nickname val of
           None \<Rightarrow> sreturn (Error_result (''Unable to set '' @ quote @ val @ quote @ '' as simon.''))
         | Some name \<Rightarrow> sbind (sread (\<lambda>s. find_player_by_name (c_users s) name (c_room s))) (\<lambda>p. case p of
             None \<Rightarrow> sbind (sread (\<lambda>s. find_spectator_by_name (c_users s) name (c_room s))) (\<lambda>q.
               sreturn (Error_result (''Unable to set '' @ quote @ val @ quote @ (if q \<noteq> None
                 then '' as simon. They are a spectator.'' else '' as simon. They aren't in the room.''))))
           | Some u \<Rightarrow> sseq (modify_simon (\<lambda>g. g\<lparr>sm_simon := u\<rparr>))
               (sbind (read_room r_owner) (\<lambda>ow. case ow of
                  None \<Rightarrow> undefined_behaviour Null_deref
                | Some w \<Rightarrow> sseq (send_system_message w (val @ '' is the new simon.'')) (sreturn (Ok_result ()))))))
      else sreturn (Ok_result ()))"

definition simon_list_option_descriptions :: "(string \<times> string) list simon_op" where
  "simon_list_option_descriptions = sreturn [(''simon'', ''The player who is acting as Simon.'')]"

definition simon_update :: "unit simon_op" where
  "simon_update = sreturn ()"

definition simon_start :: "unit simon_op" where
  "simon_start = sbind (read_room player_count) (\<lambda>n.
     if n < 3 then sthrow (Game_exn (game_exception_with OTHER ''This game requires at least three players.''))
     else sbind get_simon (\<lambda>g. sbind (read_room (find_player (sm_simon g))) (\<lambda>p.
       if p = None then sbind (read_room r_owner) (\<lambda>ow. case ow of
           None \<Rightarrow> undefined_behaviour Null_deref
         | Some u \<Rightarrow> sseq (modify_simon (\<lambda>g. g\<lparr>sm_simon := u\<rparr>))
             (sthrow (Game_exn (game_exception_with OTHER
               ''The previous simon left. Either set a simon, or try again to use the room owner.''))))
       else sseq (modify_simon (\<lambda>g. g\<lparr>sm_incomplete := [], sm_message := []\<rparr>))
         (sbind simon_name (\<lambda>name. sseqs [
            broadcast_message (''[SIMON]: Simon is '' @ name),
            broadcast_message ''[SIMON]: Good luck!'']))))) "

definition simon_controller :: "(string \<Rightarrow> string) \<Rightarrow> simon controller" where
  "simon_controller trim = \<lparr>
     k_initialize = simon_initialize,
     k_player_message = simon_player_message trim,
     k_player_command = simon_player_command,
     k_spectator_message = default_spectator_message,
     k_spectator_command = default_spectator_command,
     k_on_player_quit = simon_on_player_quit,
     k_on_option_change = simon_on_option_change,
     k_list_option_descriptions = simon_list_option_descriptions,
     k_update = simon_update,
     k_start = simon_start\<rparr>"

subsection \<open>Simon keeps the contract\<close>

lemma core_modify_game:
  "room_core r \<and> room_frame r = F \<Longrightarrow>
     room_core (r\<lparr>r_game := map_option f (r_game r)\<rparr>) \<and> room_frame (r\<lparr>r_game := map_option f (r_game r)\<rparr>) = F"
  by (simp add: room_core_def room_frame_def is_game_loaded_def)

lemma preserves_modify_simon [pres_intros]: "preserves (framed F) (modify_simon f)"
  unfolding modify_simon_def by (intro preserves_modify_room core_modify_game)

lemma preserves_disqualify [pres_intros]: "preserves (framed F) (modify_room (disqualify_player u))"
  by (rule preserves_modify_room) (auto simp: room_core_disqualify)

lemma preserves_end_game [pres_intros]: "preserves (framed F) (modify_room end_game)"
  by (rule preserves_modify_room) (auto simp: room_core_end_game)

lemma preserves_get_simon [pres_intros]: "preserves I get_simon"
  unfolding get_simon_def by (intro pres_intros)

lemma preserves_user_name [pres_intros]: "preserves I (user_name u)"
  unfolding user_name_def by (intro pres_intros)

lemma preserves_name_of_ptr [pres_intros]: "preserves I (name_of_ptr p)"
  unfolding name_of_ptr_def by (intro pres_intros)

lemma preserves_simon_name [pres_intros]: "preserves I simon_name"
  unfolding simon_name_def by (intro pres_intros)

lemmas frame_intros = preserves_modify_simon preserves_disqualify preserves_end_game
  preserves_return preserves_throw preserves_read preserves_bind preserves_seq preserves_when
  preserves_catch preserves_for preserves_if preserves_option preserves_read_room preserves_broadcast
  preserves_send preserves_send_system preserves_modify_user preserves_get_simon preserves_user_name
  preserves_name_of_ptr preserves_simon_name preserves_undefined

lemma preserves_check_win: "preserves (framed F) check_win"
  unfolding check_win_def by (auto intro!: frame_intros)

lemma preserves_end_round: "preserves (framed F) end_round"
  unfolding end_round_def by (auto intro!: frame_intros preserves_check_win)

lemma preserves_next_round: "preserves (framed F) (next_round m)"
  unfolding next_round_def by (auto intro!: frame_intros)

lemma simon_quit_safe:
  assumes "snd (snd F)"
  shows "safe (framed F) (simon_on_player_quit u) (\<lambda>_. framed F)"
proof -
  have leave: "safe (framed F) (sseqs [broadcast_message ''Simon left during the game!'',
      broadcast_message ''The game is now cancelled.'', modify_room end_game]) (\<lambda>_. framed F)"
  proof -
    have e: "safe (framed F) (modify_room end_game) (\<lambda>_. framed F)"
      by (rule safe_modify_room) (auto simp: room_core_end_game)
    have b: "safe (framed F) (broadcast_message m) (\<lambda>_. framed F)" for m
      by (rule safe_broadcast) simp
    have r: "safe (framed F) (sreturn ()) (\<lambda>_. framed F)" by (simp add: safe_return)
    show ?thesis using safe_seq [OF b safe_seq [OF b safe_seq [OF e r]]] by simp
  qed
  have "safe (framed F) get_simon (\<lambda>_. framed F)"
    using assms by (auto simp: safe_def get_simon_def read_room_def act_simps on_room_def room_frame_def is_game_loaded_def)
  then show ?thesis
    unfolding simon_on_player_quit_def
    by (rule safe_bind) (rule safe_when, rule leave)
qed

interpretation simon: game_contract "simon_controller trim" for trim
proof
  fix F u m c x y
  show "preserves (framed F) (k_initialize (simon_controller trim))"
    by (auto simp: simon_controller_def simon_initialize_def intro!: frame_intros)
  show "preserves (framed F) (k_player_message (simon_controller trim) u m)"
    by (auto simp: simon_controller_def simon_player_message_def
      intro!: frame_intros preserves_end_round preserves_next_round preserves_check_win)
  show "preserves (framed F) (k_player_command (simon_controller trim) u c)"
    by (auto simp: simon_controller_def simon_player_command_def intro!: frame_intros)
  show "preserves (framed F) (k_spectator_message (simon_controller trim) u m)"
    by (simp add: simon_controller_def default_spectator_message_def preserves_return)
  show "preserves (framed F) (k_spectator_command (simon_controller trim) u c)"
    by (simp add: simon_controller_def default_spectator_command_def preserves_return)
  show "preserves (framed F) (k_on_option_change (simon_controller trim) x y)"
    by (auto simp: simon_controller_def simon_on_option_change_def intro!: frame_intros)
  show "preserves (framed F) (k_list_option_descriptions (simon_controller trim))"
    by (simp add: simon_controller_def simon_list_option_descriptions_def preserves_return)
  show "preserves (framed F) (k_update (simon_controller trim))"
    by (simp add: simon_controller_def simon_update_def preserves_return)
  show "preserves (framed F) (k_start (simon_controller trim))"
    by (auto simp: simon_controller_def simon_start_def intro!: frame_intros)
  show "snd (snd F) \<Longrightarrow> safe (framed F) (k_on_player_quit (simon_controller trim) u) (\<lambda>_. framed F)"
    by (simp add: simon_controller_def simon_quit_safe)
qed

subsection \<open>Properties\<close>

text \<open>C1. The invariant of a room that plays Simon, under two conditions: the room was created
  with its uninitialised flag \<open>_game_started\<close> false, and no user joins at a clock reading at which a
  present member joined. Then after any
  sequence of joins, removals, changes of owner and limits, messages, game loads, starts, ends,
  options, ticks, disqualifications, resets and flushes of the waitlist, whatever each of them returned or threw, the cached sets
  and the counter agree with the members, the owner is a member (and there is one exactly when
  there are members), and an active game is loaded. The operations are those of \<open>Room\<close>; chat commands call
  these operations through the server, whose invariant is in Server\_Properties.\<close>

theorem room_invariant_run:
  fixes s0 :: "simon ctx"
  assumes "s0 = new_ctx us (new_room now False sig i)" and "clocks_fresh (simon_controller trim) es s0"
  shows "room_inv (c_room (room_run (simon_controller trim) es s0))"
proof -
  have "on_room room_inv s0" by (simp add: assms(1) on_room_def new_ctx_def room_inv_new)
  from simon.room_run_inv [OF this assms(2)] show ?thesis by (simp add: on_room_def)
qed

definition demo_room :: "simon ctx" where
  "demo_room = new_ctx demo_users (new_room 0 False (\<lambda>_. 0) ''ABCDE'')"

definition demo_start :: "simon room_event list" where
  "demo_start = [Add 1 (SessionId 1) AS_PLAYER_WAITING, Load_game (new_simon (SessionId 0))]"

abbreviation demo_simon :: "simon controller" where
  "demo_simon \<equiv> simon_controller (\<lambda>m. m)"

lemma demo_start_fresh: "clocks_fresh demo_simon demo_start demo_room"
  by code_simp

lemma demo_run_inv:
  "room_inv (c_room (room_run demo_simon demo_start demo_room))"
proof -
  have "on_room room_inv demo_room" by (simp add: demo_room_def on_room_def new_ctx_def room_inv_new)
  from simon.room_run_inv [OF this demo_start_fresh] show ?thesis by (simp add: on_room_def)
qed

theorem room_invariant_run_witness:
  "room_inv (c_room (room_run demo_simon demo_start demo_room))"
  by (rule room_invariant_run [OF demo_room_def demo_start_fresh])

text \<open>C17. What the cached sets stand for, along every run, under the same two conditions. A room is
  refined from its members alone: each of the four sets is the list of the members of its
  kind sorted by the time they joined, the counts are the numbers of such members, and a
  broadcast reaches the members that do not suppress it, each once, in the order in which they joined.\<close>

theorem caches_are_members_by_time:
  fixes s0 :: "simon ctx"
  assumes "s0 = new_ctx us (new_room now False sig i)" and "clocks_fresh (simon_controller trim) es s0"
  defines "s \<equiv> room_run (simon_controller trim) es s0"
  shows "r_users (c_room s) = members_by_time (\<lambda>_. True) (c_room s) \<and>
    r_users_as_spectators (c_room s) = members_by_time (\<lambda>_. True) (c_room s) \<and>
    r_players (c_room s) = members_by_time (\<lambda>m. is_player m \<and> \<not> is_disqualified m) (c_room s) \<and>
    r_spectators (c_room s) = members_by_time (\<lambda>m. is_spectator m \<or> is_disqualified m) (c_room s) \<and>
    player_count (c_room s) = of_nat (count_members (\<lambda>m. is_player m \<or> is_disqualified m) (r_members (c_room s))) \<and>
    spectator_count (c_room s) =
      of_nat (count_members (\<lambda>m. is_spectator m \<and> \<not> is_disqualified m) (r_members (c_room s))) \<and>
    broadcast_message msg s = (Inr (), s\<lparr>c_sent := c_sent s @
      map (\<lambda>e. (snd e, msg)) (members_by_time (\<lambda>m. \<not> m_suppress m) (c_room s))\<rparr>)"
proof -
  have "on_room room_inv s0" by (simp add: assms(1) on_room_def new_ctx_def room_inv_new)
  from simon.room_run_inv [OF this assms(2)] have core: "room_core (c_room s)"
    by (simp add: s_def on_room_def room_inv_def)
  show ?thesis
    using core_caches [OF core] player_count_members [OF core] spectator_count_members [OF core]
    by (simp add: broadcast_run [OF core] core_audience [OF core] comp_def)
qed

text \<open>Two players who join in the order opposite to their ids, of whom the later is then disqualified.\<close>

definition demo_two_players :: "simon room_event list" where
  "demo_two_players = [Add 1 (SessionId 2) AS_PLAYER, Add 2 (SessionId 1) AS_PLAYER, Disqualify (SessionId 1)]"

theorem caches_are_members_by_time_witness:
  "r_players (c_room (room_run demo_simon demo_two_players demo_room)) = [(1, SessionId 2)] \<and>
   r_spectators (c_room (room_run demo_simon demo_two_players demo_room)) = [(2, SessionId 1)] \<and>
   broadcast_message ''hi'' (room_run demo_simon demo_two_players demo_room) =
     (Inr (), (room_run demo_simon demo_two_players demo_room)\<lparr>c_sent :=
        c_sent (room_run demo_simon demo_two_players demo_room) @ [(SessionId 2, ''hi''), (SessionId 1, ''hi'')]\<rparr>)"
proof -
  let ?r = "c_room (room_run demo_simon demo_two_players demo_room)"
  have fresh: "clocks_fresh demo_simon demo_two_players demo_room" by code_simp
  have "members_by_time (\<lambda>m. is_player m \<and> \<not> is_disqualified m) ?r = [(1, SessionId 2)]"
    "members_by_time (\<lambda>m. is_spectator m \<or> is_disqualified m) ?r = [(2, SessionId 1)]"
    "members_by_time (\<lambda>m. \<not> m_suppress m) ?r = [(1, SessionId 2), (2, SessionId 1)]"
    by code_simp+
  then show ?thesis using caches_are_members_by_time [OF demo_room_def fresh, of "''hi''"] by simp
qed

text \<open>C33. Removing a member always returns and leaves a room that satisfies the invariant without
  that member, whatever game runs in it; but it always reads the member it has freed: the owner
  comparison at its end goes through the reference to the shared pointer inside the erased node.\<close>

theorem remove_user_returns:
  assumes "room_inv (c_room s)" and "find_member u (c_room s) \<noteq> None"
  shows "\<exists>s'. remove_user (simon_controller trim) u s = (Inr (), s') \<and> room_inv (c_room s') \<and>
    find_member u (c_room s') = None \<and> Use_after_free \<in> set (c_faults s')"
  using safeD [OF simon.remove_member_safe [of u trim], of s] assms
  by (auto simp: on_room_def left_inv_def faulty_def find_member_keys simp del: image_iff)

theorem remove_user_returns_witness:
  "\<exists>s'. remove_user demo_simon (SessionId 1) (room_run demo_simon demo_start demo_room) = (Inr (), s') \<and>
    room_inv (c_room s')"
proof -
  have "find_member (SessionId 1) (c_room (room_run demo_simon demo_start demo_room)) \<noteq> None"
    by code_simp
  from remove_user_returns [OF demo_run_inv this]
  show ?thesis by blast
qed

subsection \<open>Starting, and players that leave in the middle of a round\<close>

definition credited :: "session_id list \<Rightarrow> (session_id \<Rightarrow> user) \<Rightarrow> session_id \<Rightarrow> user" where
  "credited ps us u = (if u \<in> set ps then (us u)\<lparr>u_stats := increment_wins (u_stats (us u))\<rparr> else us u)"

lemma credit_loop:
  "distinct (map snd ps) \<Longrightarrow>
   sfor ps (\<lambda>e. modify_user (snd e) (\<lambda>u. u\<lparr>u_stats := increment_wins (u_stats u)\<rparr>)) s =
     (Inr (), s\<lparr>c_users := credited (map snd ps) (c_users s)\<rparr>)"
proof (induction ps arbitrary: s)
  case Nil
  have "credited [] us = us" for us by (simp add: credited_def fun_eq_iff)
  then show ?case by (simp add: act_simps)
next
  case (Cons e ps)
  have "credited (map snd ps) ((c_users s)(snd e := (c_users s (snd e))\<lparr>u_stats := increment_wins (u_stats (c_users s (snd e)))\<rparr>)) =
      credited (map snd (e # ps)) (c_users s)"
    using Cons.prems by (auto simp: credited_def fun_eq_iff)
  then show ?case
    using Cons by (simp add: act_simps modify_user_def)
qed

lemma core_players_distinct: "room_core r \<Longrightarrow> distinct (map snd (r_players r))"
proof -
  assume core: "room_core r"
  then have om: "om_ok (r_players r)" and sub: "set (r_players r) = entries playing (r_members r)"
    and ok: "members_ok (r_members r)"
    by (simp_all add: room_core_def cache_ok_def)
  have "distinct (r_players r)" using om_ok_distinct [OF om] by (simp add: distinct_map)
  moreover have "inj_on snd (entries playing (r_members r))"
  proof (rule inj_onI)
    fix x y
    assume "x \<in> entries playing (r_members r)" "y \<in> entries playing (r_members r)" "snd x = snd y"
    then show "x = y"
      using entries_member [of x playing "r_members r"] entries_member [of y playing "r_members r"]
        members_okD(2) [OF ok] by (metis option.inject prod.collapse)
  qed
  ultimately show ?thesis by (simp add: distinct_map sub)
qed

text \<open>Starting Simon with fewer than three players throws, but too late: the room is already
  marked as playing, and every player has been credited with a won game (\<open>start_game\<close> increments
  the wins, not the games, of the players). The \<open>/start\<close> command reports a failure while the game
  runs.\<close>

theorem failed_start_leaves_game_active:
  assumes "room_inv (c_room s)" and "is_game_loaded (c_room s)"
    and "player_count (reset_players (c_room s)) < 3"
  shows "case start_game (simon_controller trim) s of (res, s') \<Rightarrow>
    res = Inl (Game_exn (game_exception_with OTHER ''This game requires at least three players.'')) \<and>
    is_game_active (c_room s') \<and>
    (\<forall>u \<in> snd ` set (r_players (c_room s')).
       ps_wins (u_stats (c_users s' u)) = ps_wins (u_stats (c_users s u)) + 1 \<and>
       ps_games (u_stats (c_users s' u)) = ps_games (u_stats (c_users s u)))"
proof -
  let ?r = "reset_players (c_room s)"
  have core: "room_core ?r" using assms(1) room_core_reset by (auto simp: room_inv_def)
  have loaded: "\<exists>g. r_game ?r = Some g"
    using reset_loaded [OF assms(1)] assms(2) by (auto simp: is_game_loaded_def)
  then obtain g where g: "r_game ?r = Some g" by blast
  have cnt: "player_count (?r\<lparr>r_started := True\<rparr>) < 3" using assms(3) by (simp add: player_count_def)
  have start: "k_start (simon_controller trim) (s\<lparr>c_users := us, c_room := ?r\<lparr>r_started := True\<rparr>\<rparr>) =
      (Inl (Game_exn (game_exception_with OTHER ''This game requires at least three players.'')),
       s\<lparr>c_users := us, c_room := ?r\<lparr>r_started := True\<rparr>\<rparr>)" for us
    using cnt by (simp add: simon_controller_def simon_start_def read_room_def act_simps)
  have "start_game (simon_controller trim) s =
     (Inl (Game_exn (game_exception_with OTHER ''This game requires at least three players.'')),
      s\<lparr>c_users := credited (map snd (r_players ?r)) (c_users s), c_room := ?r\<lparr>r_started := True\<rparr>\<rparr>)"
    using assms(2) start g
    by (simp add: start_game_def read_room_def modify_room_def on_game_def act_simps
      credit_loop [OF core_players_distinct [OF core]])
  then show ?thesis
    by (simp add: is_game_active_def credited_def increment_wins_def)
qed

theorem failed_start_leaves_game_active_witness:
  "is_game_active (c_room (snd (start_game demo_simon (room_run demo_simon demo_start demo_room))))"
proof -
  let ?s = "room_run demo_simon demo_start demo_room"
  have "is_game_loaded (c_room ?s)" "player_count (reset_players (c_room ?s)) < 3" by code_simp+
  from failed_start_leaves_game_active [OF demo_run_inv this, of "\<lambda>m. m"] show ?thesis
    by (simp split: prod.splits)
qed

lemma simon_quit_other:
  "r_game (c_room s) = Some g \<Longrightarrow> u \<noteq> sm_simon g \<Longrightarrow> simon_on_player_quit u s = (Inr (), s)"
  by (simp add: simon_on_player_quit_def get_simon_def read_room_def act_simps)

lemma promote_game [simp]: "r_game (promote us r) = r_game r"
  by (induction us arbitrary: r) simp_all

lemma remove_other_keeps_game:
  assumes "u \<noteq> sm_simon g"
  shows "preserves (on_room (\<lambda>r. r_game r = Some g)) (remove_user (simon_controller trim) u)"
proof -
  let ?P = "\<lambda>r :: simon room. r_game r = Some g"
  have sf: "signal_free ?P" by (simp add: signal_free_def)
  have quit: "preserves (on_room ?P) (on_game (k_on_player_quit (simon_controller trim) u))"
    using assms
    by (intro preservesI) (simp add: on_game_def simon_controller_def on_room_def read_room_def act_simps simon_quit_other)
  have owner: "preserves (on_room ?P) (set_owner ow)" for ow
    unfolding set_owner_def using sf by (auto intro!: pres_intros split: option.split)
  have "preserves (on_room ?P) (quit_game (simon_controller trim) u m)" for m
    unfolding quit_game_def by (intro pres_intros quit)
  moreover have "preserves (on_room ?P) (shift_owner u)"
    unfolding shift_owner_def by (auto intro!: pres_intros owner split: option.split list.split)
  moreover have "r_game (take_out u m r) = r_game r" "r_game (flush_waitlist r) = r_game r" for m and r :: "simon room"
    by (simp_all add: take_out_def cached_remove_def flush_waitlist_def)
  ultimately show ?thesis
    unfolding remove_user_def using sf by (auto intro!: pres_intros)
qed

lemma disqualify_find_None: "find_member u r = None \<Longrightarrow> find_member u (disqualify_player v r) = None"
  by (auto simp: disqualify_player_def guarded_find split: option.split)

text \<open>The loop at the end of a round over the pending players does not get past one that is no member:
  it crashes there, or at an earlier one for the same reason.\<close>

lemma pending_loop_crashes:
  fixes fs :: "(session_id \<times> unit) list"
  assumes "room_core (c_room s)" and "find_member u (c_room s) = None" and "u \<in> fst ` set fs"
  shows "fst (sfor fs (\<lambda>fail.
        sbind (read_room (find_player (fst fail))) (\<lambda>player.
        sbind (name_of_ptr player) (\<lambda>name. sseqs [
          broadcast_message (''[SIMON]: '' @ name @ '' is disqualified! They couldn't keep up.''),
          modify_room (disqualify_player (fst fail))]))) s) = Inl (Undefined Null_deref)"
  using assms
proof (induction fs arbitrary: s)
  case (Cons f fs)
  show ?case
  proof (cases "find_player (fst f) (c_room s)")
    case None
    then show ?thesis by (simp add: act_simps read_room_def name_of_ptr_def)
  next
    case (Some v)
    then have "fst f \<noteq> u" using core_not_found(1) [OF Cons.prems(1,2)] by auto
    then have "u \<in> fst ` set fs" using Cons.prems(3) by auto
    let ?s = "s\<lparr>c_sent := c_sent s @ map (\<lambda>w. (w, ''[SIMON]: '' @ u_name (c_users s v) @ '' is disqualified! They couldn't keep up.''))
        (audience (c_room s)), c_room := disqualify_player (fst f) (c_room s)\<rparr>"
    have "room_core (c_room ?s)" "find_member u (c_room ?s) = None"
      using Cons.prems(1,2) room_core_disqualify disqualify_find_None by auto
    from Cons.IH [OF this \<open>u \<in> fst ` set fs\<close>] show ?thesis
      using Some Cons.prems(1)
      by (simp add: act_simps read_room_def modify_room_def name_of_ptr_def user_name_def broadcast_run)
  qed
qed simp

text \<open>C34. A player that leaves in the middle of a round crashes the game, whichever of the pending
  players it is, as long as it is not Simon. Quitting does not take
  the player off the list of those who still have to answer, so at Simon's next message the end of
  the round looks the pending players up, finds nobody, and calls \<open>name()\<close> on a null pointer.\<close>

theorem quitting_player_crashes_round:
  assumes "room_inv (c_room s)" and "r_game (c_room s) = Some g"
    and "u \<in> fst ` set (sm_incomplete g)" and "u \<noteq> sm_simon g" and "find_member u (c_room s) \<noteq> None"
  shows "case remove_user (simon_controller trim) u s of (res, s') \<Rightarrow>
    res = Inr () \<and>
    fst (simon_player_message trim (sm_simon g) message s') = Inl (Undefined Null_deref)"
proof -
  obtain s' where s': "remove_user (simon_controller trim) u s = (Inr (), s')" "room_inv (c_room s')"
    "find_member u (c_room s') = None"
    using safeD [OF simon.remove_member_safe [of u trim], of s] assms(1,5)
    by (auto simp: on_room_def left_inv_def find_member_keys simp del: image_iff)
  have g: "r_game (c_room s') = Some g"
    using preservesD [OF remove_other_keeps_game [OF assms(4), of trim], of s] assms(2) s'(1)
    by (simp add: on_room_def)
  have core: "room_core (c_room s')" using s'(2) by (simp add: room_inv_def)
  have "fst (end_round s') = Inl (Undefined Null_deref)"
    using pending_loop_crashes [OF core s'(3) assms(3)] g
    unfolding end_round_def sseq_run
    by (auto simp: get_simon_def read_room_def act_simps split: prod.splits sum.splits)
  then have "fst (simon_player_message trim (sm_simon g) message s') = Inl (Undefined Null_deref)"
    using g by (auto simp: simon_player_message_def get_simon_def read_room_def act_simps split: prod.splits sum.splits)
  then show ?thesis using s'(1) by simp
qed

text \<open>Three players, the first of them Simon, who waits for both others; the last of them quits.\<close>

definition demo_joins :: "simon room_event list" where
  "demo_joins = [Add 1 (SessionId 1) AS_PLAYER, Add 2 (SessionId 2) AS_PLAYER, Add 3 (SessionId 3) AS_PLAYER]"

definition demo_round :: "simon ctx" where
  "demo_round = (let s = room_run demo_simon demo_joins demo_room in
     s\<lparr>c_room := (c_room s)\<lparr>r_game := Some \<lparr>sm_simon = SessionId 1, sm_message = ''a'',
       sm_incomplete = [(SessionId 2, ()), (SessionId 3, ())]\<rparr>\<rparr>\<rparr>)"

theorem quitting_player_crashes_round_witness:
  "case remove_user demo_simon (SessionId 3) demo_round of (res, s') \<Rightarrow>
    res = Inr () \<and> fst (simon_player_message (\<lambda>m. m) (SessionId 1) ''b'' s') = Inl (Undefined Null_deref)"
proof -
  have f: "clocks_fresh demo_simon demo_joins demo_room" "find_member (SessionId 3) (c_room demo_round) \<noteq> None"
    by code_simp+
  have "on_room room_inv demo_room" by (simp add: demo_room_def on_room_def new_ctx_def room_inv_new)
  from simon.room_run_inv [OF this f(1)] have inv: "room_inv (c_room demo_round)"
    by (simp add: demo_round_def Let_def on_room_def room_inv_set_game)
  have game: "r_game (c_room demo_round) =
      Some \<lparr>sm_simon = SessionId 1, sm_message = ''a'', sm_incomplete = [(SessionId 2, ()), (SessionId 3, ())]\<rparr>"
    by (simp add: demo_round_def Let_def)
  from quitting_player_crashes_round [OF inv game _ _ f(2), where trim = "\<lambda>m. m" and message = "''b''"]
  show ?thesis by simp
qed

end
