(* ===== verification/Server_Manager.thy ===== *)
theory Server_Manager
  imports Simon_Game
begin

section \<open>The server manager (module server)\<close>

text \<open>
  \<open>ServerManager\<close> of server/src/ServerManager.cpp: the maps from session ids to users and to
  rooms, and from room codes to rooms. Room objects are shared: a room is named by a reference (a
  number) into a heap of rooms (\<open>w_rooms\<close>), user objects by their session id (\<open>w_users\<close>). The hash
  maps are finite maps; \<open>rooms()\<close> and the destructor iterate over the room codes in the order of
  the association list. A message to a user or to its connection goes to the same socket.

  Parameters: the printing of a UUID, the room code draws, the draws of the nickname generator,
  the clock, and what uninitialised fields hold. The loop that looks for a free room code gets a
  finite list of draws.
\<close>

record world =
  w_users :: "session_id \<Rightarrow> user"
  w_known :: "session_id \<rightharpoonup> session_id"
  w_user_room :: "session_id \<rightharpoonup> nat"
  w_room_codes :: "(string \<times> nat) list"
  w_rooms :: "nat \<Rightarrow> simon room"
  w_next_room :: nat
  w_sent :: "(session_id \<times> string) list"
  w_counter :: "64 word"
  w_faults :: "ub list"

definition new_world :: "(session_id \<Rightarrow> user) \<Rightarrow> (nat \<Rightarrow> simon room) \<Rightarrow> world" where
  "new_world us rs = \<lparr>w_users = us, w_known = (\<lambda>_. None), w_user_room = (\<lambda>_. None), w_room_codes = [],
     w_rooms = rs, w_next_room = 0, w_sent = [], w_counter = 0, w_faults = []\<rparr>"

type_synonym 'a world_op = "(world, 'a) op"

text \<open>A room operation on the room object \<open>ref\<close>.\<close>

definition room_ctx :: "nat \<Rightarrow> world \<Rightarrow> simon ctx" where
  "room_ctx ref w = \<lparr>c_room = w_rooms w ref, c_users = w_users w, c_sent = w_sent w,
     c_counter = w_counter w, c_faults = w_faults w\<rparr>"

definition put_ctx :: "nat \<Rightarrow> simon ctx \<Rightarrow> world \<Rightarrow> world" where
  "put_ctx ref s w = w\<lparr>w_rooms := (w_rooms w)(ref := c_room s), w_users := c_users s,
     w_sent := c_sent s, w_counter := c_counter s, w_faults := c_faults s\<rparr>"

definition at_room :: "nat \<Rightarrow> (simon, 'a) room_op \<Rightarrow> 'a world_op" where
  "at_room ref m = (\<lambda>w. case m (room_ctx ref w) of (res, s) \<Rightarrow> (res, put_ctx ref s w))"

definition get_room :: "nat \<Rightarrow> (simon room \<Rightarrow> 'a) \<Rightarrow> 'a world_op" where
  "get_room ref f = sread (\<lambda>w. f (w_rooms w ref))"

definition say :: "session_id \<Rightarrow> string \<Rightarrow> unit world_op" where
  "say u m = smodify (\<lambda>w. w\<lparr>w_sent := w_sent w @ [(u, m)]\<rparr>)"

definition say_error :: "session_id \<Rightarrow> string \<Rightarrow> unit world_op" where
  "say_error u m = say u (''Error: '' @ m)"

definition modify_user_object :: "session_id \<Rightarrow> (user \<Rightarrow> user) \<Rightarrow> unit world_op" where
  "modify_user_object u f = smodify (\<lambda>w. w\<lparr>w_users := (w_users w)(u := f (w_users w u))\<rparr>)"

subsection \<open>Lookups\<close>

definition manager_find_user :: "session_id \<Rightarrow> world \<Rightarrow> session_id option" where
  "manager_find_user u w = find_in_map (w_known w) u"

definition find_room :: "string \<Rightarrow> world \<Rightarrow> nat option" where
  "find_room code w = find_in_map (map_of (w_room_codes w)) code"

definition find_user_room :: "session_id \<Rightarrow> world \<Rightarrow> nat option" where
  "find_user_room u w = find_in_map (w_user_room w) u"

definition rooms :: "world \<Rightarrow> nat list" where
  "rooms w = map snd (w_room_codes w)"

subsection \<open>Rooms\<close>

fun pick_code :: "(nat \<Rightarrow> nat) list \<Rightarrow> (string \<times> nat) list \<Rightarrow> exn + string" where
  "pick_code [] codes = Inl Out_of_fuel"
| "pick_code (r # rs) codes = (case generate_room_id r 5 of
     Inl e \<Rightarrow> Inl e
   | Inr c \<Rightarrow> if map_of codes c \<noteq> None then pick_code rs codes else Inr c)"

definition room_listeners :: "'g room \<Rightarrow> 'g room" where
  "room_listeners r = r\<lparr>
     r_on_member_join := snd (listen Announce_join (r_on_member_join r)),
     r_on_member_leave := snd (listen Announce_leave (r_on_member_leave r)),
     r_on_owner_change := snd (listen Announce_owner (r_on_owner_change r))\<rparr>"

definition create_room :: "(nat \<Rightarrow> nat) list \<Rightarrow> int \<Rightarrow> bool \<Rightarrow> (nat \<Rightarrow> 64 word) \<Rightarrow> nat world_op" where
  "create_room draws now started sig = sbind (sread (\<lambda>w. pick_code draws (w_room_codes w))) (\<lambda>c. case c of
     Inl e \<Rightarrow> sthrow e
   | Inr code \<Rightarrow> sbind (sread w_next_room) (\<lambda>ref.
       sseq (smodify (\<lambda>w. w\<lparr>w_next_room := ref + 1, w_room_codes := w_room_codes w @ [(code, ref)],
           w_rooms := (w_rooms w)(ref := room_listeners (new_room now started sig code))\<rparr>))
         (sreturn ref)))"

text \<open>\<open>destroy_room\<close> builds an empty local set of users and iterates over it, so it removes nobody.\<close>

definition destroy_room :: "nat \<Rightarrow> unit world_op" where
  "destroy_room ref = sbind (sread (\<lambda>w. (r_id (w_rooms w ref), w_room_codes w))) (\<lambda>(code, codes).
     if map_of codes code = None then throw_chat ROOM_NOT_FOUND
     else smodify (\<lambda>w. w\<lparr>w_room_codes := filter (\<lambda>e. fst e \<noteq> code) (w_room_codes w)\<rparr>))"

text \<open>The destructor erases from the map it iterates over: the second step uses an invalid iterator.\<close>

definition manager_destructor :: "unit world_op" where
  "manager_destructor = sbind (sread w_room_codes) (\<lambda>codes. case codes of
     [] \<Rightarrow> sreturn ()
   | e # _ \<Rightarrow> sseq (destroy_room (snd e)) (undefined_behaviour Use_after_free))"

subsection \<open>Users in rooms\<close>

text \<open>\<open>room->remove_user(room->find_player(user))\<close> reads the user through a null pointer when the
  user is not an active player.\<close>

definition user_leave_room :: "simon controller \<Rightarrow> session_id \<Rightarrow> nat \<Rightarrow> unit world_op" where
  "user_leave_room K u ref = sseqs [
     smodify (\<lambda>w. w\<lparr>w_user_room := (w_user_room w)(u := None)\<rparr>),
     catch_chat (sbind (get_room ref (find_player u)) (\<lambda>p. case p of
         None \<Rightarrow> undefined_behaviour Null_deref
       | Some v \<Rightarrow> at_room ref (remove_user K v))) (\<lambda>_. sreturn ()),
     sbind (get_room ref r_players) (\<lambda>ps. swhen (ps = []) (destroy_room ref))]"

definition rename_default :: "(128 word \<Rightarrow> string) \<Rightarrow> session_id \<Rightarrow> unit world_op" where
  "rename_default print_uuid u = sbind (sread (\<lambda>w. clear_nickname print_uuid (w_users w u))) (\<lambda>x. case x of
     Inl e \<Rightarrow> sthrow e
   | Inr v \<Rightarrow> modify_user_object u (\<lambda>_. v))"

definition give_nickname :: "(nat \<Rightarrow> nat) \<Rightarrow> session_id \<Rightarrow> unit world_op" where
  "give_nickname draws u = (case generate_nickname default_generator draws of
     Inl e \<Rightarrow> sthrow e
   | Inr n \<Rightarrow> sseq (say u (''Your new nickname is: '' @ n)) (modify_user_object u (set_nickname n)))"

definition user_join_room ::
  "(128 word \<Rightarrow> string) \<Rightarrow> (nat \<Rightarrow> nat) \<Rightarrow> int \<Rightarrow> session_id \<Rightarrow> nat \<Rightarrow> unit world_op"
where
  "user_join_room print_uuid draws now u ref = sbind (sread (find_user_room u)) (\<lambda>cur.
     if cur \<noteq> None then say u ''Error: You must leave your current room before joining another one.''
     else sseqs [
       sbind (sread (\<lambda>w. find_user_by_name (w_users w) (u_name (w_users w u)) (w_rooms w ref))) (\<lambda>clash.
         swhen (clash \<noteq> None) (sseq
           (say u ''Your nickname is already used by somebody in the room you are joining.'')
           (rename_default print_uuid u))),
       sbind (sread (\<lambda>w. u_nickname (w_users w u))) (\<lambda>n. swhen (n = None) (give_nickname draws u)),
       at_room ref (add_user now u AS_PLAYER_WAITING),
       smodify (\<lambda>w. w\<lparr>w_user_room := (case w_user_room w u of
          None \<Rightarrow> (w_user_room w)(u \<mapsto> ref) | Some _ \<Rightarrow> w_user_room w)\<rparr>)])"

definition manager_add_user :: "session_id \<Rightarrow> unit world_op" where
  "manager_add_user u = smodify (\<lambda>w. w\<lparr>w_known := (case w_known w u of
     None \<Rightarrow> (w_known w)(u \<mapsto> u) | Some _ \<Rightarrow> w_known w)\<rparr>)"

text \<open>\<open>remove_user\<close> takes the user out of its room but not out of the map of users.\<close>

definition manager_remove_user :: "simon controller \<Rightarrow> session_id \<Rightarrow> unit world_op" where
  "manager_remove_user K u = sbind (sread (\<lambda>w. (w_known w u, find_user_room u w))) (\<lambda>(known, room).
     case known of
       None \<Rightarrow> sreturn ()
     | Some v \<Rightarrow> (case room of None \<Rightarrow> sreturn () | Some ref \<Rightarrow> user_leave_room K v ref))"

definition user_set_nickname :: "session_id \<Rightarrow> string \<Rightarrow> unit world_op" where
  "user_set_nickname u name = sseq
     (sbind (sread (find_user_room u)) (\<lambda>room. case room of
        None \<Rightarrow> sreturn ()
      | Some ref \<Rightarrow> sbind (sread (\<lambda>w. find_user_by_name (w_users w) name (w_rooms w ref))) (\<lambda>taken.
          if taken \<noteq> None then throw_chat USER_NICKNAME_TAKEN
          else sbind (get_room ref (\<lambda>r. is_game_active r \<and> find_player u r \<noteq> None)) (\<lambda>busy.
            if busy then throw_chat NOT_ALLOWED_DURING_GAME
            else sbind (sread (\<lambda>w. u_name (w_users w u))) (\<lambda>old.
              at_room ref (broadcast_message (''[~] '' @ old @ '' is now known as '' @ name @ ''.'')))))))
     (modify_user_object u (set_nickname name))"

end
