(* ===== verification/Room_Commands.thy ===== *)
theory Room_Commands
  imports Server_Manager
begin

section \<open>Commands (module server\_daemon)\<close>

text \<open>
  The command executors of server\_daemon/src/commands.cpp. A room executor runs on a room, the user
  that sent the command and its arguments; a global executor on a connection and the arguments.
  The lambdas are the constructors of \<open>room_executor\<close> and \<open>global_executor\<close>, the command maps are
  those of Command\_Line, and \<open>exec_room\<close> and \<open>exec_global\<close> run them.

  What the outside world supplies to a packet (clock readings, random draws, uninitialised memory,
  the third-party string functions) is the record \<open>outside\<close>. The log lines are left out.
\<close>

record outside =
  o_print_uuid :: "128 word \<Rightarrow> string"
  o_split :: "string \<Rightarrow> string list"
  o_trim :: "string \<Rightarrow> string"
  o_room_draws :: "(nat \<Rightarrow> nat) list"
  o_name_draws :: "nat \<Rightarrow> nat"
  o_created :: int
  o_now :: int
  o_started :: bool
  o_signals :: "nat \<Rightarrow> 64 word"
  o_simon :: session_id

abbreviation o_game :: "outside \<Rightarrow> simon controller" where
  "o_game E \<equiv> simon_controller (o_trim E)"

definition world_name :: "session_id \<Rightarrow> world \<Rightarrow> string" where
  "world_name u w = u_name (w_users w u)"

definition quoted :: "string \<Rightarrow> string" where
  "quoted s = [CHR 0x27] @ s @ [CHR 0x27]"

text \<open>\<open>user != *room.owner()\<close>.\<close>

definition require_owner :: "nat \<Rightarrow> session_id \<Rightarrow> string \<Rightarrow> unit world_op \<Rightarrow> unit world_op" where
  "require_owner ref u complaint m = sbind (get_room ref r_owner) (\<lambda>ow. case ow of
     None \<Rightarrow> undefined_behaviour Null_deref
   | Some v \<Rightarrow> if u \<noteq> v then say_error u complaint else m)"

definition require_loaded :: "nat \<Rightarrow> session_id \<Rightarrow> unit world_op \<Rightarrow> unit world_op" where
  "require_loaded ref u m = sbind (get_room ref is_game_loaded) (\<lambda>loaded.
     if \<not> loaded then say_error u ''This room isn't playing a game. Use /load to select a game.'' else m)"

subsection \<open>Room commands\<close>

definition member_label :: "session_id option \<Rightarrow> session_id \<Rightarrow> member \<Rightarrow> string" where
  "member_label owner v m =
     (if owner = Some v then '' [owner]''
      else if is_disqualified m then '' [spectator|disqualified]''
      else if is_waitlisted m then '' [spectator|waitlisted]''
      else if is_spectator m then '' [spectator]''
      else [])"

definition cmd_members :: "nat \<Rightarrow> session_id \<Rightarrow> unit world_op" where
  "cmd_members ref u = sseq (say u ''Members:'')
     (sbind (get_room ref (\<lambda>r. (r_owner r, r_users r))) (\<lambda>(owner, us). sfor us (\<lambda>e.
        sbind (get_room ref (find_member (snd e))) (\<lambda>m. case m of
          None \<Rightarrow> undefined_behaviour Use_after_free
        | Some m \<Rightarrow> sbind (sread (world_name (snd e))) (\<lambda>n.
            say u ('' - '' @ n @ member_label owner (snd e) m))))))"

definition cmd_room :: "nat \<Rightarrow> session_id \<Rightarrow> unit world_op" where
  "cmd_room ref u = sbind (get_room ref id) (\<lambda>r. sseqs [
     say u (''Room:       '' @ r_id r),
     say u (''Players:    '' @ dec (unat (player_count r)) @ '' / '' @ dec (unat (r_player_limit r))),
     say u (''Spectators: '' @ dec (unat (spectator_count r)) @ '' / '' @ dec (unat (r_spectator_limit r)))])"

definition cmd_nick :: "session_id \<Rightarrow> string list \<Rightarrow> unit world_op" where
  "cmd_nick u args =
     (if length args \<noteq> 1 then say_error u ''Invalid command usage. Example: /nick name_100''
      else case parse_nickname (hd args) of
        None \<Rightarrow> say_error u ''Invalid nickname.''
      | Some n \<Rightarrow> catch_chat
          (sbind (sread (manager_find_user u)) (\<lambda>v. case v of
             None \<Rightarrow> undefined_behaviour Null_deref
           | Some v \<Rightarrow> user_set_nickname v n))
          (\<lambda>ex. say_error u (ce_what ex)))"

definition cmd_kick :: "simon controller \<Rightarrow> nat \<Rightarrow> session_id \<Rightarrow> string list \<Rightarrow> unit world_op" where
  "cmd_kick K ref u args =
     (if length args \<noteq> 1 then say_error u ''Invalid command usage. Example: /kick john''
      else require_owner ref u ''You must be a room owner to kick out a user.''
        (case parse_nickname (hd args) of
           None \<Rightarrow> say_error u (''Invalid name '' @ quoted (hd args) @ ''.'')
         | Some n \<Rightarrow> sbind (sread (\<lambda>w. find_user_by_name (w_users w) n (w_rooms w ref))) (\<lambda>p. case p of
             None \<Rightarrow> say_error u (''User '' @ quoted (hd args) @ '' is not in the room.'')
           | Some v \<Rightarrow>
               if u = v then say_error u ''You cannot kick yourself. Use can /leave to exit the room.''
               else sseq (at_room ref (remove_user K v)) (say u (''You kicked out '' @ n @ ''.'')))))"

definition cmd_option :: "simon controller \<Rightarrow> nat \<Rightarrow> session_id \<Rightarrow> string list \<Rightarrow> unit world_op" where
  "cmd_option K ref u args =
     (if length args \<noteq> 2 then say_error u ''Invalid command usage. Example: /option leader john_smith''
      else require_owner ref u ''You must be a room owner to change an option.''
        (require_loaded ref u
          (sbind (at_room ref (game_option K (args ! 0) (args ! 1))) (\<lambda>result. case result of
             Ok_result _ \<Rightarrow> sreturn ()
           | Error_result e \<Rightarrow> say_error u e))))"

definition cmd_options :: "simon controller \<Rightarrow> nat \<Rightarrow> session_id \<Rightarrow> string list \<Rightarrow> unit world_op" where
  "cmd_options K ref u args =
     (if args \<noteq> [] then say_error u ''Invalid command usage. Example: /options''
      else require_owner ref u ''You must be a room owner to see the option.''
        (require_loaded ref u
          (sbind (at_room ref (sbind game (\<lambda>_. k_list_option_descriptions K))) (\<lambda>options.
             if options = [] then say u ''This game doesn't have any options.''
             else sseq (say u ''Options:'') (sfor options (\<lambda>option.
               say u (''    '' @ quoted (fst option) @ '' -- '' @ snd option)))))))"

definition cmd_load :: "simon controller \<Rightarrow> session_id \<Rightarrow> nat \<Rightarrow> session_id \<Rightarrow> string list \<Rightarrow> unit world_op" where
  "cmd_load K junk ref u args =
     (if length args \<noteq> 1 then say_error u ''Invalid command usage. Example: /load simon''
      else require_owner ref u ''You must be a room owner to load a game.''
        (if hd args \<noteq> ''simon'' then say_error u ''Unknown game.''
         else sseqs [
           at_room ref (load_game K (new_simon junk)),
           say u ''The game was loaded successfully.'',
           say u ''Use /options to see the game options.'',
           say u ''Use /start to start the game.'']))"

definition cmd_end :: "nat \<Rightarrow> session_id \<Rightarrow> string list \<Rightarrow> unit world_op" where
  "cmd_end ref u args =
     (if args \<noteq> [] then say_error u ''Invalid command usage. Example: /end''
      else require_owner ref u ''You must be a room owner to end a game.''
        (require_loaded ref u
          (sseq (at_room ref (modify_room end_game))
            (sbind (sread (world_name u)) (\<lambda>n.
               at_room ref (broadcast_message (n @ '' ended the game.'')))))))"

definition cmd_start :: "simon controller \<Rightarrow> nat \<Rightarrow> session_id \<Rightarrow> string list \<Rightarrow> unit world_op" where
  "cmd_start K ref u args =
     (if args \<noteq> [] then say_error u ''Invalid command usage. Example: /start''
      else require_owner ref u ''You must be a room owner to start a game.''
        (require_loaded ref u
          (catch_game
            (sseq (at_room ref (start_game K)) (say u ''Started the game. Good luck, and have fun!''))
            (\<lambda>ex. say_error u (''Failed to start the game. '' @ ge_what ex)))))"

fun exec_room :: "outside \<Rightarrow> room_executor \<Rightarrow> nat \<Rightarrow> session_id \<Rightarrow> string list \<Rightarrow> unit world_op" where
  "exec_room E Exec_members ref u args = cmd_members ref u"
| "exec_room E Exec_room ref u args = cmd_room ref u"
| "exec_room E Exec_nick ref u args = cmd_nick u args"
| "exec_room E Exec_kick ref u args = cmd_kick (o_game E) ref u args"
| "exec_room E Exec_option ref u args = cmd_option (o_game E) ref u args"
| "exec_room E Exec_options ref u args = cmd_options (o_game E) ref u args"
| "exec_room E Exec_load ref u args = cmd_load (o_game E) (o_simon E) ref u args"
| "exec_room E Exec_end ref u args = cmd_end ref u args"
| "exec_room E Exec_start ref u args = cmd_start (o_game E) ref u args"

subsection \<open>Registration\<close>

fun insert_commands :: "(string \<times> 'x) list \<Rightarrow> 'x command_map \<Rightarrow> exn + 'x command_map" where
  "insert_commands [] m = Inr m"
| "insert_commands ((s, x) # es) m = (case command_map_insert_literal s x m of
     Inl e \<Rightarrow> Inl e
   | Inr m' \<Rightarrow> insert_commands es m')"

definition init_room_commands :: "room_executor command_map \<Rightarrow> exn + room_executor command_map" where
  "init_room_commands = insert_commands [
     (''members'', Exec_members), (''room'', Exec_room), (''nick'', Exec_nick), (''kick'', Exec_kick),
     (''option'', Exec_option), (''options'', Exec_options), (''load'', Exec_load), (''end'', Exec_end),
     (''start'', Exec_start)]"

datatype global_executor =
  Global_stub string | Global_ping | Global_clear | Global_whoami | Global_create | Global_join | Global_leave

definition init_global_commands :: "global_executor command_map \<Rightarrow> exn + global_executor command_map" where
  "init_global_commands = insert_commands [
     (''nick'', Global_stub ''nick''), (''kick'', Global_stub ''kick''), (''members'', Global_stub ''members''),
     (''ping'', Global_ping), (''clear'', Global_clear), (''whoami'', Global_whoami), (''create'', Global_create),
     (''join'', Global_join), (''leave'', Global_leave)]"

subsection \<open>Global commands\<close>

definition stub_room_only :: "string \<Rightarrow> session_id \<Rightarrow> unit world_op" where
  "stub_room_only name u = say u (''You need to be in a room to use /'' @ name)"

text \<open>\<open>auto user = manager.find_user(connection.id())\<close>, then dereferenced.\<close>

definition with_user :: "session_id \<Rightarrow> (session_id \<Rightarrow> unit world_op) \<Rightarrow> unit world_op" where
  "with_user u m = sbind (sread (manager_find_user u)) (\<lambda>v. case v of
     None \<Rightarrow> undefined_behaviour Null_deref | Some v \<Rightarrow> m v)"

definition cmd_whoami :: "session_id \<Rightarrow> unit world_op" where
  "cmd_whoami u = with_user u (\<lambda>v. sbind (sread (\<lambda>w. w_users w v)) (\<lambda>x. sseqs [
     say v (''You are: '' @ u_name x),
     say v (''Games:   '' @ dec (unat (ps_games (u_stats x)))),
     say v (''Wins:    '' @ dec (unat (ps_wins (u_stats x))))]))"

definition set_room_commands :: "nat \<Rightarrow> unit world_op" where
  "set_room_commands ref = sbind (get_room ref r_commands) (\<lambda>m. case init_room_commands m of
     Inl e \<Rightarrow> sthrow e
   | Inr m' \<Rightarrow> at_room ref (modify_room (\<lambda>r. r\<lparr>r_commands := m'\<rparr>)))"

definition cmd_create :: "outside \<Rightarrow> session_id \<Rightarrow> unit world_op" where
  "cmd_create E u = sbind (sread (find_user_room u)) (\<lambda>cur.
     if cur \<noteq> None then say_error u ''You need to leave your room before you can create another one.''
     else sbind (create_room (o_room_draws E) (o_created E) (o_started E) (o_signals E)) (\<lambda>ref. sseqs [
       set_room_commands ref,
       sbind (get_room ref r_id) (\<lambda>code. say u (''Your room is: '' @ code)),
       with_user u (\<lambda>v. user_join_room (o_print_uuid E) (o_name_draws E) (o_now E) v ref)]))"

definition cmd_join :: "outside \<Rightarrow> session_id \<Rightarrow> string list \<Rightarrow> unit world_op" where
  "cmd_join E u args = sbind (sread (find_user_room u)) (\<lambda>cur.
     if cur \<noteq> None then say_error u ''You need to leave your room before you can join another one.''
     else if length args \<noteq> 1 then say_error u ''Invalid command usage. Example: /join ABCDE''
     else case parse_room_id (hd args) of
       None \<Rightarrow> say_error u (''Invalid room code. Example: '' @ quoted ''ABCDE'')
     | Some code \<Rightarrow> sbind (sread (find_room code)) (\<lambda>room. case room of
         None \<Rightarrow> say_error u (''['' @ hd args @ ''] The room does not exist.'')
       | Some ref \<Rightarrow> catch_chat
           (sseq (with_user u (\<lambda>v. user_join_room (o_print_uuid E) (o_name_draws E) (o_now E) v ref))
             (sbind (get_room ref r_id) (\<lambda>c. say u (''You joined '' @ quoted c @ ''.''))))
           (\<lambda>ex. say_error u (''['' @ hd args @ ''] '' @ ce_what ex))))"

definition cmd_leave :: "outside \<Rightarrow> session_id \<Rightarrow> unit world_op" where
  "cmd_leave E u = sbind (sread (find_user_room u)) (\<lambda>cur.
     if cur = None then say_error u ''You are not in any room.''
     else with_user u (\<lambda>v. sbind (sread (find_user_room v)) (\<lambda>room. case room of
       None \<Rightarrow> undefined_behaviour Null_deref
     | Some ref \<Rightarrow> sseq (user_leave_room (o_game E) v ref)
         (sbind (get_room ref r_id) (\<lambda>c. say u (''You left '' @ quoted c @ ''.''))))))"

fun exec_global :: "outside \<Rightarrow> global_executor \<Rightarrow> session_id \<Rightarrow> string list \<Rightarrow> unit world_op" where
  "exec_global E (Global_stub name) u args = stub_room_only name u"
| "exec_global E Global_ping u args = say u ''Pong.''"
| "exec_global E Global_clear u args = say u ''/clear''"
| "exec_global E Global_whoami u args = cmd_whoami u"
| "exec_global E Global_create u args = cmd_create E u"
| "exec_global E Global_join u args = cmd_join E u args"
| "exec_global E Global_leave u args = cmd_leave E u"

end
