(* ===== verification/Server_Daemon.thy ===== *)
theory Server_Daemon
  imports Room_Commands
begin

section \<open>The server daemon (modules server\_daemon and server)\<close>

text \<open>
  server\_daemon/src/chatserver.cpp, \<open>Room::process_command\<close>, the client registry of
  server/src/Server.cpp and the loop of server/src/ServerLoop.cpp: how a packet becomes a command or
  a chat message, what a tick does, and which exceptions end the server. \<open>G\<close> is the global command
  map, filled once at startup.
\<close>

subsection \<open>Packets\<close>

text \<open>\<open>commands\<close> is consulted twice and \<open>protected_commands\<close> never.\<close>

definition room_process_command :: "outside \<Rightarrow> nat \<Rightarrow> session_id \<Rightarrow> command \<Rightarrow> bool world_op" where
  "room_process_command E ref u c = sbind (get_room ref (find_member u)) (\<lambda>m. case m of
     None \<Rightarrow> sreturn False
   | Some m \<Rightarrow> sbind (get_room ref (\<lambda>r. command_map_find (r_commands r) (cmd_name c))) (\<lambda>x. case x of
       Some ex \<Rightarrow> sseq (exec_room E ex ref u (cmd_arguments c)) (sreturn True)
     | None \<Rightarrow> sbind (get_room ref is_game_active) (\<lambda>active.
         sbind (if active then at_room ref (on_game (if is_player m \<and> \<not> is_disqualified m
                  then k_player_command (o_game E) u c else k_spectator_command (o_game E) u c))
                else sreturn DEFAULT) (\<lambda>result.
         if result = INTERCEPTED then sreturn True
         else sbind (get_room ref (\<lambda>r. command_map_find (r_commands r) (cmd_name c))) (\<lambda>y. case y of
             Some ex \<Rightarrow> sseq (exec_room E ex ref u (cmd_arguments c)) (sreturn True)
           | None \<Rightarrow> sreturn False)))))"

definition process_command ::
  "global_executor command_map \<Rightarrow> outside \<Rightarrow> session_id \<Rightarrow> command \<Rightarrow> unit world_op"
where
  "process_command G E u c = sbind (sread (find_user_room u)) (\<lambda>room.
     sbind (case room of None \<Rightarrow> sreturn False | Some ref \<Rightarrow> room_process_command E ref u c) (\<lambda>handled.
     if handled then sreturn ()
     else case command_map_find G (cmd_name c) of
       None \<Rightarrow> say_error u ''Unknown command. Use /help to see a list of commands.''
     | Some ex \<Rightarrow> exec_global E ex u (cmd_arguments c)))"

definition process_text :: "outside \<Rightarrow> session_id \<Rightarrow> string \<Rightarrow> unit world_op" where
  "process_text E u message = sbind (sread (find_user_room u)) (\<lambda>room. case room of
     None \<Rightarrow> say u ''You need to be in a room to send a message! /create or /join a room.''
   | Some ref \<Rightarrow> sseq (at_room ref (process_message (o_game E) u message)) (sreturn ()))"

definition process_packet ::
  "global_executor command_map \<Rightarrow> outside \<Rightarrow> session_id \<Rightarrow> string \<Rightarrow> unit world_op"
where
  "process_packet G E u text =
     (if \<not> is_command text then process_text E u text
      else case parse_command (o_split E) text of
        Inl e \<Rightarrow> sthrow e
      | Inr None \<Rightarrow> say_error u ''Invalid command. Use /help to see a list of commands.''
      | Inr (Some c) \<Rightarrow> catch_runtime (process_command G E u c)
          (\<lambda>_. say_error u ''An internal error occurred.''))"

subsection \<open>Connections and ticks\<close>

definition greet_user :: "session_id \<Rightarrow> unit world_op" where
  "greet_user u = say u ''Welcome to the server. /create or /join a room to get started!''"

definition make_user :: "(128 word \<Rightarrow> string) \<Rightarrow> session_id \<Rightarrow> unit world_op" where
  "make_user print_uuid u = (case new_user print_uuid u of
     Inl e \<Rightarrow> sthrow e
   | Inr x \<Rightarrow> modify_user_object u (\<lambda>_. x))"

definition accept_connection :: "outside \<Rightarrow> session_id \<Rightarrow> unit world_op" where
  "accept_connection E u = sseqs [greet_user u, make_user (o_print_uuid E) u, manager_add_user u]"

definition process_disconnect :: "simon controller \<Rightarrow> session_id \<Rightarrow> unit world_op" where
  "process_disconnect K u = sbind (sread (manager_find_user u)) (\<lambda>user. case user of
     None \<Rightarrow> sreturn ()
   | Some v \<Rightarrow> manager_remove_user K v)"

definition server_tick ::
  "global_executor command_map \<Rightarrow> outside \<Rightarrow> session_id list \<Rightarrow> (session_id \<times> (outside \<times> string) list) list \<Rightarrow>
     unit world_op"
where
  "server_tick G E disconnected clients = sseqs [
     sfor disconnected (process_disconnect (o_game E)),
     sfor clients (\<lambda>(u, packets). sfor packets (\<lambda>(E', text). process_packet G E' u text)),
     sbind (sread rooms) (\<lambda>rs. sfor rs (\<lambda>ref. at_room ref (update_game (o_game E))))]"

text \<open>The life of the server: the handlers of accepted connections and the steps of the ticks, in
  the order in which they happen; an exception that leaves one of them ends the process.\<close>

datatype server_event =
    Accept outside session_id
  | Disconnected outside session_id
  | Packet outside session_id string
  | Update_games outside

fun server_step :: "global_executor command_map \<Rightarrow> server_event \<Rightarrow> unit world_op" where
  "server_step G (Accept E u) = accept_connection E u"
| "server_step G (Disconnected E u) = process_disconnect (o_game E) u"
| "server_step G (Packet E u text) = process_packet G E u text"
| "server_step G (Update_games E) = sbind (sread rooms) (\<lambda>rs. sfor rs (\<lambda>ref. at_room ref (update_game (o_game E))))"

definition server_run :: "global_executor command_map \<Rightarrow> server_event list \<Rightarrow> unit world_op" where
  "server_run G es = sfor es (server_step G)"

definition tick_events ::
  "outside \<Rightarrow> session_id list \<Rightarrow> (session_id \<times> (outside \<times> string) list) list \<Rightarrow> server_event list"
where
  "tick_events E disconnected clients = map (Disconnected E) disconnected @
     concat (map (\<lambda>(u, packets). map (\<lambda>(E', text). Packet E' u text) packets) clients) @ [Update_games E]"

subsection \<open>The client registry\<close>

record registry =
  g_clients :: "session_id list"
  g_closed :: "session_id list"

text \<open>\<open>Server\<close> keeps the clients by connection id; \<open>on_close\<close> has one listener, which appends the
  id to the list the next tick works off (\<open>g_closed\<close>).\<close>

definition registry_accept :: "session_id \<Rightarrow> registry \<Rightarrow> registry" where
  "registry_accept u g = (if u \<in> set (g_clients g) then g else g\<lparr>g_clients := g_clients g @ [u]\<rparr>)"

definition find_client :: "session_id \<Rightarrow> registry \<Rightarrow> session_id option" where
  "find_client u g = find_in_map (map_of (map (\<lambda>v. (v, v)) (g_clients g))) u"

definition disconnect :: "session_id \<Rightarrow> registry \<Rightarrow> registry" where
  "disconnect u g =
     (if u \<notin> set (g_clients g) then g
      else g\<lparr>g_closed := g_closed g @ [u], g_clients := filter (\<lambda>v. v \<noteq> u) (g_clients g)\<rparr>)"

text \<open>The close handler of a socket locks a weak pointer to the connection: it is null once nothing
  else holds the connection.\<close>

definition socket_closed :: "bool \<Rightarrow> session_id \<Rightarrow> (registry, unit) op" where
  "socket_closed alive u =
     (if \<not> alive then undefined_behaviour Null_deref
      else sbind (sread (find_client u)) (\<lambda>c. swhen (c \<noteq> None) (smodify (disconnect u))))"

subsection \<open>The loop\<close>

record loop =
  lp_tick_rate :: "64 word"
  lp_running :: bool
  lp_started :: bool

definition new_loop :: loop where
  "new_loop = \<lparr>lp_tick_rate = 10, lp_running = False, lp_started = False\<rparr>"

text \<open>A weak compare-and-exchange may fail although the values agree (\<open>spurious\<close>).\<close>

definition exchange_weak :: "bool \<Rightarrow> bool \<Rightarrow> bool \<Rightarrow> bool" where
  "exchange_weak spurious current expected \<longleftrightarrow> \<not> spurious \<and> current = expected"

definition loop_start :: "bool \<Rightarrow> bool \<Rightarrow> (loop, unit) op" where
  "loop_start spurious1 spurious2 = sbind (sread lp_running) (\<lambda>running.
     if \<not> exchange_weak spurious1 running False then sthrow (Runtime_exn ''The server is already running.'')
     else sseqs [
       smodify (\<lambda>l. l\<lparr>lp_running := True\<rparr>),
       smodify (\<lambda>l. if exchange_weak spurious2 (lp_started l) False then l\<lparr>lp_started := True\<rparr> else l)])"

definition loop_stop :: "bool \<Rightarrow> loop \<Rightarrow> loop" where
  "loop_stop spurious l = (if exchange_weak spurious (lp_running l) True then l\<lparr>lp_running := False\<rparr> else l)"

definition tick_delay :: "loop \<Rightarrow> int" where
  "tick_delay l = int (unat (1000 div lp_tick_rate l))"

text \<open>One round of \<open>_main\<close>: \<open>Some d\<close> when it sleeps \<open>d\<close> microseconds, \<open>None\<close> when it is late.\<close>

definition loop_round :: "('w, unit) op \<Rightarrow> int \<Rightarrow> loop \<Rightarrow> ('w, int option) op" where
  "loop_round tick elapsed l = sseq tick
     (sreturn (if elapsed \<ge> tick_delay l then None else Some ((tick_delay l - elapsed) * 1000)))"

end
