(* ===== verification/Server_Properties.thy ===== *)
theory Server_Properties
  imports Server_Daemon
begin

section \<open>Properties of the server\<close>

text \<open>
  The room invariant is lifted to the server: \<open>rooms_ok\<close> holds of the world when every room object
  satisfies it and no room code is used twice. Every event keeps it, as long as a packet is processed
  at a clock reading at which no present member joined. Then the ways out of the server's loop:
  what a departure, a kick, a nickname and an uninitialised flag do to it.
\<close>

subsection \<open>Predicates before and after an action\<close>

text \<open>\<open>leads P m Q\<close>: from a state that satisfies \<open>P\<close> the action leaves one that satisfies \<open>Q\<close>,
  whether it returns or throws.\<close>

definition leads :: "('s \<Rightarrow> bool) \<Rightarrow> ('s, 'e, 'a) action \<Rightarrow> ('s \<Rightarrow> bool) \<Rightarrow> bool" where
  "leads P m Q \<longleftrightarrow> (\<forall>s. P s \<longrightarrow> Q (snd (m s)))"

lemma leadsI: "(\<And>s. P s \<Longrightarrow> Q (snd (m s))) \<Longrightarrow> leads P m Q"
  by (simp add: leads_def)

lemma leadsD: "leads P m Q \<Longrightarrow> P s \<Longrightarrow> Q (snd (m s))"
  by (simp add: leads_def)

lemma leads_keep: "preserves P m \<Longrightarrow> (\<And>s. P s \<Longrightarrow> Q s) \<Longrightarrow> leads P m Q"
  by (simp add: leads_def preserves_def)

lemma leads_bind:
  assumes "preserves P m" and "\<And>s. P s \<Longrightarrow> Q s" and "\<And>a. leads P (f a) Q"
  shows "leads P (sbind m f) Q"
proof (rule leadsI)
  fix s
  assume p: "P s"
  obtain r s' where m: "m s = (r, s')" by fastforce
  have "P s'" using preservesD' [OF assms(1) p m] .
  then show "Q (snd (sbind m f s))"
    using assms(2) leadsD [OF assms(3)] by (cases r) (simp_all add: sbind_def m)
qed

lemma leads_then:
  assumes "leads P m Q" and "\<And>a. preserves Q (f a)"
  shows "leads P (sbind m f) Q"
proof (rule leadsI)
  fix s
  assume p: "P s"
  obtain r s' where m: "m s = (r, s')" by fastforce
  have "Q s'" using leadsD [OF assms(1) p] m by simp
  then show "Q (snd (sbind m f s))"
    using preservesD [OF assms(2)] by (cases r) (simp_all add: sbind_def m)
qed

lemma leads_if: "leads P m Q \<Longrightarrow> leads P n Q \<Longrightarrow> leads P (if b then m else n) Q"
  by simp

lemma leads_catch_chat:
  assumes "leads P m Q" and "\<And>x. preserves Q (h x)"
  shows "leads P (catch_chat m h) Q"
proof (rule leadsI)
  fix s
  assume p: "P s"
  obtain r s' where m: "m s = (r, s')" by fastforce
  have "Q s'" using leadsD [OF assms(1) p] m by simp
  then show "Q (snd (catch_chat m h s))"
    using preservesD [OF assms(2)]
    by (cases r) (auto simp: catch_chat_def scatch_def m sthrow_def split: exn.split)
qed

lemma leads_catch_runtime:
  assumes "leads P m Q" and "\<And>x. preserves Q (h x)"
  shows "leads P (catch_runtime m h) Q"
proof (rule leadsI)
  fix s
  assume p: "P s"
  obtain r s' where m: "m s = (r, s')" by fastforce
  have "Q s'" using leadsD [OF assms(1) p] m by simp
  then show "Q (snd (catch_runtime m h s))"
    using preservesD [OF assms(2)]
    by (cases r) (auto simp: catch_runtime_def scatch_def m sthrow_def split: exn.split)
qed

subsection \<open>The invariant of the rooms\<close>

definition rooms_ok :: "world \<Rightarrow> bool" where
  "rooms_ok w \<longleftrightarrow> (\<forall>ref. room_inv (w_rooms w ref)) \<and> distinct (map fst (w_room_codes w))"

definition rooms_fresh :: "int \<Rightarrow> world \<Rightarrow> bool" where
  "rooms_fresh now w \<longleftrightarrow> rooms_ok w \<and> (\<forall>ref. now \<notin> sinces (w_rooms w ref))"

lemma fresh_ok: "rooms_fresh now w \<Longrightarrow> rooms_ok w"
  by (simp add: rooms_fresh_def)

text \<open>A predicate on worlds that only looks at the rooms and their codes.\<close>

definition on_rooms :: "((nat \<Rightarrow> simon room) \<Rightarrow> (string \<times> nat) list \<Rightarrow> bool) \<Rightarrow> world \<Rightarrow> bool" where
  "on_rooms P w \<longleftrightarrow> P (w_rooms w) (w_room_codes w)"

lemma rooms_ok_on: "rooms_ok = on_rooms (\<lambda>rs codes. (\<forall>ref. room_inv (rs ref)) \<and> distinct (map fst codes))"
  by (rule ext) (simp add: rooms_ok_def on_rooms_def)

lemma rooms_fresh_on:
  "rooms_fresh now = on_rooms (\<lambda>rs codes. ((\<forall>ref. room_inv (rs ref)) \<and> distinct (map fst codes)) \<and>
     (\<forall>ref. now \<notin> sinces (rs ref)))"
  by (rule ext) (simp add: rooms_fresh_def rooms_ok_def on_rooms_def)

named_theorems world_keeps \<open>manager operations that keep a predicate on the rooms\<close>

lemma keeps_on_rooms:
  "(\<And>s. w_rooms (snd (m s)) = w_rooms s \<and> w_room_codes (snd (m s)) = w_room_codes s) \<Longrightarrow>
     preserves (on_rooms P) m"
  by (simp add: preserves_def on_rooms_def)

lemma keeps_say [world_keeps]: "preserves (on_rooms P) (say u m)"
  by (rule keeps_on_rooms) (simp add: say_def act_simps)

lemma keeps_say_error [world_keeps]: "preserves (on_rooms P) (say_error u m)"
  by (simp add: say_error_def keeps_say)

lemma keeps_user_object [world_keeps]: "preserves (on_rooms P) (modify_user_object u f)"
  by (rule keeps_on_rooms) (simp add: modify_user_object_def act_simps)

lemma keeps_get_room [world_keeps]: "preserves I (get_room ref f)"
  by (simp add: get_room_def pres_intros)

lemmas world_intros = world_keeps preserves_return preserves_throw preserves_read preserves_bind preserves_seq
  preserves_when preserves_for preserves_if preserves_option preserves_undefined preserves_throw_chat
  preserves_catch_chat preserves_catch_game preserves_catch_runtime

lemma keeps_rename_default [world_keeps]: "preserves (on_rooms P) (rename_default p u)"
  unfolding rename_default_def by (auto intro!: world_intros split: sum.split)

lemma keeps_give_nickname [world_keeps]: "preserves (on_rooms P) (give_nickname d u)"
  unfolding give_nickname_def by (auto intro!: world_intros split: sum.split)

lemma keeps_with_user [world_keeps]: "(\<And>v. preserves I (m v)) \<Longrightarrow> preserves I (with_user u m)"
  unfolding with_user_def by (auto intro!: world_intros)

lemma keeps_require_owner [world_keeps]:
  "preserves (on_rooms P) m \<Longrightarrow> preserves (on_rooms P) (require_owner ref u c m)"
  unfolding require_owner_def by (auto intro!: world_intros)

lemma keeps_require_loaded [world_keeps]:
  "preserves (on_rooms P) m \<Longrightarrow> preserves (on_rooms P) (require_loaded ref u m)"
  unfolding require_loaded_def by (auto intro!: world_intros)

lemma keeps_user_map [world_keeps]: "preserves (on_rooms P) (smodify (\<lambda>w. w\<lparr>w_user_room := f w\<rparr>))"
  "preserves (on_rooms P) (smodify (\<lambda>w. w\<lparr>w_known := g w\<rparr>))"
  by (rule keeps_on_rooms, simp add: act_simps)+

text \<open>An operation on one room.\<close>

lemma put_ctx_rooms [simp]:
  "w_rooms (put_ctx ref s w) = (w_rooms w)(ref := c_room s)"
  "w_room_codes (put_ctx ref s w) = w_room_codes w" "w_next_room (put_ctx ref s w) = w_next_room w"
  "w_user_room (put_ctx ref s w) = w_user_room w" "w_known (put_ctx ref s w) = w_known w"
  "w_users (put_ctx ref s w) = c_users s" "w_sent (put_ctx ref s w) = c_sent s"
  by (simp_all add: put_ctx_def)

lemma room_ctx_fields [simp]: "c_room (room_ctx ref w) = w_rooms w ref" "c_users (room_ctx ref w) = w_users w"
  "c_sent (room_ctx ref w) = w_sent w"
  by (simp_all add: room_ctx_def)

lemma at_room_run: "at_room ref m w = (fst (m (room_ctx ref w)), put_ctx ref (snd (m (room_ctx ref w))) w)"
  by (simp add: at_room_def case_prod_unfold)

lemma at_room_leads:
  assumes "leads (on_room (\<lambda>r. room_inv r \<and> now \<notin> sinces r)) m (on_room room_inv)"
  shows "leads (rooms_fresh now) (at_room ref m) rooms_ok"
proof (rule leadsI)
  fix w
  assume "rooms_fresh now w"
  then show "rooms_ok (snd (at_room ref m w))"
    using leadsD [OF assms, of "room_ctx ref w"]
    by (simp add: at_room_run rooms_fresh_def rooms_ok_def on_room_def)
qed

lemma at_room_keeps:
  assumes "preserves (on_room room_inv) m"
  shows "preserves rooms_ok (at_room ref m)"
proof (rule preservesI)
  fix w
  assume "rooms_ok w"
  then show "rooms_ok (snd (at_room ref m w))"
    using preservesD [OF assms, of "room_ctx ref w"]
    by (simp add: at_room_run rooms_ok_def on_room_def)
qed

lemma keeps_broadcast [world_keeps]: "preserves rooms_ok (at_room ref (broadcast_message msg))"
  by (rule at_room_keeps) (rule preserves_broadcast)

lemma keeps_destroy [world_keeps]: "preserves rooms_ok (destroy_room ref)"
proof (rule preservesI)
  fix w
  assume "rooms_ok w"
  moreover have "distinct (map fst xs) \<Longrightarrow> distinct (map fst (filter P xs))" for P and xs :: "(string \<times> nat) list"
    by (induction xs) auto
  ultimately show "rooms_ok (snd (destroy_room ref w))"
    by (simp add: destroy_room_def act_simps rooms_ok_def)
qed

lemma keeps_leave [world_keeps]: "preserves rooms_ok (user_leave_room (simon_controller trim) u ref)"
  unfolding user_leave_room_def
  by (auto intro!: pres_intros keeps_user_map [of "\<lambda>rs codes. (\<forall>ref. room_inv (rs ref)) \<and> distinct (map fst codes)",
        folded rooms_ok_on] keeps_get_room keeps_destroy at_room_keeps simon.remove_user_inv)

text \<open>\<open>world_intros\<close> for the invariant itself: what keeps every predicate on the rooms keeps it.\<close>

abbreviation codes_ok :: "(nat \<Rightarrow> simon room) \<Rightarrow> (string \<times> nat) list \<Rightarrow> bool" where
  "codes_ok \<equiv> \<lambda>rs codes. (\<forall>ref. room_inv (rs ref)) \<and> distinct (map fst codes)"

lemmas ok_intros = keeps_say [where P = codes_ok, folded rooms_ok_on] keeps_say_error [where P = codes_ok, folded rooms_ok_on]
  keeps_user_object [where P = codes_ok, folded rooms_ok_on] keeps_rename_default [where P = codes_ok, folded rooms_ok_on]
  keeps_give_nickname [where P = codes_ok, folded rooms_ok_on] keeps_user_map(1) [where P = codes_ok, folded rooms_ok_on] keeps_user_map(2) [where P = codes_ok, folded rooms_ok_on]
  keeps_require_owner [where P = codes_ok, folded rooms_ok_on] keeps_require_loaded [where P = codes_ok, folded rooms_ok_on]
  keeps_get_room keeps_with_user keeps_broadcast keeps_destroy keeps_leave preserves_return preserves_throw
  preserves_read preserves_bind preserves_seq preserves_when preserves_for preserves_if preserves_option
  preserves_undefined preserves_throw_chat preserves_catch_chat preserves_catch_game preserves_catch_runtime

lemma keeps_set_nickname: "preserves rooms_ok (user_set_nickname u n)"
  unfolding user_set_nickname_def by (auto intro!: ok_intros)

lemma keeps_exec_room: "preserves rooms_ok (exec_room E x ref u args)"
proof (cases x)
  case Exec_members
  then show ?thesis by (auto simp: cmd_members_def intro!: ok_intros split: prod.split)
next
  case Exec_room
  then show ?thesis by (auto simp: cmd_room_def intro!: ok_intros)
next
  case Exec_nick
  then show ?thesis by (auto simp: cmd_nick_def intro!: ok_intros keeps_set_nickname)
next
  case Exec_kick
  then show ?thesis by (auto simp: cmd_kick_def intro!: ok_intros at_room_keeps simon.remove_user_inv)
next
  case Exec_option
  then show ?thesis
    by (auto simp: cmd_option_def intro!: ok_intros at_room_keeps simon.game_option_inv split: result.split)
next
  case Exec_options
  have "preserves (on_room room_inv) (sbind game (\<lambda>_. k_list_option_descriptions (o_game E)))"
    by (auto simp: game_def simon_controller_def simon_list_option_descriptions_def intro!: pres_intros)
  then show ?thesis using Exec_options by (auto simp: cmd_options_def intro!: ok_intros at_room_keeps)
next
  case Exec_load
  then show ?thesis by (auto simp: cmd_load_def intro!: ok_intros at_room_keeps simon.load_game_inv)
next
  case Exec_end
  have "preserves (on_room room_inv) (modify_room end_game :: (simon, unit) room_op)"
    by (intro preserves_modify_room room_inv_end_game)
  then show ?thesis using Exec_end by (auto simp: cmd_end_def intro!: ok_intros at_room_keeps)
next
  case Exec_start
  then show ?thesis by (auto simp: cmd_start_def intro!: ok_intros at_room_keeps simon.start_game_inv)
qed

subsection \<open>Joining\<close>

lemma add_user_leads: "leads (on_room (\<lambda>r. room_inv r \<and> now \<notin> sinces r)) (add_user now u how) (on_room room_inv)"
  by (rule leadsI) (rule add_user_inv, simp_all add: on_room_def)

lemma keeps_fresh_intros:
  "preserves (rooms_fresh now) (say u m)" "preserves (rooms_fresh now) (rename_default p u)"
  "preserves (rooms_fresh now) (give_nickname d u)"
  unfolding rooms_fresh_on by (rule keeps_say keeps_rename_default keeps_give_nickname)+

lemma join_leads: "leads (rooms_fresh (o_now E)) (user_join_room p d (o_now E) u ref) rooms_ok"
proof -
  let ?F = "rooms_fresh (o_now E)"
  have add: "leads ?F (at_room ref (add_user (o_now E) u AS_PLAYER_WAITING)) rooms_ok"
    by (rule at_room_leads) (rule add_user_leads)
  have tail: "leads ?F (sseqs [at_room ref (add_user (o_now E) u AS_PLAYER_WAITING),
      smodify (\<lambda>w. w\<lparr>w_user_room := f w\<rparr>)]) rooms_ok" for f
    unfolding sseqs.simps sseq_def by (rule leads_then [OF add]) (auto simp: sseq_def [symmetric] intro!: ok_intros)
  have step: "preserves ?F m \<Longrightarrow> leads ?F (sseqs ms) rooms_ok \<Longrightarrow> leads ?F (sseqs (m # ms)) rooms_ok"
    for m ms
    unfolding sseqs.simps sseq_def by (rule leads_bind) (simp_all add: fresh_ok)
  have no: "leads ?F (say u m) rooms_ok" for m
    by (rule leads_keep [OF keeps_fresh_intros(1)]) (rule fresh_ok)
  show ?thesis
    unfolding user_join_room_def
    by (rule leads_bind [OF preserves_read fresh_ok], assumption)
      (intro leads_if no step tail pres_intros keeps_fresh_intros)
qed

lemma room_inv_listeners: "room_inv (room_listeners (new_room now False sig code :: simon room))"
proof -
  have "room_inv (new_room now False sig code :: simon room)" by (rule room_inv_new)
  then show ?thesis
    using signal_free_inv [where 'a = simon] by (simp add: room_listeners_def signal_free_def)
qed

lemma pick_code_new: "pick_code draws codes = Inr c \<Longrightarrow> c \<notin> fst ` set codes"
  by (induction draws codes rule: pick_code.induct)
    (auto simp: map_of_eq_None_iff split: sum.splits if_splits)

lemma keeps_create: "preserves (rooms_fresh now) (create_room draws t False sig)"
proof (rule preservesI)
  fix w
  assume w: "rooms_fresh now w"
  have "now \<notin> sinces (room_listeners (new_room t False sig code) :: simon room)" for code
    by (simp add: sinces_def room_listeners_def new_room_def)
  then show "rooms_fresh now (snd (create_room draws t False sig w))"
    using w pick_code_new [of draws "w_room_codes w"] room_inv_listeners
    by (auto simp: create_room_def act_simps rooms_fresh_def rooms_ok_def split: sum.splits)
qed

lemma keeps_set_commands: "preserves (rooms_fresh now) (set_room_commands ref)"
proof (rule preservesI)
  fix w
  assume "rooms_fresh now w"
  moreover have "room_inv (r\<lparr>r_commands := c\<rparr>) = room_inv r" "sinces (r\<lparr>r_commands := c\<rparr>) = sinces r"
    for r :: "simon room" and c
    by (simp_all add: room_inv_def room_core_def owner_ok_def is_game_active_def is_game_loaded_def sinces_def
      cong: option.case_cong)
  ultimately show "rooms_fresh now (snd (set_room_commands ref w))"
    by (auto simp: set_room_commands_def get_room_def act_simps at_room_run modify_room_def rooms_fresh_def
      rooms_ok_def split: sum.splits)
qed

subsection \<open>Packets and ticks\<close>

lemma join_with_user:
  "leads (rooms_fresh (o_now E)) (with_user u (\<lambda>v. user_join_room p d (o_now E) v ref)) rooms_ok"
  unfolding with_user_def
  by (rule leads_bind [OF preserves_read fresh_ok], assumption)
    (auto simp: join_leads leads_keep preserves_undefined fresh_ok split: option.split)

lemma create_leads:
  assumes "\<not> o_started E"
  shows "leads (rooms_fresh (o_now E)) (cmd_create E u) rooms_ok"
proof -
  let ?F = "rooms_fresh (o_now E)"
  have err: "leads ?F (say_error u m) rooms_ok" for m
    unfolding say_error_def by (rule leads_keep [OF keeps_fresh_intros(1)]) (rule fresh_ok)
  have code: "preserves ?F (sbind (get_room ref r_id) (\<lambda>c. say u (''Your room is: '' @ c)))" for ref
    by (intro preserves_bind keeps_get_room keeps_fresh_intros)
  have last: "leads ?F (sseqs [with_user u (\<lambda>v. user_join_room p d (o_now E) v ref)]) rooms_ok" for p d ref
    unfolding sseqs.simps sseq_def by (rule leads_then [OF join_with_user]) (rule preserves_return)
  have rest: "leads ?F (sseqs [set_room_commands ref, sbind (get_room ref r_id) (\<lambda>c. say u (''Your room is: '' @ c)),
      with_user u (\<lambda>v. user_join_room p d (o_now E) v ref)]) rooms_ok" for p d ref
    unfolding sseqs.simps(2) [of "set_room_commands ref"] sseqs.simps(2) [of "sbind (get_room ref r_id) f" for f] sseq_def
    by (rule leads_bind [OF keeps_set_commands fresh_ok], assumption,
        rule leads_bind [OF code fresh_ok], assumption, rule last)
  have create: "preserves ?F (create_room (o_room_draws E) (o_created E) (o_started E) (o_signals E))"
    using assms keeps_create by simp
  show ?thesis
    unfolding cmd_create_def
    by (rule leads_bind [OF preserves_read fresh_ok], assumption,
        rule leads_if, rule err, rule leads_bind [OF create fresh_ok], assumption, rule rest)
qed

lemma cmd_join_leads: "leads (rooms_fresh (o_now E)) (cmd_join E u args) rooms_ok"
proof -
  let ?F = "rooms_fresh (o_now E)"
  have err: "leads ?F (say_error u m) rooms_ok" for m
    unfolding say_error_def by (rule leads_keep [OF keeps_fresh_intros(1)]) (rule fresh_ok)
  have join: "leads ?F (catch_chat (sseq (with_user u (\<lambda>v. user_join_room p d (o_now E) v ref)) m) (\<lambda>ex. say_error u (f ex))) rooms_ok"
    if "preserves rooms_ok m" for p d ref m f
    unfolding sseq_def by (rule leads_catch_chat, rule leads_then [OF join_with_user that]) (intro ok_intros)
  show ?thesis
    unfolding cmd_join_def
    by (rule leads_bind [OF preserves_read fresh_ok], assumption)
      (auto intro!: leads_if err join ok_intros leads_bind [OF preserves_read fresh_ok] split: option.split)
qed

lemma keeps_cmd_leave: "preserves rooms_ok (cmd_leave E u)"
  unfolding cmd_leave_def by (auto intro!: ok_intros)

lemma exec_global_leads:
  assumes "\<not> o_started E"
  shows "leads (rooms_fresh (o_now E)) (exec_global E x u args) rooms_ok"
proof -
  have keep: "leads (rooms_fresh (o_now E)) m rooms_ok" if "preserves rooms_ok m" for m :: "unit world_op"
    using that fresh_ok by (auto simp: leads_def preserves_def)
  show ?thesis
  proof (cases x)
    case Global_create
    then show ?thesis using create_leads [OF assms] by simp
  next
    case Global_join
    then show ?thesis using cmd_join_leads by simp
  next
    case Global_leave
    then show ?thesis using keep [OF keeps_cmd_leave] by simp
  next
    case Global_whoami
    have "preserves rooms_ok (cmd_whoami u)" unfolding cmd_whoami_def by (auto intro!: ok_intros)
    then show ?thesis using keep Global_whoami by simp
  qed (auto simp: stub_room_only_def intro!: keep ok_intros)
qed

lemma keeps_room_command: "preserves rooms_ok (room_process_command E ref u c)"
proof -
  have game: "preserves (on_room room_inv) (on_game (k_player_command (o_game E) u c))"
    "preserves (on_room room_inv) (on_game (k_spectator_command (o_game E) u c))"
    by (intro simon.on_game_inv simon.player_command_keeps simon.spectator_command_keeps)+
  show ?thesis
    unfolding room_process_command_def
    by (auto intro!: ok_intros keeps_exec_room at_room_keeps game)
qed

text \<open>A room that does not take the command leaves the map from users to rooms alone.\<close>

lemma room_command_declined:
  "room_process_command E ref u c w = (Inr False, w') \<Longrightarrow> w_user_room w' = w_user_room w"
  unfolding room_process_command_def
  by (auto simp: act_simps get_room_def at_room_run split: option.splits sum.splits prod.splits if_splits)

lemma exec_global_in_room:
  "leads (\<lambda>w. rooms_ok w \<and> find_user_room u w \<noteq> None) (exec_global E x u args) rooms_ok"
proof (rule leadsI)
  fix w
  assume w: "rooms_ok w \<and> find_user_room u w \<noteq> None"
  have keep: "rooms_ok (snd (m w))" if "preserves rooms_ok m" for m :: "unit world_op"
    using preservesD [OF that] w by blast
  show "rooms_ok (snd (exec_global E x u args w))"
  proof (cases x)
    case Global_create
    have "preserves rooms_ok (say_error u m)" for m by (intro ok_intros)
    then show ?thesis using w Global_create keep by (simp add: cmd_create_def act_simps)
  next
    case Global_join
    have "preserves rooms_ok (say_error u m)" for m by (intro ok_intros)
    then show ?thesis using w Global_join keep by (simp add: cmd_join_def act_simps)
  next
    case Global_leave
    then show ?thesis using keep [OF keeps_cmd_leave] by simp
  qed (auto simp: stub_room_only_def cmd_whoami_def intro!: keep ok_intros)
qed

lemma process_command_leads:
  assumes "\<not> o_started E"
  shows "leads (rooms_fresh (o_now E)) (process_command G E u c) rooms_ok"
proof (rule leadsI)
  fix w
  assume w: "rooms_fresh (o_now E) w"
  let ?global = "\<lambda>handled. if handled then sreturn () else case command_map_find G (cmd_name c) of
       None \<Rightarrow> say_error u ''Unknown command. Use /help to see a list of commands.''
     | Some ex \<Rightarrow> exec_global E ex u (cmd_arguments c)"
  have err: "preserves rooms_ok (say_error u m)" for m by (intro ok_intros)
  show "rooms_ok (snd (process_command G E u c w))"
  proof (cases "find_user_room u w")
    case None
    then show ?thesis
      using w leadsD [OF exec_global_leads [OF assms] w] preservesD [OF err fresh_ok [OF w]]
      by (simp add: process_command_def act_simps split: option.split)
  next
    case (Some ref)
    obtain r w' where run: "room_process_command E ref u c w = (r, w')" by fastforce
    have ok: "rooms_ok w'" using preservesD' [OF keeps_room_command fresh_ok [OF w] run] .
    show ?thesis
    proof (cases r)
      case (Inl e)
      then show ?thesis using ok Some run by (simp add: process_command_def act_simps)
    next
      case (Inr handled)
      have "\<not> handled \<Longrightarrow> find_user_room u w' \<noteq> None"
        using room_command_declined [of E ref u c w w'] run Inr Some by (cases handled) (auto simp: find_user_room_def)
      then have "rooms_ok (snd (?global handled w'))"
        using ok leadsD [OF exec_global_in_room [of u E]] preservesD [OF err ok]
        by (auto simp: act_simps split: option.split)
      then show ?thesis using Some run Inr by (simp add: process_command_def act_simps)
    qed
  qed
qed

lemma packet_leads:
  assumes "\<not> o_started E"
  shows "leads (rooms_fresh (o_now E)) (process_packet G E u text) rooms_ok"
proof -
  let ?F = "rooms_fresh (o_now E)"
  have keep: "leads ?F m rooms_ok" if "preserves rooms_ok m" for m :: "unit world_op"
    using that fresh_ok by (auto simp: leads_def preserves_def)
  have err: "preserves rooms_ok (say_error u m)" for m by (intro ok_intros)
  have chat: "preserves rooms_ok (process_text E u text)"
    unfolding process_text_def by (auto intro!: ok_intros at_room_keeps simon.process_message_inv)
  have cmd: "leads ?F (catch_runtime (process_command G E u c) (\<lambda>_. say_error u m)) rooms_ok" for c m
    by (rule leads_catch_runtime [OF process_command_leads [OF assms] err])
  show ?thesis
    unfolding process_packet_def
    by (auto intro!: leads_if keep chat err cmd preserves_throw split: sum.split option.split)
qed

subsection \<open>The invariant along a run\<close>

fun event_fresh :: "server_event \<Rightarrow> world \<Rightarrow> bool" where
  "event_fresh (Packet E u text) w \<longleftrightarrow> \<not> o_started E \<and> (\<forall>ref. o_now E \<notin> sinces (w_rooms w ref))"
| "event_fresh _ w \<longleftrightarrow> True"

fun events_fresh :: "global_executor command_map \<Rightarrow> server_event list \<Rightarrow> world \<Rightarrow> bool" where
  "events_fresh G [] w \<longleftrightarrow> True"
| "events_fresh G (e # es) w \<longleftrightarrow> event_fresh e w \<and>
     (fst (server_step G e w) = Inr () \<longrightarrow> events_fresh G es (snd (server_step G e w)))"

lemma server_step_ok: "rooms_ok w \<Longrightarrow> event_fresh e w \<Longrightarrow> rooms_ok (snd (server_step G e w))"
proof (cases e)
  case (Accept E u)
  have "preserves rooms_ok (accept_connection E u)"
    unfolding accept_connection_def greet_user_def make_user_def manager_add_user_def
    by (auto intro!: ok_intros preserves_seqs split: sum.split)
  then show "rooms_ok w \<Longrightarrow> ?thesis" using Accept by (simp add: preserves_def)
next
  case (Disconnected E u)
  have "preserves rooms_ok (process_disconnect (o_game E) u)"
    unfolding process_disconnect_def manager_remove_user_def
    by (auto intro!: ok_intros split: prod.split)
  then show "rooms_ok w \<Longrightarrow> ?thesis" using Disconnected by (simp add: preserves_def)
next
  case (Packet E u msg)
  then show "rooms_ok w \<Longrightarrow> event_fresh e w \<Longrightarrow> ?thesis"
    using leadsD [OF packet_leads] by (simp add: rooms_fresh_def)
next
  case (Update_games E)
  have "preserves rooms_ok (server_step G e)"
    using Update_games by (auto intro!: ok_intros at_room_keeps simon.update_game_inv)
  then show "rooms_ok w \<Longrightarrow> ?thesis" by (simp add: preserves_def)
qed

lemma server_run_ok: "rooms_ok w \<Longrightarrow> events_fresh G es w \<Longrightarrow> rooms_ok (snd (server_run G es w))"
proof (induction es arbitrary: w)
  case (Cons e es)
  obtain r w' where step: "server_step G e w = (r, w')" by fastforce
  have "rooms_ok w'" using server_step_ok [of w e G] Cons.prems step by simp
  then show ?case
    using Cons.IH [of w'] Cons.prems step by (cases r) (simp_all add: server_run_def act_simps)
qed (simp add: server_run_def act_simps)

subsection \<open>Properties\<close>

text \<open>C2. The room invariant along the runs of the server, under two conditions on the run
  (\<open>events_fresh\<close>): the uninitialised flag \<open>_game_started\<close> of a new room happens to be false, and no
  packet is processed at a clock reading at which a present member joined. Then
  the room invariant holds of every room in every state of the run, and no room
  code is ever in use twice: after any such sequence of accepted connections, disconnections, packets and
  game updates, whatever they threw. Without either condition it fails: \<open>uninitialised_flag_crashes_tick\<close>,
  \<open>same_instant_join_lost\<close>.\<close>

theorem server_rooms_invariant:
  assumes "events_fresh G es (new_world us (\<lambda>_. new_room now False sig code))"
  shows "rooms_ok (snd (server_run G es (new_world us (\<lambda>_. new_room now False sig code))))"
proof -
  have "rooms_ok (new_world us (\<lambda>_. new_room now False sig code))"
    by (simp add: rooms_ok_def new_world_def room_inv_new)
  then show ?thesis using assms by (rule server_run_ok)
qed

definition demo_outside :: outside where
  "demo_outside = \<lparr>o_print_uuid = (\<lambda>i. dec (unat i)), o_split = split_on (CHR '' ''), o_trim = (\<lambda>m. m),
     o_room_draws = [\<lambda>i. i], o_name_draws = (\<lambda>_. 0), o_created = 1, o_now = 2, o_started = False,
     o_signals = (\<lambda>_. 0), o_simon = SessionId 0\<rparr>"

definition demo_world :: world where
  "demo_world = new_world demo_users (\<lambda>_. new_room 0 False (\<lambda>_. 0) [])"

definition demo_globals :: "global_executor command_map" where
  "demo_globals = (case init_global_commands (\<lambda>_. None) of Inl _ \<Rightarrow> (\<lambda>_. None) | Inr G \<Rightarrow> G)"

definition demo_events :: "server_event list" where
  "demo_events = [Accept demo_outside (SessionId 1), Packet demo_outside (SessionId 1) ''/create'']"

lemma demo_events_fresh: "events_fresh demo_globals demo_events demo_world"
proof -
  have "w_rooms (snd (accept_connection demo_outside (SessionId 1) demo_world)) = w_rooms demo_world"
    by (simp add: accept_connection_def greet_user_def make_user_def manager_add_user_def say_def
      modify_user_object_def act_simps split: sum.split)
  then show ?thesis
    by (simp add: demo_events_def demo_world_def new_world_def sinces_def new_room_def demo_outside_def)
qed

theorem server_rooms_invariant_witness:
  "rooms_ok (snd (server_run demo_globals demo_events demo_world))"
  using server_rooms_invariant [of demo_globals demo_events demo_users 0 "\<lambda>_. 0" "[]"] demo_events_fresh
  by (simp add: demo_world_def)

lemma leave_not_playing:
  "find_player u (w_rooms w ref) = None \<Longrightarrow> \<exists>w'. user_leave_room K u ref w = (Inl (Undefined Null_deref), w')"
  by (simp add: user_leave_room_def act_simps catch_chat_def get_room_def split: prod.splits)

lemma disconnect_not_playing:
  assumes "w_user_room w u = Some ref" and "w_known w u = Some u" and "find_player u (w_rooms w ref) = None"
  shows "fst (process_disconnect K u w) = Inl (Undefined Null_deref)"
  using assms leave_not_playing [of u w ref K]
  by (auto simp: process_disconnect_def manager_remove_user_def manager_find_user_def find_user_room_def
    find_in_map_def act_simps)

text \<open>Only active players can leave: when a user is mapped to a room but is not one of its active
  players (a spectator, a disqualified player, a user that was kicked), its \<open>/leave\<close> command and its
  disconnection both dereference the null member pointer that \<open>find_player\<close> returned.\<close>

theorem departure_of_non_player_crashes:
  assumes "w_user_room w u = Some ref" and "w_known w u = Some u" and "find_player u (w_rooms w ref) = None"
  shows "fst (exec_global E Global_leave u args w) = Inl (Undefined Null_deref) \<and>
    fst (process_disconnect K u w) = Inl (Undefined Null_deref)"
  using assms leave_not_playing [OF assms(3), of "o_game E"] disconnect_not_playing [OF assms, of K]
  by (auto simp: cmd_leave_def with_user_def manager_find_user_def find_user_room_def find_in_map_def act_simps)

definition demo_visitor :: world where
  "demo_visitor = demo_world\<lparr>w_user_room := [SessionId 1 \<mapsto> 0], w_known := [SessionId 1 \<mapsto> SessionId 1]\<rparr>"

theorem departure_of_non_player_crashes_witness:
  "fst (process_disconnect demo_simon (SessionId 1) demo_visitor) = Inl (Undefined Null_deref)"
  using departure_of_non_player_crashes [of demo_visitor "SessionId 1" 0 demo_outside "[]" demo_simon]
  by (simp add: demo_visitor_def demo_world_def new_world_def find_player_def new_room_def)

text \<open>C32. A kick brings the server down later: the owner's \<open>/kick\<close> of another user in the room
  succeeds and takes the user out of the room, but not out of the map from users to rooms, so the
  kicked user's disconnection crashes the server.\<close>

theorem kicked_user_crashes_server:
  assumes "room_inv (w_rooms w ref)" and "r_owner (w_rooms w ref) = Some u" and "parse_nickname name = Some n"
    and "find_user_by_name (w_users w) n (w_rooms w ref) = Some v" and "u \<noteq> v"
    and "w_user_room w v = Some ref" and "w_known w v = Some v"
  shows "\<exists>w'. cmd_kick (simon_controller trim) ref u [name] w = (Inr (), w') \<and>
    find_member v (w_rooms w' ref) = None \<and>
    fst (process_disconnect (simon_controller trim) v w') = Inl (Undefined Null_deref)"
proof -
  let ?K = "simon_controller trim"
  obtain s' where s': "remove_user ?K v (room_ctx ref w) = (Inr (), s')" and left: "left_inv v (c_room s')"
    using safeD [OF simon.remove_user_safe [of trim v], of "room_ctx ref w"] assms(1) by (auto simp: on_room_def)
  define w' where "w' = snd (say u (''You kicked out '' @ n @ ''.'') (put_ctx ref s' w))"
  have kick: "cmd_kick ?K ref u [name] w = (Inr (), w')"
    using assms s' by (simp add: cmd_kick_def require_owner_def get_room_def act_simps at_room_run w'_def say_def)
  have room: "w_rooms w' ref = c_room s'" "w_user_room w' v = Some ref" "w_known w' v = Some v"
    using assms by (simp_all add: w'_def say_def act_simps)
  have gone: "find_member v (w_rooms w' ref) = None"
    using left by (simp add: room left_inv_def find_member_keys del: image_iff)
  then have "find_player v (w_rooms w' ref) = None"
    using left core_not_found(1) [of "c_room s'" v] by (simp add: room left_inv_def room_inv_def)
  then have "fst (process_disconnect ?K v w') = Inl (Undefined Null_deref)"
    using room disconnect_not_playing [of w' v ref ?K] by simp
  then show ?thesis using kick gone by blast
qed

text \<open>A room with two players, whose objects the world knows.\<close>

definition demo_pair :: world where
  "demo_pair = demo_world\<lparr>
     w_rooms := (\<lambda>_. c_room (snd (add_user 6 (SessionId 2) AS_PLAYER_WAITING
        (snd (add_user 5 (SessionId 1) AS_PLAYER_WAITING demo_room))))),
     w_user_room := [SessionId 1 \<mapsto> 0, SessionId 2 \<mapsto> 0],
     w_known := [SessionId 1 \<mapsto> SessionId 1, SessionId 2 \<mapsto> SessionId 2]\<rparr>"

lemma demo_pair_inv: "room_inv (w_rooms demo_pair 0)"
proof -
  have "on_room room_inv demo_room" by (simp add: demo_room_def on_room_def new_ctx_def room_inv_new)
  then have "on_room room_inv (snd (add_user 5 (SessionId 1) AS_PLAYER_WAITING demo_room))"
    by (rule add_user_inv) (simp add: demo_room_def new_ctx_def sinces_def new_room_def)
  moreover have "6 \<notin> sinces (c_room (snd (add_user 5 (SessionId 1) AS_PLAYER_WAITING demo_room)))" by code_simp
  ultimately have "on_room room_inv (snd (add_user 6 (SessionId 2) AS_PLAYER_WAITING
      (snd (add_user 5 (SessionId 1) AS_PLAYER_WAITING demo_room))))"
    by (rule add_user_inv)
  then show ?thesis by (simp add: demo_pair_def on_room_def)
qed

lemma demo_pair_facts:
  "r_owner (w_rooms demo_pair 0) = Some (SessionId 1)" "parse_nickname ''2'' = Some ''2''"
  "find_user_by_name (w_users demo_pair) ''2'' (w_rooms demo_pair 0) = Some (SessionId 2)"
  "w_user_room demo_pair (SessionId 2) = Some 0" "w_known demo_pair (SessionId 2) = Some (SessionId 2)"
  by code_simp+

theorem kicked_user_crashes_server_witness:
  "\<exists>w'. cmd_kick demo_simon 0 (SessionId 1) [''2''] demo_pair = (Inr (), w') \<and>
    fst (process_disconnect demo_simon (SessionId 2) w') = Inl (Undefined Null_deref)"
  using kicked_user_crashes_server [OF demo_pair_inv demo_pair_facts(1-3) _ demo_pair_facts(4-5)] by auto

lemma sbind_read_run: "sbind (sread f) g s = g (f s) s"
  by (simp add: act_simps)

lemma sseqs_two:
  "sseqs (a # b # ms) s = (case sseq a b s of (r, s') \<Rightarrow> (case r of Inl e \<Rightarrow> (Inl e, s') | Inr _ \<Rightarrow> sseqs ms s'))"
  by (simp add: sseq_run split: prod.split sum.split)

lemma join_outcome:
  assumes "room_inv (w_rooms w ref)" and "find_member u (w_rooms w ref) = None" and "now \<notin> sinces (w_rooms w ref)"
    and "w_user_room w u = None"
  shows "case user_join_room p d now u ref w of (res, w') \<Rightarrow>
    if res = Inr () then w_user_room w' = (w_user_room w)(u \<mapsto> ref) \<and> find_user u (w_rooms w' ref) = Some u
    else w_user_room w' = w_user_room w \<and> w_rooms w' = w_rooms w"
proof -
  let ?Q = "\<lambda>v. w_rooms v = w_rooms w \<and> w_user_room v = w_user_room w"
  let ?names = "sseq (sbind (sread (\<lambda>w. find_user_by_name (w_users w) (u_name (w_users w u)) (w_rooms w ref)))
      (\<lambda>clash. swhen (clash \<noteq> None) (sseq
         (say u ''Your nickname is already used by somebody in the room you are joining.'') (rename_default p u))))
    (sbind (sread (\<lambda>w. u_nickname (w_users w u))) (\<lambda>n. swhen (n = None) (give_nickname d u)))"
  have base: "preserves ?Q (say v m)" "preserves ?Q (modify_user_object v f)" for v m f
    by (simp_all add: preserves_def say_def modify_user_object_def act_simps)
  have "preserves ?Q ?names"
    unfolding rename_default_def give_nickname_def
    by (auto intro!: pres_intros base split: sum.split)
  moreover obtain r w1 where names: "?names w = (r, w1)" by fastforce
  ultimately have w1: "w_rooms w1 = w_rooms w" "w_user_room w1 = w_user_room w"
    using preservesD' [of ?Q ?names w r w1] by auto
  let ?s = "room_ctx ref w1"
  let ?join = "sseqs [at_room ref (add_user now u AS_PLAYER_WAITING),
    smodify (\<lambda>w. w\<lparr>w_user_room := (case w_user_room w u of None \<Rightarrow> (w_user_room w)(u \<mapsto> ref) | Some _ \<Rightarrow> w_user_room w)\<rparr>)]"
  have run: "user_join_room p d now u ref w = (case r of Inl e \<Rightarrow> (Inl e, w1) | Inr _ \<Rightarrow> ?join w1)"
    unfolding user_join_room_def
    by (subst sbind_read_run)
      (use names assms(4) in \<open>simp add: find_user_room_def find_in_map_def sseqs_two del: sseqs.simps\<close>)
  have room: "c_room ?s = w_rooms w ref" by (simp add: w1)
  consider (throw) e where "r = Inl e" | (full) k where "r = Inr ()" and "join_status u AS_PLAYER_WAITING (c_room ?s) = Inl k"
    | (new) st where "r = Inr ()" and "join_status u AS_PLAYER_WAITING (c_room ?s) = Inr st"
    by (cases r; cases "join_status u AS_PLAYER_WAITING (c_room ?s)") auto
  then show ?thesis
  proof cases
    case throw
    then show ?thesis using run w1 by simp
  next
    case full
    then have "add_user now u AS_PLAYER_WAITING ?s = (Inl (Chat_exn (chat_exception_of k)), ?s)"
      by (simp add: add_user_def read_room_def act_simps)
    then show ?thesis using run full w1 by (simp add: act_simps at_room_run)
  next
    case new
    then have add: "add_user now u AS_PLAYER_WAITING ?s = admit_new now u st ?s"
      using assms(2) by (simp add: add_user_def read_room_def act_simps w1)
    have pre: "on_room (\<lambda>r. room_inv r \<and> find_member u r = None \<and> now \<notin> sinces r) ?s"
      using assms by (simp add: on_room_def w1)
    obtain s' where s': "admit_new now u st ?s = (Inr (), s')" "room_inv (c_room s')"
      using safeD [OF admit_new_safe [of u now st] pre] by (auto simp: on_room_def)
    let ?m = "new_member now (c_counter ?s) u st"
    have "admission_stable (\<lambda>r :: simon room. find_member u r \<noteq> None)"
      by (simp add: admission_stable_def suppress_find del: not_None_eq) (simp add: find_member_def)
    moreover have "om_ok (r_members (w_rooms w ref))"
      using assms(1) by (simp add: room_inv_def room_core_def members_ok_def)
    then have "find_member u (cached_add (?m\<lparr>m_suppress := True\<rparr>) (set_suppress True u (insert_member ?m (c_room ?s)))) \<noteq> None"
      using assms(2)
      by (simp add: find_member_def cached_add_def set_suppress_def insert_member_def om_simps w1 new_member_def)
    ultimately have "find_member u (c_room s') \<noteq> None"
      using admit_new_leaves [of "\<lambda>r. find_member u r \<noteq> None" now ?s u st] s'(1) by simp
    then have "find_user u (c_room s') = Some u"
      using core_find_user [of "c_room s'" u] s'(2) by (simp add: room_inv_def)
    then show ?thesis
      using run new add s' w1 assms(4) by (simp add: act_simps at_room_run)
  qed
qed

text \<open>C15. A join takes effect completely or not at all, for a user who is mapped to no room and who is not a member
  of the room, when the room is in order and none of its members joined at the present clock reading: either the join
  returns, the user is mapped to the room and the room finds it, or it throws and every room and the
  map from users to rooms are what they were. At the clock reading of another member the join returns
  but the room does not find the user (\<open>same_instant_join_lost\<close>).\<close>

theorem join_is_atomic:
  assumes "room_inv (w_rooms w ref)" and "find_member u (w_rooms w ref) = None" and "now \<notin> sinces (w_rooms w ref)"
    and "w_user_room w u = None"
  shows "case user_join_room p d now u ref w of (res, w') \<Rightarrow>
    if res = Inr () then w_user_room w' = (w_user_room w)(u \<mapsto> ref) \<and> find_user u (w_rooms w' ref) = Some u
    else w_user_room w' = w_user_room w \<and> w_rooms w' = w_rooms w"
  by (rule join_outcome) (rule assms)+

lemma demo_world_facts:
  "room_inv (w_rooms demo_world ref)" "find_member u (w_rooms demo_world ref) = None"
  "now \<notin> sinces (w_rooms demo_world ref)" "w_user_room demo_world u = None"
  by (simp_all add: demo_world_def new_world_def room_inv_new) (simp_all add: new_room_def find_member_def sinces_def)

theorem join_is_atomic_witness:
  "case user_join_room (\<lambda>_. ''x'') (\<lambda>_. 0) 2 (SessionId 1) 0 demo_world of (res, w') \<Rightarrow>
    if res = Inr () then w_user_room w' = (w_user_room demo_world)(SessionId 1 \<mapsto> 0) \<and>
      find_user (SessionId 1) (w_rooms w' 0) = Some (SessionId 1)
    else w_user_room w' = w_user_room demo_world \<and> w_rooms w' = w_rooms demo_world"
  by (rule join_is_atomic) (rule demo_world_facts)+

lemma generate_room_code: "generate_room_id r n = Inr (room_code r n)"
  using room_code_alnum [of r n] by (simp add: generate_room_id_def make_room_id_Inr)

lemma pick_code_find:
  "pick_code draws codes =
     (case find_if (map (\<lambda>r. room_code r 5) draws) (\<lambda>c. c \<notin> fst ` set codes) of
        None \<Rightarrow> Inl Out_of_fuel | Some c \<Rightarrow> Inr c)"
  by (induction draws) (simp_all add: generate_room_code map_of_eq_None_iff)

text \<open>C28. The search for a room code ends exactly when a draw gives a code that is not in use, and then
  takes the first such code: \<open>create_room\<close> registers it, and nothing else, for a fresh room without
  members. If every code drawn is in use the loop goes on through all draws, so with all codes in
  use it never ends.\<close>

theorem create_room_terminates:
  "case find_if (map (\<lambda>r. room_code r 5) draws) (\<lambda>c. c \<notin> fst ` set (w_room_codes w)) of
     None \<Rightarrow> create_room draws now started sig w = (Inl Out_of_fuel, w)
   | Some c \<Rightarrow> \<exists>w'. create_room draws now started sig w = (Inr (w_next_room w), w') \<and>
       (\<lambda>code. find_room code w') = (\<lambda>code. find_room code w)(c \<mapsto> w_next_room w) \<and>
       r_id (w_rooms w' (w_next_room w)) = c \<and> r_members (w_rooms w' (w_next_room w)) = []"
proof (cases "find_if (map (\<lambda>r. room_code r 5) draws) (\<lambda>c. c \<notin> fst ` set (w_room_codes w))")
  case None
  then show ?thesis by (simp add: create_room_def act_simps pick_code_find)
next
  case (Some c)
  then have "map_of (w_room_codes w) c = None"
    using find_if_Some [OF Some] by (simp add: map_of_eq_None_iff)
  then have "map_of (w_room_codes w @ [(c, w_next_room w)]) = (map_of (w_room_codes w))(c \<mapsto> w_next_room w)"
    by (auto simp: map_add_def fun_eq_iff split: option.split)
  then show ?thesis
    using Some
    by (simp add: create_room_def act_simps pick_code_find find_room_def find_in_map_def room_listeners_def new_room_def
      fun_eq_iff)
qed

text \<open>The flag that says whether a game runs has no initialiser. If the memory of a new room holds
  true, the game update of the next tick calls the game through a null pointer.\<close>

theorem uninitialised_flag_crashes_tick:
  assumes "create_room draws now True sig w = (Inr ref, w')"
  shows "fst (at_room ref (update_game K) w') = Inl (Undefined Null_deref)"
proof -
  have "is_game_active (w_rooms w' ref) \<and> r_game (w_rooms w' ref) = None"
    using assms
    by (auto simp: create_room_def act_simps room_listeners_def new_room_def is_game_active_def split: sum.splits)
  then show ?thesis
    by (simp add: at_room_run update_game_def on_game_def read_room_def act_simps)
qed

theorem uninitialised_flag_crashes_tick_witness:
  "fst (at_room 0 (update_game demo_simon) (snd (create_room [\<lambda>i. i] 1 True (\<lambda>_. 0) demo_world))) =
     Inl (Undefined Null_deref)"
proof -
  have "create_room [\<lambda>i. i] 1 True (\<lambda>_. 0) demo_world =
      (Inr 0, snd (create_room [\<lambda>i. i] 1 True (\<lambda>_. 0) demo_world))"
    by (simp add: create_room_def act_simps generate_room_code demo_world_def new_world_def)
  then show ?thesis by (rule uninitialised_flag_crashes_tick)
qed

definition names_of :: "(session_id \<Rightarrow> user) \<Rightarrow> 'g room \<Rightarrow> string list" where
  "names_of us r = map (\<lambda>e. u_name (us (snd e))) (r_users r)"

lemma distinct_rename:
  assumes "distinct (map f xs)" and "distinct xs" and "n \<notin> f ` set xs"
  shows "distinct (map (f(x := n)) xs)"
  using assms by (auto simp: distinct_map inj_on_def)

lemma core_distinct_users: "room_core r \<Longrightarrow> distinct (map snd (r_users r))"
proof -
  assume core: "room_core r"
  then have ok: "om_ok (r_users r)" by (simp add: room_core_def cache_ok_def)
  have "inj_on snd (set (r_users r))"
  proof (rule inj_onI)
    fix a b
    assume "a \<in> set (r_users r)" "b \<in> set (r_users r)" "snd a = snd b"
    moreover have "\<exists>m. find_member (snd e) r = Some m \<and> m_since m = fst e" if "e \<in> set (r_users r)" for e
      using cache_member [OF core that, of "\<lambda>_. True"] core by (auto simp: room_core_def)
    ultimately have "fst a = fst b" by (metis option.inject)
    then show "a = b" using \<open>snd a = snd b\<close> by (rule prod_eqI)
  qed
  moreover have "distinct (r_users r)" using om_ok_distinct [OF ok] by (simp add: distinct_map)
  ultimately show ?thesis by (simp add: distinct_map)
qed

text \<open>C40. Setting a nickname keeps the names in the user's room distinct: a name that anybody in the
  room has, the user included, is refused with USER\_NICKNAME\_TAKEN, during a game a player may not
  change its name at all, and in both cases nothing changes.\<close>

theorem nicknames_stay_distinct:
  assumes "room_inv (w_rooms w ref)" and "w_user_room w u = Some ref"
    and "distinct (names_of (w_users w) (w_rooms w ref))"
  shows "case user_set_nickname u n w of (res, w') \<Rightarrow>
    distinct (names_of (w_users w') (w_rooms w' ref)) \<and>
    (if n \<in> set (names_of (w_users w) (w_rooms w ref))
     then res = Inl (Chat_exn (chat_exception_of USER_NICKNAME_TAKEN)) \<and> w' = w
     else if is_game_active (w_rooms w ref) \<and> find_player u (w_rooms w ref) \<noteq> None
     then res = Inl (Chat_exn (chat_exception_of NOT_ALLOWED_DURING_GAME)) \<and> w' = w
     else res = Inr () \<and> u_name (w_users w' u) = n)"
proof -
  let ?r = "w_rooms w ref"
  have core: "room_core ?r" using assms(1) by (simp add: room_inv_def)
  have taken: "find_user_by_name (w_users w) n ?r \<noteq> None \<longleftrightarrow> n \<in> set (names_of (w_users w) ?r)"
    using find_if_None [of "r_users ?r" "\<lambda>e. u_name (w_users w (snd e)) = n"]
    by (auto simp: find_user_by_name_def names_of_def image_iff)
  have names: "names_of us ?r = map (\<lambda>v. u_name (us v)) (map snd (r_users ?r))" for us :: "session_id \<Rightarrow> user"
    by (simp add: names_of_def)
  have "(\<lambda>v. u_name (((w_users w)(u := set_nickname n (w_users w u))) v)) = (\<lambda>v. u_name (w_users w v))(u := n)"
    by (auto simp: set_nickname_def)
  then have "distinct (names_of ((w_users w)(u := set_nickname n (w_users w u))) ?r)"
    if "n \<notin> set (names_of (w_users w) ?r)"
    using distinct_rename [OF assms(3) [unfolded names] core_distinct_users [OF core], of n u] that
    unfolding names by (simp add: image_image)
  then show ?thesis
    using assms taken
    by (simp add: user_set_nickname_def find_user_room_def find_in_map_def act_simps get_room_def at_room_run
      broadcast_run core modify_user_object_def set_nickname_def) auto
qed

theorem nicknames_stay_distinct_witness:
  "distinct (names_of (w_users (snd (user_set_nickname (SessionId 2) ''bob'' demo_pair)))
     (w_rooms (snd (user_set_nickname (SessionId 2) ''bob'' demo_pair)) 0))"
proof -
  have "distinct (names_of (w_users demo_pair) (w_rooms demo_pair 0))" by code_simp
  from nicknames_stay_distinct [OF demo_pair_inv demo_pair_facts(4) this, of "''bob''"]
  show ?thesis by (simp split: prod.splits)
qed

end
