(* ===== verification/Sockets.thy ===== *)
theory Sockets
  imports Failures
begin

section \<open>Websocket connections (module networking\_websocket)\<close>

text \<open>
  \<open>BeastSocket\<close>: the socket that queues the messages to send and writes them one after the other.
  Thread 0 is the strand of the socket, on which the completion handlers run, one at a time; every
  other thread may call \<open>send\<close> and \<open>close\<close>. Between two accesses to what the threads share (the
  queue under its mutex, the atomic flags, the connection) other threads run: a thread is in one of
  the phases below, and \<open>bs_step\<close> has one event for each piece of code between two such points.

  Beast and the network are outside: the events say when an operation completes and with which
  error code. Beast's documented precondition that a stream has at most one outstanding write is an
  assertion of the model. \<open>bs_pushed\<close> (everything \<open>send\<close> was given), \<open>bs_handed\<close> (everything given to
  \<open>async_write\<close>) and \<open>bs_signals\<close> (everything emitted) are history variables.
\<close>

type_synonym bytes = "8 word list"

datatype error_code = Success | Connection_reset | End_of_stream | Other_error

datatype net_signal = On_data bytes | On_error network_exception | On_close

text \<open>Where a thread is: nowhere; between queueing and the exchange of the flag; at the start of
  \<open>_do_async_write\<close>; between its critical section and \<open>async_write\<close>; in \<open>_on_async_write\<close> before its
  critical section; in \<open>close\<close> after the exchange of the flag.\<close>

datatype phase = Resting | Enqueued | Owner | Copied | Completed | Closing

record bsocket =
  bs_connected :: bool
  bs_write_finished :: bool
  bs_connection :: bool
  bs_write_queue :: "bytes list"
  bs_write_buffer :: bytes
  bs_heard :: bool
  bs_writing :: bool
  bs_reading :: bool
  bs_closing :: bool
  bs_phase :: "nat \<Rightarrow> phase"
  bs_pushed :: "bytes list"
  bs_handed :: "bytes list"
  bs_signals :: "net_signal list"

definition new_bsocket :: bsocket where
  "new_bsocket = \<lparr>bs_connected = True, bs_write_finished = True, bs_connection = True, bs_write_queue = [],
     bs_write_buffer = [], bs_heard = True, bs_writing = False, bs_reading = False, bs_closing = False,
     bs_phase = (\<lambda>_. Resting), bs_pushed = [], bs_handed = [], bs_signals = []\<rparr>"

subsection \<open>The pieces of the handlers\<close>

definition enter :: "nat \<Rightarrow> phase \<Rightarrow> bsocket \<Rightarrow> bsocket" where
  "enter t p s = s\<lparr>bs_phase := (bs_phase s)(t := p)\<rparr>"

definition emit_signal :: "net_signal \<Rightarrow> bsocket \<Rightarrow> bsocket" where
  "emit_signal e s = s\<lparr>bs_signals := bs_signals s @ [e]\<rparr>"

definition convert_error :: "error_code \<Rightarrow> network_exception" where
  "convert_error ec = network_exception_of
     (if ec = Connection_reset then REMOTE_CONNECTION_CLOSED else REMOTE_CONNECTION_ERROR)"

definition handle_error :: "error_code \<Rightarrow> bsocket \<Rightarrow> bool \<times> bsocket" where
  "handle_error ec s =
     (if ec = Success then (False, s)
      else (True, emit_signal On_close
        ((if ec \<noteq> End_of_stream then emit_signal (On_error (convert_error ec)) else id) (s\<lparr>bs_connected := False\<rparr>))))"

definition do_async_read :: "bsocket \<Rightarrow> exn + bsocket" where
  "do_async_read s = (if \<not> bs_connection s then Inl (Undefined Null_deref) else Inr (s\<lparr>bs_reading := True\<rparr>))"

text \<open>The two halves of \<open>_do_async_write\<close>. \<open>front\<close> of an empty queue is undefined.\<close>

definition take_front :: "nat \<Rightarrow> bsocket \<Rightarrow> exn + bsocket" where
  "take_front t s = (case bs_write_queue s of
     [] \<Rightarrow> Inl (Undefined Out_of_bounds)
   | d # ds \<Rightarrow> Inr (enter t Copied (s\<lparr>bs_write_buffer := d, bs_write_queue := ds\<rparr>)))"

definition start_write :: "nat \<Rightarrow> bsocket \<Rightarrow> exn + bsocket" where
  "start_write t s =
     (if \<not> bs_connection s then Inl (Undefined Null_deref)
      else if bs_writing s then Inl (Undefined Failed_assertion)
      else Inr (enter t Resting (s\<lparr>bs_writing := True, bs_handed := bs_handed s @ [bs_write_buffer s]\<rparr>)))"

definition on_async_read :: "error_code \<Rightarrow> bytes \<Rightarrow> bsocket \<Rightarrow> exn + bsocket" where
  "on_async_read ec d s = (case handle_error ec s of
     (True, s') \<Rightarrow> Inr s'
   | (False, s') \<Rightarrow> (case do_async_read s' of
        Inl e \<Rightarrow> Inl e
      | Inr r \<Rightarrow> Inr (if bs_heard r then emit_signal (On_data d) r else r)))"

definition on_async_write :: "nat \<Rightarrow> error_code \<Rightarrow> bsocket \<Rightarrow> bsocket" where
  "on_async_write t ec s = (case handle_error ec s of
     (True, s') \<Rightarrow> s'
   | (False, s') \<Rightarrow> enter t Completed s')"

definition check_queue :: "nat \<Rightarrow> bsocket \<Rightarrow> bsocket" where
  "check_queue t s =
     (if bs_write_queue s = [] then enter t Resting (s\<lparr>bs_write_finished := True\<rparr>) else enter t Owner s)"

definition on_async_close :: "error_code \<Rightarrow> bsocket \<Rightarrow> bsocket" where
  "on_async_close ec s = (case handle_error ec s of (True, s') \<Rightarrow> s' | (False, s') \<Rightarrow> emit_signal On_close s')"

text \<open>\<open>send\<close>: the critical section, and the exchange, which may fail although the flag is set
  (\<open>spurious\<close>).\<close>

definition push_data :: "nat \<Rightarrow> bytes \<Rightarrow> bsocket \<Rightarrow> bsocket" where
  "push_data t d s = enter t Enqueued (s\<lparr>bs_write_queue := bs_write_queue s @ [d], bs_pushed := bs_pushed s @ [d]\<rparr>)"

definition claim_write :: "nat \<Rightarrow> bool \<Rightarrow> bsocket \<Rightarrow> bsocket" where
  "claim_write t spurious s =
     (if bs_write_finished s \<and> \<not> spurious then enter t Owner (s\<lparr>bs_write_finished := False\<rparr>) else enter t Resting s)"

text \<open>\<open>close\<close>: the exchange with the removal of the listeners, and the rest.\<close>

definition begin_close :: "nat \<Rightarrow> bsocket \<Rightarrow> bsocket" where
  "begin_close t s =
     (if bs_connected s then enter t Closing (s\<lparr>bs_connected := False, bs_heard := False\<rparr>) else s)"

definition finish_close :: "nat \<Rightarrow> bsocket \<Rightarrow> exn + bsocket" where
  "finish_close t s =
     (if \<not> bs_connection s then Inl (Undefined Null_deref)
      else Inr (enter t Resting (s\<lparr>bs_closing := True, bs_connection := False\<rparr>)))"

subsection \<open>Interleavings\<close>

datatype bs_event =
    Send bytes
  | Exchange bool
  | Take
  | Start_write
  | Write_done error_code
  | Check_queue
  | Start_reading
  | Read_done error_code bytes
  | Close
  | Finish_close
  | Close_done error_code

text \<open>\<open>None\<close>: the thread cannot do this now. The completion handlers run on thread 0.\<close>

fun bs_step :: "nat \<Rightarrow> bs_event \<Rightarrow> bsocket \<Rightarrow> (exn + bsocket) option" where
  "bs_step t (Send d) s = (if bs_phase s t = Resting then Some (Inr (push_data t d s)) else None)"
| "bs_step t (Exchange spurious) s = (if bs_phase s t = Enqueued then Some (Inr (claim_write t spurious s)) else None)"
| "bs_step t Take s = (if bs_phase s t = Owner then Some (take_front t s) else None)"
| "bs_step t Start_write s = (if bs_phase s t = Copied then Some (start_write t s) else None)"
| "bs_step t (Write_done ec) s =
     (if t = 0 \<and> bs_phase s t = Resting \<and> bs_writing s then Some (Inr (on_async_write t ec (s\<lparr>bs_writing := False\<rparr>))) else None)"
| "bs_step t Check_queue s = (if bs_phase s t = Completed then Some (Inr (check_queue t s)) else None)"
| "bs_step t Start_reading s =
     (if t = 0 \<and> bs_phase s t = Resting \<and> \<not> bs_reading s then Some (do_async_read s) else None)"
| "bs_step t (Read_done ec d) s =
     (if t = 0 \<and> bs_phase s t = Resting \<and> bs_reading s then Some (on_async_read ec d (s\<lparr>bs_reading := False\<rparr>)) else None)"
| "bs_step t Close s = (if bs_phase s t = Resting then Some (Inr (begin_close t s)) else None)"
| "bs_step t Finish_close s = (if bs_phase s t = Closing then Some (finish_close t s) else None)"
| "bs_step t (Close_done ec) s =
     (if t = 0 \<and> bs_phase s t = Resting \<and> bs_closing s then Some (Inr (on_async_close ec (s\<lparr>bs_closing := False\<rparr>))) else None)"

fun bs_run :: "(nat \<times> bs_event) list \<Rightarrow> bsocket \<Rightarrow> (exn + bsocket) option" where
  "bs_run [] s = Some (Inr s)"
| "bs_run ((t, e) # es) s = (case bs_step t e s of
     None \<Rightarrow> None
   | Some (Inl x) \<Rightarrow> if es = [] then Some (Inl x) else None
   | Some (Inr s') \<Rightarrow> bs_run es s')"

text \<open>The states a socket can reach by steps whose events satisfy a predicate.\<close>

inductive reaches :: "(bs_event \<Rightarrow> bool) \<Rightarrow> bsocket \<Rightarrow> bool" for ok where
  fresh: "reaches ok new_bsocket"
| step: "reaches ok s \<Longrightarrow> ok e \<Longrightarrow> bs_step t e s = Some (Inr s') \<Longrightarrow> reaches ok s'"

lemmas socket_defs = enter_def emit_signal_def handle_error_def do_async_read_def take_front_def start_write_def
  on_async_read_def on_async_write_def check_queue_def on_async_close_def push_data_def claim_write_def
  begin_close_def finish_close_def

lemma reaches_run:
  "reaches ok s \<Longrightarrow> bs_run es s = Some (Inr s') \<Longrightarrow> list_all (\<lambda>(t, e). ok e) es \<Longrightarrow> reaches ok s'"
proof (induction es arbitrary: s)
  case (Cons p es)
  obtain t e where p: "p = (t, e)" by (cases p)
  then obtain r where "bs_step t e s = Some (Inr r)" and "bs_run es r = Some (Inr s')"
    using Cons.prems(2) by (auto split: option.splits sum.splits if_splits)
  then show ?case using Cons p by (auto intro: reaches.step)
qed simp

subsection \<open>One writer at a time\<close>

definition owning :: "phase \<Rightarrow> bool" where
  "owning p \<longleftrightarrow> p \<in> {Owner, Copied, Completed}"

definition buffered :: "(nat \<Rightarrow> phase) \<Rightarrow> bytes \<Rightarrow> bytes list" where
  "buffered ph b = (if \<exists>t. ph t = Copied then [b] else [])"

definition one_owner :: "bool \<Rightarrow> bool \<Rightarrow> (nat \<Rightarrow> phase) \<Rightarrow> bool" where
  "one_owner finished writing ph \<longleftrightarrow> (finished \<or> writing \<longrightarrow> (\<forall>t. \<not> owning (ph t))) \<and> \<not> (finished \<and> writing) \<and>
     (\<forall>t u. owning (ph t) \<and> owning (ph u) \<longrightarrow> t = u)"

abbreviation one_writer :: "bsocket \<Rightarrow> bool" where
  "one_writer s \<equiv> one_owner (bs_write_finished s) (bs_writing s) (bs_phase s)"

definition in_order :: "bsocket \<Rightarrow> bool" where
  "in_order s \<longleftrightarrow> bs_pushed s = bs_handed s @ buffered (bs_phase s) (bs_write_buffer s) @ bs_write_queue s"

lemma owning_simps [simp]:
  "owning Owner" "owning Copied" "owning Completed" "\<not> owning Resting" "\<not> owning Enqueued" "\<not> owning Closing"
  by (simp_all add: owning_def)

text \<open>A thread that moves between phases of the same kind, that takes over from the flag or from the
  write, and that hands over to one of them.\<close>

lemma owner_keep: "one_owner f w ph \<Longrightarrow> owning p = owning (ph t) \<Longrightarrow> one_owner f w (ph(t := p))"
  by (auto simp: one_owner_def)

lemma owner_claim: "one_owner f w ph \<Longrightarrow> f \<or> w \<Longrightarrow> one_owner False False (ph(t := p))"
  by (auto simp: one_owner_def)

lemma owner_yield:
  "one_owner f w ph \<Longrightarrow> owning (ph t) \<Longrightarrow> \<not> (f' \<and> w') \<Longrightarrow> \<not> owning p \<Longrightarrow> one_owner f' w' (ph(t := p))"
  by (auto simp: one_owner_def)

lemma owner_lost: "one_owner f True ph \<Longrightarrow> one_owner f False ph"
  by (auto simp: one_owner_def)

lemma owner_active: "one_owner f w ph \<Longrightarrow> owning (ph t) \<Longrightarrow> \<not> f \<and> \<not> w"
  unfolding one_owner_def by blast

lemma owner_unique: "one_owner f w ph \<Longrightarrow> owning (ph t) \<Longrightarrow> owning (ph u) \<Longrightarrow> t = u"
  unfolding one_owner_def by blast

text \<open>What the error handler and the readers leave alone.\<close>

definition writer_part :: "bsocket \<Rightarrow> bool \<times> bool \<times> (nat \<Rightarrow> phase) \<times> bytes list \<times> bytes \<times> bytes list \<times> bytes list" where
  "writer_part s = (bs_write_finished s, bs_writing s, bs_phase s, bs_write_queue s, bs_write_buffer s, bs_pushed s, bs_handed s)"

lemma handle_error_writer: "handle_error ec s = (b, s') \<Longrightarrow> writer_part s' = writer_part s \<and> (b \<longleftrightarrow> ec \<noteq> Success)"
  by (auto simp: handle_error_def emit_signal_def writer_part_def split: if_splits)

lemma other_events:
  assumes "bs_step t e s = Some (Inr s')" and "e \<in> {Start_reading, Read_done ec d, Close_done ec}"
  shows "writer_part s' = writer_part s"
  using assms handle_error_writer [of ec "s\<lparr>bs_reading := False\<rparr>"] handle_error_writer [of ec "s\<lparr>bs_closing := False\<rparr>"]
  by (auto simp: do_async_read_def on_async_read_def on_async_close_def emit_signal_def writer_part_def
    split: if_splits prod.splits bool.splits)

lemma write_done_step:
  assumes "bs_step t (Write_done ec) s = Some (Inr s')"
  shows "bs_writing s \<and> bs_phase s t = Resting \<and> bs_writing s' = False \<and> bs_write_finished s' = bs_write_finished s \<and>
    bs_phase s' = (if ec = Success then (bs_phase s)(t := Completed) else bs_phase s) \<and>
    bs_write_queue s' = bs_write_queue s \<and> bs_write_buffer s' = bs_write_buffer s \<and>
    bs_pushed s' = bs_pushed s \<and> bs_handed s' = bs_handed s"
  using assms handle_error_writer [of ec "s\<lparr>bs_writing := False\<rparr>"]
  by (auto simp: on_async_write_def enter_def writer_part_def split: if_splits prod.splits bool.splits)

lemma one_writer_step:
  assumes "one_writer s" and "bs_step t e s = Some (Inr s')"
  shows "one_writer s'"
proof (cases e)
  case (Write_done ec)
  then have d: "bs_writing s" "bs_writing s' = False" "bs_write_finished s' = bs_write_finished s"
    "bs_phase s' = (if ec = Success then (bs_phase s)(t := Completed) else bs_phase s)"
    using write_done_step assms(2) by blast+
  then have "bs_write_finished s = False" using assms(1) by (simp add: one_owner_def)
  then show ?thesis using d assms(1) by (simp add: owner_claim owner_lost)
next
  case (Exchange spurious)
  then have "bs_phase s t = Enqueued" and s': "s' = claim_write t spurious s"
    using assms(2) by (simp_all split: if_splits)
  show ?thesis
  proof (cases "bs_write_finished s \<and> \<not> spurious")
    case True
    then have "\<not> bs_writing s" using assms(1) by (simp add: one_owner_def)
    then show ?thesis using True s' assms(1) owner_claim [of True False "bs_phase s" t Owner]
      by (simp add: claim_write_def enter_def)
  next
    case False
    then have "s' = enter t Resting s" using s' by (auto simp: claim_write_def)
    then show ?thesis using assms(1) \<open>bs_phase s t = Enqueued\<close> by (simp add: enter_def owner_keep)
  qed
next
  case Start_write
  then have "bs_phase s t = Copied" and "start_write t s = Inr s'"
    using assms(2) by (simp_all split: if_splits)
  moreover have "\<not> bs_write_finished s" using owner_active [OF assms(1), of t] \<open>bs_phase s t = Copied\<close> by simp
  ultimately show ?thesis
    using owner_yield [OF assms(1), of t False True Resting] by (auto simp: start_write_def enter_def split: if_splits)
next
  case Check_queue
  then have "bs_phase s t = Completed" and "s' = check_queue t s"
    using assms(2) by (simp_all split: if_splits)
  moreover have "\<not> bs_writing s" using owner_active [OF assms(1), of t] \<open>bs_phase s t = Completed\<close> by simp
  ultimately show ?thesis
    using assms(1) by (auto simp: check_queue_def enter_def owner_keep intro: owner_yield split: if_splits)
next
  case Start_reading
  then show ?thesis using assms other_events [of t e s s'] by (simp add: writer_part_def)
next
  case (Read_done ec d)
  then show ?thesis using assms other_events [of t e s s'] by (simp add: writer_part_def)
next
  case (Close_done ec)
  then show ?thesis using assms other_events [of t e s s'] by (simp add: writer_part_def)
qed (use assms in \<open>auto simp: push_data_def take_front_def begin_close_def finish_close_def enter_def
    intro!: owner_keep split: if_splits list.splits\<close>)

lemma buffered_keep: "ph t \<noteq> Copied \<Longrightarrow> p \<noteq> Copied \<Longrightarrow> buffered (ph(t := p)) b = buffered ph b"
  by (auto simp: buffered_def)

lemma buffered_owner:
  assumes "one_owner f w ph" and "owning (ph t)"
  shows "buffered ph b = (if ph t = Copied then [b] else [])"
proof -
  have "u = t" if "ph u = Copied" for u using owner_unique [OF assms, of u] that by simp
  then show ?thesis by (auto simp: buffered_def)
qed

lemma buffered_release:
  assumes "one_owner f w ph" and "ph t = Copied"
  shows "buffered (ph(t := Resting)) b = []"
proof -
  have "u = t" if "ph u = Copied" for u using owner_unique [OF assms(1), of t u] assms(2) that by simp
  then show ?thesis by (auto simp: buffered_def)
qed

lemma in_order_step:
  assumes "one_writer s" and "in_order s" and "bs_step t e s = Some (Inr s')"
  shows "in_order s'"
proof (cases e)
  case (Write_done ec)
  then have d: "bs_phase s t = Resting" "bs_phase s' = (if ec = Success then (bs_phase s)(t := Completed) else bs_phase s)"
    "bs_write_queue s' = bs_write_queue s" "bs_write_buffer s' = bs_write_buffer s" "bs_pushed s' = bs_pushed s"
    "bs_handed s' = bs_handed s"
    using write_done_step assms(3) by blast+
  then show ?thesis using assms(2) by (simp add: in_order_def buffered_keep)
next
  case Take
  then have t: "bs_phase s t = Owner" and "take_front t s = Inr s'" using assms(3) by (simp_all split: if_splits)
  then obtain d ds where q: "bs_write_queue s = d # ds"
    and s': "s' = enter t Copied (s\<lparr>bs_write_buffer := d, bs_write_queue := ds\<rparr>)"
    by (auto simp: take_front_def split: list.splits)
  have "buffered ((bs_phase s)(t := Copied)) d = [d]" by (auto simp: buffered_def)
  moreover have "buffered (bs_phase s) (bs_write_buffer s) = []" using buffered_owner [OF assms(1), of t] t by simp
  ultimately show ?thesis using assms(2) q s' by (simp add: enter_def in_order_def)
next
  case Start_write
  then have "bs_phase s t = Copied" and "start_write t s = Inr s'" using assms(3) by (simp_all split: if_splits)
  then show ?thesis
    using assms(2) buffered_owner [OF assms(1), of t] buffered_release [OF assms(1), of t]
    by (auto simp: start_write_def enter_def in_order_def split: if_splits)
next
  case Start_reading
  then show ?thesis using assms other_events [of t e s s'] by (simp add: writer_part_def in_order_def)
next
  case (Read_done ec d)
  then show ?thesis using assms other_events [of t e s s'] by (simp add: writer_part_def in_order_def)
next
  case (Close_done ec)
  then show ?thesis using assms other_events [of t e s s'] by (simp add: writer_part_def in_order_def)
qed (use assms(2,3) in \<open>auto simp: push_data_def claim_write_def check_queue_def begin_close_def finish_close_def enter_def
    in_order_def buffered_keep split: if_splits\<close>)

lemma reaches_writer: "reaches ok s \<Longrightarrow> one_writer s \<and> in_order s"
proof (induction rule: reaches.induct)
  case fresh
  show ?case by (simp add: new_bsocket_def one_owner_def in_order_def buffered_def)
next
  case (step s e t s')
  then show ?case using one_writer_step in_order_step by blast
qed

text \<open>A write that is outstanding writes the last message that was handed over, from the write buffer.\<close>

definition write_held :: "bsocket \<Rightarrow> bool" where
  "write_held s \<longleftrightarrow> (bs_writing s \<longrightarrow> bs_handed s \<noteq> [] \<and> last (bs_handed s) = bs_write_buffer s)"

lemma buffer_untouched:
  assumes "one_writer s" and "bs_writing s" and "bs_step t e s = Some (Inr s')"
  shows "bs_write_buffer s' = bs_write_buffer s \<and> bs_handed s' = bs_handed s"
proof -
  have "bs_phase s t \<notin> {Owner, Copied}" using owner_active [OF assms(1), of t] assms(2) by auto
  then show ?thesis
    using assms(3) write_done_step [of t _ s s'] other_events [of t e s s']
    by (cases e) (auto simp: push_data_def claim_write_def check_queue_def begin_close_def finish_close_def
      enter_def writer_part_def simp del: bs_step.simps(5,7,8,11) split: if_splits)
qed

lemma write_held_step:
  assumes "one_writer s" and "write_held s" and "bs_step t e s = Some (Inr s')"
  shows "write_held s'"
proof (cases "bs_writing s")
  case True
  then show ?thesis using buffer_untouched [OF assms(1) True assms(3)] assms(2) by (simp add: write_held_def)
next
  case False
  then show ?thesis
    using assms(3) write_done_step [of t _ s s'] other_events [of t e s s']
    by (cases e) (auto simp: push_data_def claim_write_def check_queue_def begin_close_def finish_close_def take_front_def
      start_write_def write_held_def enter_def writer_part_def simp del: bs_step.simps(5,7,8,11) split: if_splits list.splits)
qed

lemma reaches_held: "reaches ok s \<Longrightarrow> write_held s"
proof (induction rule: reaches.induct)
  case fresh
  show ?case by (simp add: new_bsocket_def write_held_def)
next
  case (step s e t s')
  then show ?case using write_held_step reaches_writer by blast
qed

text \<open>C11. The write queue is a queue, in every interleaving of any number of sending threads with the
  completion handlers, whatever fails and whoever closes: what was given to Beast, followed by the
  message in the write buffer, if a thread has taken one out of the queue and not yet handed it over, and the queue
  is what was sent, in the order in which it was
  queued; no second write is ever started while one is outstanding; and as long as a write is outstanding, the
  buffer it writes from holds the message that was handed over last, which no step changes.\<close>

theorem messages_written_in_order:
  assumes "reaches ok s"
  shows "bs_pushed s = bs_handed s @ (if \<exists>u. bs_phase s u = Copied then [bs_write_buffer s] else []) @ bs_write_queue s \<and>
    bs_step t e s \<noteq> Some (Inl (Undefined Failed_assertion)) \<and>
    (bs_writing s \<longrightarrow> bs_handed s \<noteq> [] \<and> last (bs_handed s) = bs_write_buffer s \<and>
       (\<forall>s'. bs_step t e s = Some (Inr s') \<longrightarrow> bs_write_buffer s' = bs_write_buffer s))"
proof (intro conjI)
  have inv: "one_writer s" "in_order s" using reaches_writer [OF assms] by simp_all
  show "bs_pushed s = bs_handed s @ (if \<exists>u. bs_phase s u = Copied then [bs_write_buffer s] else []) @ bs_write_queue s"
    using inv(2) by (simp add: in_order_def buffered_def)
  show "bs_step t e s \<noteq> Some (Inl (Undefined Failed_assertion))"
    using owner_active [OF inv(1), of t]
    by (cases e) (auto simp: take_front_def start_write_def do_async_read_def on_async_read_def
      finish_close_def split: if_splits list.splits prod.splits bool.splits)
  show "bs_writing s \<longrightarrow> bs_handed s \<noteq> [] \<and> last (bs_handed s) = bs_write_buffer s \<and>
       (\<forall>s'. bs_step t e s = Some (Inr s') \<longrightarrow> bs_write_buffer s' = bs_write_buffer s)"
    using reaches_held [OF assms] buffer_untouched [OF inv(1)] by (auto simp: write_held_def)
qed

text \<open>Two threads send; the first message is being written, the second waits in the queue.\<close>

definition demo_sends :: "(nat \<times> bs_event) list" where
  "demo_sends = [(1, Send [1]), (1, Exchange False), (1, Take), (1, Start_write), (2, Send [2]), (2, Exchange False)]"

theorem messages_written_in_order_witness:
  "\<exists>s. bs_run demo_sends new_bsocket = Some (Inr s) \<and> bs_pushed s = [[1], [2]] \<and> bs_handed s = [[1]] \<and>
     bs_write_queue s = [[2]] \<and> last (bs_handed s) = bs_write_buffer s \<and> bs_step 2 Take s \<noteq> Some (Inl (Undefined Failed_assertion))"
proof -
  obtain s where run: "bs_run demo_sends new_bsocket = Some (Inr s)"
    and s: "bs_handed s = [[1]]" "bs_write_queue s = [[2]]" "bs_writing s" "\<forall>u. bs_phase s u = Resting"
    by (simp add: demo_sends_def new_bsocket_def socket_defs)
  have "reaches (\<lambda>_. True) s"
    by (rule reaches_run [OF reaches.fresh run]) (simp add: demo_sends_def)
  then show ?thesis using messages_written_in_order [of "\<lambda>_. True" s 2 Take] run s by auto
qed

subsection \<open>What does not go wrong, and what does\<close>

text \<open>Events without spurious failures, errors and closing.\<close>

fun smooth :: "bs_event \<Rightarrow> bool" where
  "smooth (Exchange spurious) \<longleftrightarrow> \<not> spurious"
| "smooth (Write_done ec) \<longleftrightarrow> ec = Success"
| "smooth (Read_done ec _) \<longleftrightarrow> ec = Success"
| "smooth Close \<longleftrightarrow> False"
| "smooth _ \<longleftrightarrow> True"

text \<open>Somebody will look at a queue that is not empty; a flag that is not set has an owner.\<close>

definition attended :: "bsocket \<Rightarrow> bool" where
  "attended s \<longleftrightarrow> (bs_write_queue s \<noteq> [] \<and> bs_write_finished s \<longrightarrow> (\<exists>t. bs_phase s t = Enqueued)) \<and>
     (\<not> bs_write_finished s \<longrightarrow> bs_writing s \<or> (\<exists>t. owning (bs_phase s t)))"

lemma still_owning: "\<exists>u. owning (ph u) \<Longrightarrow> \<not> owning (ph t) \<Longrightarrow> \<exists>u. owning ((ph(t := p)) u)"
  by (metis fun_upd_other)

lemma still_enqueued: "\<exists>u. ph u = Enqueued \<Longrightarrow> ph t \<noteq> Enqueued \<Longrightarrow> \<exists>u. (ph(t := p)) u = Enqueued"
  by (metis fun_upd_other)

lemma attended_owner: "\<not> bs_write_finished s \<Longrightarrow> owning (bs_phase s t) \<Longrightarrow> attended s"
  by (auto simp: attended_def)

lemma attended_enter:
  assumes "attended s" and "\<not> owning (bs_phase s t)" and "bs_phase s t \<noteq> Enqueued \<or> \<not> bs_write_finished s"
  shows "attended (enter t p s)"
  using assms still_owning [of "bs_phase s" t p] still_enqueued [of "bs_phase s" t p]
  by (simp add: attended_def enter_def del: fun_upd_apply) blast

lemma attended_step:
  assumes "one_writer s" and "attended s" and "bs_step t e s = Some (Inr s')" and "smooth e"
  shows "attended s'"
proof (cases e)
  case (Send d)
  then have "bs_phase s t = Resting" and "s' = push_data t d s" using assms(3) by (simp_all split: if_splits)
  then show ?thesis
    using assms(2) still_owning [of "bs_phase s" t Enqueued]
    by (simp add: push_data_def attended_def enter_def del: fun_upd_apply) (metis fun_upd_same)
next
  case (Exchange spurious)
  then have "bs_phase s t = Enqueued" and s': "s' = claim_write t False s" using assms(3,4) by (simp_all split: if_splits)
  then show ?thesis
    using attended_enter [OF assms(2), of t Resting] by (simp add: claim_write_def enter_def attended_owner [where t = t])
next
  case Take
  then have "bs_phase s t = Owner" and "take_front t s = Inr s'" using assms(3) by (simp_all split: if_splits)
  then show ?thesis
    using owner_active [OF assms(1), of t]
    by (auto simp: take_front_def enter_def intro!: attended_owner [where t = t] split: list.splits)
next
  case Start_write
  then have "bs_phase s t = Copied" and "start_write t s = Inr s'" using assms(3) by (simp_all split: if_splits)
  then show ?thesis
    using owner_active [OF assms(1), of t] by (auto simp: start_write_def enter_def attended_def split: if_splits)
next
  case Check_queue
  then have "bs_phase s t = Completed" and "s' = check_queue t s" using assms(3) by (simp_all split: if_splits)
  moreover have "attended (enter t Resting (s\<lparr>bs_write_finished := True\<rparr>))" if "bs_write_queue s = []"
    using that by (simp add: attended_def enter_def)
  moreover have "attended (enter t Owner s)" if "bs_phase s t = Completed"
    using that owner_active [OF assms(1), of t] by (auto simp: enter_def intro!: attended_owner [where t = t])
  ultimately show ?thesis by (simp add: check_queue_def)
next
  case (Write_done ec)
  then have d: "bs_phase s' = (if ec = Success then (bs_phase s)(t := Completed) else bs_phase s)"
    "bs_write_finished s' = bs_write_finished s" "bs_writing s"
    using write_done_step assms(3) by blast+
  moreover have "ec = Success" using assms(4) Write_done by simp
  moreover have "\<not> bs_write_finished s" using assms(1) d(3) by (simp add: one_owner_def)
  ultimately show ?thesis by (intro attended_owner [where t = t]) simp_all
next
  case Start_reading
  then show ?thesis using assms other_events [of t e s s'] by (simp add: writer_part_def attended_def)
next
  case (Read_done ec d)
  then have "writer_part s' = writer_part s" using other_events [OF assms(3), of ec d] by simp
  then show ?thesis using assms(2) by (simp add: writer_part_def attended_def)
next
  case Finish_close
  then have "bs_phase s t = Closing" and "finish_close t s = Inr s'" using assms(3) by (simp_all split: if_splits)
  then show ?thesis
    using assms(2) attended_enter [of "s\<lparr>bs_closing := True, bs_connection := False\<rparr>" t Resting]
    by (auto simp: finish_close_def attended_def split: if_splits)
next
  case (Close_done ec)
  then show ?thesis using assms other_events [of t e s s'] by (simp add: writer_part_def attended_def)
qed (use assms(4) in simp)

lemma reaches_attended: "reaches smooth s \<Longrightarrow> attended s"
proof (induction rule: reaches.induct)
  case fresh
  show ?case by (simp add: new_bsocket_def attended_def)
next
  case (step s e t s')
  then show ?case using attended_step reaches_writer by blast
qed

text \<open>C29. No message is left behind as long as nothing fails: in every state in which no thread is at
  work and no write is outstanding, everything that was sent has been given to Beast. The weak
  exchange makes this conditional: when it fails although the flag is set, which it may at any time,
  the message stays in the queue and nobody is left to send it.\<close>

theorem messages_not_left_behind:
  "(\<forall>s. reaches smooth s \<longrightarrow> (\<forall>t. bs_phase s t = Resting) \<longrightarrow> \<not> bs_writing s \<longrightarrow> bs_handed s = bs_pushed s) \<and>
   (\<exists>s. reaches (\<lambda>e. e = Send d \<or> e = Exchange True) s \<and> (\<forall>t. bs_phase s t = Resting) \<and> \<not> bs_writing s \<and>
      bs_pushed s = [d] \<and> bs_handed s = [])"
proof
  show "\<forall>s. reaches smooth s \<longrightarrow> (\<forall>t. bs_phase s t = Resting) \<longrightarrow> \<not> bs_writing s \<longrightarrow> bs_handed s = bs_pushed s"
  proof (intro allI impI)
    fix s
    assume "reaches smooth s" and "\<forall>t. bs_phase s t = Resting" and "\<not> bs_writing s"
    moreover from this have "bs_write_queue s = []"
      using reaches_attended [of s] by (auto simp: attended_def)
    ultimately show "bs_handed s = bs_pushed s"
      using reaches_writer [of smooth s] by (simp add: in_order_def buffered_def)
  qed
  obtain s where run: "bs_run [(1, Send d), (1, Exchange True)] new_bsocket = Some (Inr s)"
    and "bs_pushed s = [d] \<and> bs_handed s = [] \<and> \<not> bs_writing s \<and> (\<forall>t. bs_phase s t = Resting)"
    by (simp add: new_bsocket_def socket_defs)
  moreover have "reaches (\<lambda>e. e = Send d \<or> e = Exchange True) s"
    by (rule reaches_run [OF reaches.fresh run]) simp
  ultimately show "\<exists>s. reaches (\<lambda>e. e = Send d \<or> e = Exchange True) s \<and> (\<forall>t. bs_phase s t = Resting) \<and>
      \<not> bs_writing s \<and> bs_pushed s = [d] \<and> bs_handed s = []" by blast
qed

theorem messages_not_left_behind_witness:
  "\<exists>s. bs_run [(1, Send [7]), (1, Exchange False), (1, Take), (1, Start_write), (0, Write_done Success), (0, Check_queue)] new_bsocket =
     Some (Inr s) \<and> bs_pushed s = [[7]] \<and> bs_handed s = bs_pushed s"
proof -
  obtain s where run: "bs_run [(1, Send [7]), (1, Exchange False), (1, Take), (1, Start_write), (0, Write_done Success), (0, Check_queue)]
      new_bsocket = Some (Inr s)"
    and "bs_pushed s = [[7]]" "\<forall>t. bs_phase s t = Resting" "\<not> bs_writing s"
    by (simp add: new_bsocket_def socket_defs)
  moreover have "reaches smooth s" by (rule reaches_run [OF reaches.fresh run]) simp
  ultimately show ?thesis using messages_not_left_behind [THEN conjunct1] by blast
qed

text \<open>Two threads suffice to crash a connection: a thread that is held up in \<open>send\<close> between queueing
  its message and claiming the flag, while the message is sent by the handler of the write before,
  claims the flag afterwards and takes the front of an empty queue.\<close>

theorem send_races_with_completion:
  assumes "bs_writing s" and "bs_connection s" and "bs_write_queue s = []" and "\<not> bs_write_finished s"
    and "bs_phase s 0 = Resting" and "bs_phase s t = Resting" and "t \<noteq> 0"
  shows "bs_run [(t, Send d), (0, Write_done Success), (0, Check_queue), (0, Take), (0, Start_write),
      (0, Write_done Success), (0, Check_queue), (t, Exchange False), (t, Take)] s = Some (Inl (Undefined Out_of_bounds))"
  using assms by (simp add: socket_defs)

theorem send_races_with_completion_witness:
  "\<exists>s. bs_run [(1, Send [7]), (1, Exchange False), (1, Take), (1, Start_write)] new_bsocket = Some (Inr s) \<and>
     bs_run [(1, Send [8]), (0, Write_done Success), (0, Check_queue), (0, Take), (0, Start_write),
      (0, Write_done Success), (0, Check_queue), (1, Exchange False), (1, Take)] s = Some (Inl (Undefined Out_of_bounds))"
proof -
  obtain s where "bs_run [(1, Send [7]), (1, Exchange False), (1, Take), (1, Start_write)] new_bsocket = Some (Inr s)"
    and "bs_writing s" "bs_connection s" "bs_write_queue s = []" "\<not> bs_write_finished s" "bs_phase s 0 = Resting" "bs_phase s 1 = Resting"
    by (simp add: new_bsocket_def socket_defs)
  then show ?thesis using send_races_with_completion [of s 1 "[8]"] by auto
qed

text \<open>Closing a socket ends it badly. The pointer to the connection is null from then on, so the next
  message that is sent, and a read that completes without an error, dereference it; and when the
  read that is outstanding fails because of the close, \<open>on_close\<close> is emitted twice.\<close>

theorem closed_socket_misbehaves:
  assumes "bs_connected s" and "bs_connection s" and "bs_write_finished s" and "bs_write_queue s = []" and "bs_reading s"
    and "bs_phase s 0 = Resting" and "bs_phase s t = Resting" and "ec \<noteq> Success"
  shows "bs_run [(t, Close), (t, Finish_close), (t, Send d), (t, Exchange False), (t, Take), (t, Start_write)] s =
      Some (Inl (Undefined Null_deref)) \<and>
    bs_run [(t, Close), (t, Finish_close), (0, Read_done Success d)] s = Some (Inl (Undefined Null_deref)) \<and>
    (\<exists>s' es. bs_run [(t, Close), (t, Finish_close), (0, Read_done ec []), (0, Close_done Success)] s = Some (Inr s') \<and>
      bs_signals s' = bs_signals s @ es @ [On_close, On_close])"
  using assms by (cases "t = 0") (auto simp: socket_defs)

theorem closed_socket_misbehaves_witness:
  "\<exists>s. bs_run [(0, Start_reading)] new_bsocket = Some (Inr s) \<and>
     bs_run [(1, Close), (1, Finish_close), (1, Send [7]), (1, Exchange False), (1, Take), (1, Start_write)] s =
       Some (Inl (Undefined Null_deref))"
proof -
  obtain s where "bs_run [(0, Start_reading)] new_bsocket = Some (Inr s)"
    and "bs_connected s" "bs_connection s" "bs_write_finished s" "bs_write_queue s = []" "bs_reading s"
      "bs_phase s 0 = Resting" "bs_phase s 1 = Resting"
    by (simp add: new_bsocket_def socket_defs)
  then show ?thesis using closed_socket_misbehaves [of s 1 End_of_stream "[7]"] by auto
qed

end
