(* ===== verification/Socket_Adapter.thy ===== *)
theory Socket_Adapter
  imports Sockets Signals
begin

section \<open>Socket adapters and text packets (modules networking and protocol)\<close>

text \<open>
  \<open>SocketAdapter\<close> listens to the three signals of a socket on behalf of a connection, and turns bytes
  into packets; \<open>TextPacket\<close> is the packet the server uses. An adapter is named by a number. Its
  listeners capture \<open>this\<close>: they are the adapter's number, and calling one after the adapter is gone
  is a use after free. The move constructor leaves the other adapter without a socket, but with its
  listeners still registered.
\<close>

definition byte_of_char :: "char \<Rightarrow> 8 word" where
  "byte_of_char c = of_nat (of_char c)"

definition char_of_byte :: "8 word \<Rightarrow> char" where
  "char_of_byte b = char_of (unat b)"

definition to_bytes :: "string \<Rightarrow> bytes" where
  "to_bytes text = map byte_of_char text"

definition from_bytes :: "bytes \<Rightarrow> string" where
  "from_bytes d = map char_of_byte d"

lemma char_of_byte_of_char: "char_of_byte (byte_of_char c) = c"
proof -
  have "(of_char c :: nat) \<in> range of_char" by simp
  then have "(of_char c :: nat) < 256" unfolding range_nat_of_char by simp
  then have "unat (byte_of_char c) = of_char c" by (simp add: byte_of_char_def unat_of_nat)
  then show ?thesis by (simp add: char_of_byte_def)
qed

lemma byte_of_char_of_byte: "byte_of_char (char_of_byte b) = b"
proof -
  have "unat b < 256" using unsigned_less [of b] by simp
  then show ?thesis by (simp add: byte_of_char_def char_of_byte_def)
qed

lemma bytes_roundtrip: "from_bytes (to_bytes text) = text" "to_bytes (from_bytes d) = d"
  by (simp_all add: to_bytes_def from_bytes_def char_of_byte_of_char byte_of_char_of_byte comp_def)

subsection \<open>Adapters\<close>

record 'i adapter =
  ad_socket :: bool
  ad_on_error :: 'i
  ad_on_close :: 'i
  ad_on_data :: 'i

record 'i attachments =
  at_error :: "(nat, 'i) signal"
  at_close :: "(nat, 'i) signal"
  at_data :: "(nat, 'i) signal"
  at_adapters :: "nat \<Rightarrow> 'i adapter option"
  at_messages :: "(nat \<times> string) list"

type_synonym 'w adapter_op = "('w word attachments, unit) op"

definition attach_signals :: "nat \<Rightarrow> 'w::len word attachments \<Rightarrow> 'w word attachments" where
  "attach_signals a s = (case (listen a (at_error s), listen a (at_close s), listen a (at_data s)) of
     ((i, e), (j, c), (k, d)) \<Rightarrow> s\<lparr>at_error := e, at_close := c, at_data := d,
       at_adapters := (at_adapters s)(a \<mapsto> \<lparr>ad_socket = True, ad_on_error = i, ad_on_close = j, ad_on_data = k\<rparr>)\<rparr>)"

definition has_socket :: "nat \<Rightarrow> 'w::len word attachments \<Rightarrow> bool" where
  "has_socket a s \<longleftrightarrow> (case at_adapters s a of None \<Rightarrow> False | Some x \<Rightarrow> ad_socket x)"

definition construct_adapter :: "nat \<Rightarrow> 'w::len adapter_op" where
  "construct_adapter a = smodify (attach_signals a)"

definition copy_adapter :: "nat \<Rightarrow> nat \<Rightarrow> 'w::len adapter_op" where
  "copy_adapter a b = sbind (sread (has_socket b)) (\<lambda>ok.
     if \<not> ok then undefined_behaviour Null_deref else smodify (attach_signals a))"

definition move_adapter :: "nat \<Rightarrow> nat \<Rightarrow> 'w::len adapter_op" where
  "move_adapter a b = sbind (sread (has_socket b)) (\<lambda>ok.
     if \<not> ok then undefined_behaviour Null_deref
     else smodify (\<lambda>s. attach_signals a
       (s\<lparr>at_adapters := (at_adapters s)(b := map_option (\<lambda>x. x\<lparr>ad_socket := False\<rparr>) (at_adapters s b))\<rparr>)))"

definition destroy_adapter :: "nat \<Rightarrow> 'w::len adapter_op" where
  "destroy_adapter a = sbind (sread (\<lambda>s. at_adapters s a)) (\<lambda>x. case x of
     None \<Rightarrow> undefined_behaviour Use_after_free
   | Some x \<Rightarrow>
       if \<not> ad_socket x then undefined_behaviour Null_deref
       else smodify (\<lambda>s. s\<lparr>at_data := snd (remove_listener (ad_on_data x) (at_data s)),
         at_error := snd (remove_listener (ad_on_error x) (at_error s)),
         at_close := snd (remove_listener (ad_on_close x) (at_close s)),
         at_adapters := (at_adapters s)(a := None)\<rparr>))"

text \<open>The socket emits \<open>on_data\<close>: the adapters that listen emit \<open>on_message\<close>.\<close>

definition deliver :: "bytes \<Rightarrow> nat \<Rightarrow> 'w::len adapter_op" where
  "deliver d a = sbind (sread (\<lambda>s. at_adapters s a)) (\<lambda>x. case x of
     None \<Rightarrow> undefined_behaviour Use_after_free
   | Some _ \<Rightarrow> smodify (\<lambda>s. s\<lparr>at_messages := at_messages s @ [(a, from_bytes d)]\<rparr>))"

definition receive_data :: "bytes \<Rightarrow> 'w::len adapter_op" where
  "receive_data d = sbind (sread (\<lambda>s. fst (emit (at_data s)))) (\<lambda>ls.
     sseq (smodify (\<lambda>s. s\<lparr>at_data := snd (emit (at_data s))\<rparr>)) (sfor ls (deliver d)))"

text \<open>\<open>send\<close>: the message as bytes, through the socket.\<close>

definition adapter_send :: "nat \<Rightarrow> string \<Rightarrow> bsocket \<Rightarrow> bsocket" where
  "adapter_send t text s = push_data t (to_bytes text) s"

subsection \<open>Adapters that are not moved\<close>

datatype adapter_event = Construct nat | Copy_of nat nat | Destroy nat

fun adapter_step :: "adapter_event \<Rightarrow> 'w::len adapter_op" where
  "adapter_step (Construct a) = construct_adapter a"
| "adapter_step (Copy_of a b) = copy_adapter a b"
| "adapter_step (Destroy a) = destroy_adapter a"

text \<open>What a program can do: construct an adapter where there is none, copy and destroy one that exists.\<close>

fun permitted :: "adapter_event \<Rightarrow> (nat \<Rightarrow> bool) \<Rightarrow> bool" where
  "permitted (Construct a) live \<longleftrightarrow> \<not> live a"
| "permitted (Copy_of a b) live \<longleftrightarrow> \<not> live a \<and> live b"
| "permitted (Destroy a) live \<longleftrightarrow> live a"

fun lives :: "adapter_event \<Rightarrow> (nat \<Rightarrow> bool) \<Rightarrow> (nat \<Rightarrow> bool)" where
  "lives (Construct a) live = live(a := True)"
| "lives (Copy_of a b) live = live(a := True)"
| "lives (Destroy a) live = live(a := False)"

fun all_permitted :: "adapter_event list \<Rightarrow> (nat \<Rightarrow> bool) \<Rightarrow> bool" where
  "all_permitted [] live \<longleftrightarrow> True"
| "all_permitted (e # es) live \<longleftrightarrow> permitted e live \<and> all_permitted es (lives e live)"

definition adapter_run :: "adapter_event list \<Rightarrow> 'w::len adapter_op" where
  "adapter_run es = sfor es adapter_step"

definition fresh_socket :: "'w::len word \<Rightarrow> 'w word \<Rightarrow> 'w word \<Rightarrow> 'w word attachments" where
  "fresh_socket i j k = \<lparr>at_error = new_signal i, at_close = new_signal j, at_data = new_signal k,
     at_adapters = (\<lambda>_. None), at_messages = []\<rparr>"

text \<open>The listeners of a signal are the live adapters, under their ids.\<close>

definition listens_for :: "(nat \<Rightarrow> 'w::len word) \<Rightarrow> nat list \<Rightarrow> (nat, 'w word) signal \<Rightarrow> bool" where
  "listens_for ident order s \<longleftrightarrow> listeners s = map (\<lambda>a. (ident a, a)) order \<and> listeners_once s = []"

lemma listens_for_add:
  assumes "listens_for ident order s" and "a \<notin> set order" and "listen a s = (i, s')"
  shows "listens_for (ident(a := i)) (order @ [a]) s'"
  using assms by (auto simp: listens_for_def listen_def Let_def)

lemma listens_for_remove:
  assumes "listens_for ident order s" and "distinct (map ident order)" and "a \<in> set order" and "distinct order"
  shows "listens_for ident (remove1 a order) (snd (remove_listener (ident a) s))"
proof -
  have "filter (\<lambda>b. ident b \<noteq> ident a) order = remove1 a order"
    using assms(2-4) by (auto simp: distinct_remove1_removeAll removeAll_filter_not_eq distinct_map inj_on_def
      intro!: filter_cong)
  then show ?thesis
    using assms by (auto simp: listens_for_def remove_listener_def filter_map comp_def image_iff)
qed

definition signal_ok :: "(nat \<Rightarrow> 'w::len word) \<Rightarrow> nat list \<Rightarrow> 'w word \<Rightarrow> nat \<Rightarrow> (nat, 'w word) signal \<Rightarrow> bool" where
  "signal_ok ident order base n s \<longleftrightarrow> listens_for ident order s \<and> sig_inv base n s"

lemma signal_ok_add:
  fixes s :: "(nat, 'w::len word) signal"
  assumes "signal_ok ident order base n s" and "n < 2 ^ LENGTH('w)" and "a \<notin> set order" and "listen a s = (i, s')"
    and "\<And>b. b \<in> set order \<Longrightarrow> ident' b = ident b" and "ident' a = i"
  shows "signal_ok ident' (order @ [a]) base (Suc n) s'"
proof -
  have "sig_inv base (Suc n) s'"
    using sig_inv_register [of base n s "Listen a"] assms(1,2,4) by (simp add: signal_ok_def)
  moreover have "listens_for ident' (order @ [a]) s'"
    using assms(1,4-6) by (auto simp: signal_ok_def listens_for_def listen_def Let_def)
  ultimately show ?thesis by (simp add: signal_ok_def)
qed

lemma signal_ok_remove:
  assumes "signal_ok ident order base n s" and "a \<in> set order" and "distinct order"
    and "\<And>b. b \<in> set order - {a} \<Longrightarrow> ident' b = ident b"
  shows "signal_ok ident' (remove1 a order) base n (snd (remove_listener (ident a) s))"
proof -
  have "map fst (listeners s) = map ident order" using assms(1) by (simp add: signal_ok_def listens_for_def comp_def)
  then have "distinct (map ident order)" using assms(1) by (simp add: signal_ok_def sig_inv_def listener_ids_def)
  then have "listens_for ident (remove1 a order) (snd (remove_listener (ident a) s))"
    using listens_for_remove assms(1-3) by (auto simp: signal_ok_def)
  then have "listens_for ident' (remove1 a order) (snd (remove_listener (ident a) s))"
    using assms(3,4) by (auto simp: listens_for_def)
  moreover have "sig_inv base n (snd (remove_listener (ident a) s))"
    using sig_inv_other [of base n s "Remove (ident a)"] assms(1) by (simp add: signal_ok_def)
  ultimately show ?thesis by (simp add: signal_ok_def)
qed

definition ident :: "('w::len word adapter \<Rightarrow> 'w word) \<Rightarrow> 'w word attachments \<Rightarrow> nat \<Rightarrow> 'w word" where
  "ident f s a = f (the (at_adapters s a))"

definition attached ::
  "'w::len word \<Rightarrow> 'w word \<Rightarrow> 'w word \<Rightarrow> nat \<Rightarrow> nat list \<Rightarrow> 'w word attachments \<Rightarrow> bool"
where
  "attached i j k n order s \<longleftrightarrow> distinct order \<and> (\<forall>a. has_socket a s \<longleftrightarrow> a \<in> set order) \<and>
     dom (at_adapters s) = set order \<and> signal_ok (ident ad_on_error s) order i n (at_error s) \<and>
     signal_ok (ident ad_on_close s) order j n (at_close s) \<and> signal_ok (ident ad_on_data s) order k n (at_data s)"

lemma attached_attach:
  fixes s :: "'w::len word attachments"
  assumes "attached i j k n order s" and "n < 2 ^ LENGTH('w)" and "a \<notin> set order"
  shows "attached i j k (Suc n) (order @ [a]) (attach_signals a s)"
proof -
  obtain x e y c z d where l: "listen a (at_error s) = (x, e)" "listen a (at_close s) = (y, c)" "listen a (at_data s) = (z, d)"
    by (cases "listen a (at_error s)"; cases "listen a (at_close s)"; cases "listen a (at_data s)")
  have "signal_ok (ident ad_on_error (attach_signals a s)) (order @ [a]) i (Suc n) e"
    "signal_ok (ident ad_on_close (attach_signals a s)) (order @ [a]) j (Suc n) c"
    "signal_ok (ident ad_on_data (attach_signals a s)) (order @ [a]) k (Suc n) d"
    using assms l by (auto intro!: signal_ok_add [OF _ assms(2,3)] simp: attached_def attach_signals_def ident_def)
  then show ?thesis
    using assms(1,3) l by (auto simp: attached_def attach_signals_def has_socket_def)
qed

lemma attached_destroy:
  assumes "attached i j k n order s" and "a \<in> set order"
  shows "fst (destroy_adapter a s) = Inr () \<and> attached i j k n (remove1 a order) (snd (destroy_adapter a s))"
proof -
  have "has_socket a s" and d: "distinct order" using assms by (simp_all add: attached_def)
  then obtain x where x: "at_adapters s a = Some x" "ad_socket x" by (auto simp: has_socket_def split: option.splits)
  define s' where "s' = snd (destroy_adapter a s)"
  have s': "at_adapters s' = (at_adapters s)(a := None)" "at_error s' = snd (remove_listener (ident ad_on_error s a) (at_error s))"
    "at_close s' = snd (remove_listener (ident ad_on_close s a) (at_close s))"
    "at_data s' = snd (remove_listener (ident ad_on_data s a) (at_data s))"
    using x by (simp_all add: s'_def destroy_adapter_def act_simps ident_def)
  have same: "ident f s' b = ident f s b" if "b \<in> set order - {a}" for f b
    using that by (simp add: ident_def s')
  have "signal_ok (ident ad_on_error s') (remove1 a order) i n (at_error s')"
    "signal_ok (ident ad_on_close s') (remove1 a order) j n (at_close s')"
    "signal_ok (ident ad_on_data s') (remove1 a order) k n (at_data s')"
    using assms unfolding s'(2-4)
    by (auto intro!: signal_ok_remove [OF _ assms(2) d same] simp: attached_def simp del: Diff_iff)
  then have "attached i j k n (remove1 a order) s'"
    using assms d by (auto simp: attached_def has_socket_def s')
  then show ?thesis using x by (simp add: s'_def destroy_adapter_def act_simps)
qed

lemma attached_step:
  fixes s :: "'w::len word attachments"
  assumes "attached i j k n order s" and "n < 2 ^ LENGTH('w)" and "permitted e (\<lambda>a. a \<in> set order)"
  shows "\<exists>m order'. fst (adapter_step e s) = Inr () \<and> m \<le> Suc n \<and> attached i j k m order' (snd (adapter_step e s)) \<and>
    (\<lambda>a. a \<in> set order') = lives e (\<lambda>a. a \<in> set order)"
proof (cases e)
  case (Construct a)
  then have "attached i j k (Suc n) (order @ [a]) (attach_signals a s)" using attached_attach assms by auto
  then show ?thesis
    using Construct by (intro exI [of _ "Suc n"] exI [of _ "order @ [a]"]) (auto simp: construct_adapter_def act_simps fun_eq_iff)
next
  case (Copy_of a b)
  then have "attached i j k (Suc n) (order @ [a]) (attach_signals a s)"
    using attached_attach assms by auto
  moreover have "has_socket b s" using assms(1,3) Copy_of by (simp add: attached_def)
  ultimately show ?thesis
    using Copy_of by (intro exI [of _ "Suc n"] exI [of _ "order @ [a]"]) (auto simp: copy_adapter_def act_simps fun_eq_iff)
next
  case (Destroy a)
  then have "fst (destroy_adapter a s) = Inr () \<and> attached i j k n (remove1 a order) (snd (destroy_adapter a s))"
    using attached_destroy assms by simp
  moreover have "distinct order" using assms(1) by (simp add: attached_def)
  ultimately show ?thesis
    using Destroy by (intro exI [of _ n] exI [of _ "remove1 a order"]) (auto simp: fun_eq_iff)
qed

lemma attached_run:
  fixes s :: "'w::len word attachments"
  assumes "attached i j k n order s" and "n + length es \<le> 2 ^ LENGTH('w)" and "all_permitted es (\<lambda>a. a \<in> set order)"
  shows "\<exists>m order'. fst (adapter_run es s) = Inr () \<and> attached i j k m order' (snd (adapter_run es s)) \<and>
    (\<lambda>a. a \<in> set order') = fold lives es (\<lambda>a. a \<in> set order)"
  using assms
proof (induction es arbitrary: n order s)
  case (Cons e es)
  then obtain m order' where e: "fst (adapter_step e s) = Inr ()" "m \<le> Suc n" "attached i j k m order' (snd (adapter_step e s))"
      "(\<lambda>a. a \<in> set order') = lives e (\<lambda>a. a \<in> set order)"
    using attached_step [of i j k n order s e] by auto
  have run: "adapter_run (e # es) s = adapter_run es (snd (adapter_step e s))"
    using e(1) by (cases "adapter_step e s") (simp add: adapter_run_def act_simps)
  have "m + length es \<le> 2 ^ LENGTH('w)" and "all_permitted es (\<lambda>a. a \<in> set order')"
    using Cons.prems e by auto
  from Cons.IH [OF e(3) this] show ?case using e(4) by (simp add: run)
qed (auto simp: adapter_run_def act_simps)

lemma deliver_loop:
  "\<forall>a \<in> set ls. at_adapters s a \<noteq> None \<Longrightarrow> fst (sfor ls (deliver d) s) = Inr () \<and>
     at_messages (snd (sfor ls (deliver d) s)) = at_messages s @ map (\<lambda>a. (a, from_bytes d)) ls"
proof (induction ls arbitrary: s)
  case (Cons a ls)
  then obtain x where "at_adapters s a = Some x" by auto
  then show ?case using Cons.prems Cons.IH [of "s\<lparr>at_messages := at_messages s @ [(a, from_bytes d)]\<rparr>"]
    by (simp add: act_simps deliver_def)
qed (simp add: act_simps)

lemma no_messages_step: "at_messages (snd (adapter_step e s)) = at_messages s"
  by (cases e) (auto simp: construct_adapter_def copy_adapter_def destroy_adapter_def attach_signals_def act_simps
    split: option.split prod.split)

lemma no_messages_run: "at_messages (snd (adapter_run es s)) = at_messages s"
proof -
  have "preserves (\<lambda>t. at_messages t = at_messages s) (adapter_run es)"
    unfolding adapter_run_def by (intro preserves_for preservesI) (simp add: no_messages_step)
  then show ?thesis using preservesD by fastforce
qed

text \<open>C23. Adapters do not dangle: however adapters of a socket are constructed, copied and destroyed, as
  long as no listener id is used twice, nothing goes wrong, and a message that then arrives is
  delivered exactly once, as it was sent, to each adapter that is alive, and to no other.\<close>

theorem adapters_never_dangle:
  fixes i j k :: "'w::len word"
  assumes "all_permitted es (\<lambda>_. False)" and "length es \<le> 2 ^ LENGTH('w)"
  shows "case sseq (adapter_run es) (receive_data (to_bytes text)) (fresh_socket i j k) of (res, s) \<Rightarrow>
    res = Inr () \<and> (\<exists>order. distinct order \<and> set order = {a. fold lives es (\<lambda>_. False) a} \<and>
      at_messages s = map (\<lambda>a. (a, text)) order)"
proof -
  have "attached i j k 0 [] (fresh_socket i j k)"
    by (simp add: attached_def fresh_socket_def has_socket_def signal_ok_def listens_for_def sig_inv_new) (simp add: new_signal_def)
  from attached_run [OF this, of es] obtain m order where run: "fst (adapter_run es (fresh_socket i j k)) = Inr ()"
    and inv: "attached i j k m order (snd (adapter_run es (fresh_socket i j k)))"
    and live: "(\<lambda>a. a \<in> set order) = fold lives es (\<lambda>_. False)"
    using assms by auto
  define s where "s = snd (adapter_run es (fresh_socket i j k))"
  have "map snd (listeners (at_data s)) = order" "listeners_once (at_data s) = []"
    using inv by (simp_all add: s_def attached_def signal_ok_def listens_for_def comp_def)
  then have called: "fst (emit (at_data s)) = order" by (simp add: emit_def emit_containers_def)
  have "\<forall>a \<in> set order. at_adapters s a \<noteq> None" using inv by (auto simp: s_def attached_def)
  then have "fst (sfor order (deliver (to_bytes text)) (s\<lparr>at_data := d\<rparr>)) = Inr () \<and>
      at_messages (snd (sfor order (deliver (to_bytes text)) (s\<lparr>at_data := d\<rparr>))) = map (\<lambda>a. (a, text)) order" for d
    using deliver_loop [of order "s\<lparr>at_data := d\<rparr>" "to_bytes text"] no_messages_run [of es "fresh_socket i j k"]
    by (simp add: bytes_roundtrip s_def fresh_socket_def)
  moreover have "set order = {a. fold lives es (\<lambda>_. False) a}" using live by (metis Collect_mem_eq)
  moreover have "adapter_run es (fresh_socket i j k) = (Inr (), s)" using run by (simp add: s_def prod_eq_iff)
  moreover have "distinct order" using inv by (simp add: attached_def)
  ultimately show ?thesis using called by (auto simp: receive_data_def act_simps case_prod_unfold)
qed

theorem adapters_never_dangle_witness:
  "case sseq (adapter_run [Construct 0, Copy_of 1 0, Destroy 0]) (receive_data (to_bytes ''hi''))
     (fresh_socket 0 0 (0 :: 16 word)) of (res, s) \<Rightarrow> res = Inr () \<and>
     (\<exists>order. distinct order \<and> set order = {a. fold lives [Construct 0, Copy_of 1 0, Destroy 0] (\<lambda>_. False) a} \<and>
      at_messages s = map (\<lambda>a. (a, ''hi'')) order)"
  by (rule adapters_never_dangle) simp_all

text \<open>Moving an adapter breaks it: the adapter that was moved from still listens, so the socket's
  messages are delivered through both, and its destructor dereferences the socket it no longer has.\<close>

theorem moved_adapter_crashes:
  assumes "has_socket b s" and "a \<noteq> b" and "b \<in> set (fst (emit (at_data s)))"
  shows "\<exists>s'. move_adapter a b s = (Inr (), s') \<and> {a, b} \<subseteq> set (fst (emit (at_data s'))) \<and>
    fst (destroy_adapter b s') = Inl (Undefined Null_deref)"
  using assms
  by (auto simp: move_adapter_def destroy_adapter_def act_simps has_socket_def attach_signals_def emit_def emit_containers_def
    listen_def Let_def split: option.splits)

theorem moved_adapter_crashes_witness:
  "\<exists>s'. move_adapter 1 0 (snd (construct_adapter 0 (fresh_socket 0 0 (0 :: 16 word)))) = (Inr (), s') \<and>
    {1, 0} \<subseteq> set (fst (emit (at_data s'))) \<and> fst (destroy_adapter 0 s') = Inl (Undefined Null_deref)"
  by (rule moved_adapter_crashes) (simp_all add: construct_adapter_def act_simps fresh_socket_def attach_signals_def has_socket_def
    listen_def new_signal_def Let_def emit_def emit_containers_def)

end
