(* ===== verification/Channels.thy ===== *)
theory Channels
  imports Results
begin

section \<open>Single-consumer message queues (module common\_communication)\<close>

text \<open>
  \<open>ChannelSingleQueue\<close> of common\_communication/include/ChannelSingleQueue.hpp: a queue with an
  optional filter. \<open>send\<close> applies the filter before it takes the mutex and appends under it,
  \<open>receive\<close> and \<open>count\<close> hold it throughout; the filter never changes after construction, so
  every execution is a sequence of the atomic operations below. The locale \<open>fifo\<close> is the
  contract the clients use: what is received, followed by what is still queued, is what was
  queued before followed by the accepted messages, in order.
\<close>

record 'm chan =
  ch_queue :: "'m list"
  ch_filter :: "('m \<Rightarrow> bool) option"

definition chan_new :: "'m chan" where
  "chan_new = \<lparr>ch_queue = [], ch_filter = None\<rparr>"

definition chan_filtered :: "('m \<Rightarrow> bool) \<Rightarrow> 'm chan" where
  "chan_filtered f = \<lparr>ch_queue = [], ch_filter = Some f\<rparr>"

definition is_rejected :: "'m chan \<Rightarrow> 'm \<Rightarrow> bool" where
  "is_rejected q m = (case ch_filter q of None \<Rightarrow> False | Some f \<Rightarrow> \<not> f m)"

definition chan_count :: "'m chan \<Rightarrow> nat" where
  "chan_count q = length (ch_queue q)"

definition chan_send :: "'m \<Rightarrow> 'm chan \<Rightarrow> 'm chan" where
  "chan_send m q = (if is_rejected q m then q else q\<lparr>ch_queue := ch_queue q @ [m]\<rparr>)"

definition chan_receive :: "'m chan \<Rightarrow> 'm option \<times> 'm chan" where
  "chan_receive q = (case ch_queue q of
     [] \<Rightarrow> (None, q)
   | m # ms \<Rightarrow> (Some m, q\<lparr>ch_queue := ms\<rparr>))"

lemma is_rejected_send [simp]: "is_rejected (chan_send m q) = is_rejected q"
  by (auto simp: chan_send_def is_rejected_def fun_eq_iff)

lemma is_rejected_receive [simp]: "is_rejected (snd (chan_receive q)) = is_rejected q"
  by (auto simp: chan_receive_def is_rejected_def fun_eq_iff split: list.split)

lemma ch_queue_send: "ch_queue (chan_send m q) = ch_queue q @ filter (\<lambda>m. \<not> is_rejected q m) [m]"
  by (simp add: chan_send_def)

subsection \<open>The contract of a queue\<close>

datatype 'm chan_event = Send 'm | Receive

locale fifo =
  fixes put :: "'m \<Rightarrow> 'q \<Rightarrow> 'q"
    and get :: "'q \<Rightarrow> 'm option \<times> 'q"
    and queued :: "'q \<Rightarrow> 'm list"
    and accepts :: "'q \<Rightarrow> 'm \<Rightarrow> bool"
  assumes queued_put: "queued (put m q) = queued q @ filter (accepts q) [m]"
    and accepts_put: "accepts (put m q) = accepts q"
    and get_empty: "queued q = [] \<Longrightarrow> get q = (None, q)"
    and get_front: "queued q = m # ms \<Longrightarrow> fst (get q) = Some m \<and> queued (snd (get q)) = ms"
    and accepts_get: "accepts (snd (get q)) = accepts q"
begin

fun exec :: "'m chan_event list \<Rightarrow> 'q \<Rightarrow> 'm list \<times> 'q" where
  "exec [] q = ([], q)"
| "exec (Send m # es) q = exec es (put m q)"
| "exec (Receive # es) q =
     (case get q of (r, q') \<Rightarrow> (case exec es q' of (rs, q'') \<Rightarrow>
        (case r of None \<Rightarrow> rs | Some m \<Rightarrow> m # rs, q'')))"

fun sends :: "'m chan_event list \<Rightarrow> 'm list" where
  "sends [] = []"
| "sends (Send m # es) = m # sends es"
| "sends (Receive # es) = sends es"

lemma exec_order:
  "exec es q = (rs, q') \<Longrightarrow>
     rs @ queued q' = queued q @ filter (accepts q) (sends es) \<and> accepts q' = accepts q"
proof (induction es q arbitrary: rs q' rule: exec.induct)
  case (2 m es q)
  then show ?case using 2(1) [of rs q'] by (simp add: queued_put accepts_put)
next
  case (3 es q)
  obtain r q1 where g: "get q = (r, q1)" by fastforce
  obtain rs1 q2 where e: "exec es q1 = (rs1, q2)" by fastforce
  have IH: "rs1 @ queued q2 = queued q1 @ filter (accepts q1) (sends es)" "accepts q2 = accepts q1"
    using 3(1) [OF g [symmetric] e] by simp_all
  have acc: "accepts q1 = accepts q" using accepts_get [of q] g by simp
  have out: "rs = (case r of None \<Rightarrow> rs1 | Some m \<Rightarrow> m # rs1)" "q' = q2"
    using 3(2) g e by auto
  show ?case
  proof (cases "queued q")
    case Nil
    then show ?thesis using get_empty [OF Nil] g IH acc out by simp
  next
    case (Cons m ms)
    then show ?thesis using get_front [OF Cons] g IH acc out by simp
  qed
qed simp

end

interpretation cq: fifo chan_send chan_receive ch_queue "\<lambda>q m. \<not> is_rejected q m"
  by unfold_locales
    (auto simp: ch_queue_send chan_receive_def is_rejected_def fun_eq_iff split: list.split)

text \<open>The runs of a channel, over the model's own operations.\<close>

fun chan_run :: "'m chan_event list \<Rightarrow> 'm chan \<Rightarrow> 'm list \<times> 'm chan" where
  "chan_run [] q = ([], q)"
| "chan_run (Send m # es) q = chan_run es (chan_send m q)"
| "chan_run (Receive # es) q =
     (case chan_receive q of (r, q') \<Rightarrow> (case chan_run es q' of (rs, q'') \<Rightarrow>
        (case r of None \<Rightarrow> rs | Some m \<Rightarrow> m # rs, q'')))"

fun sent_messages :: "'m chan_event list \<Rightarrow> 'm list" where
  "sent_messages [] = []"
| "sent_messages (Send m # es) = m # sent_messages es"
| "sent_messages (Receive # es) = sent_messages es"

lemma chan_run_exec: "chan_run es q = cq.exec es q"
  by (induction es q rule: chan_run.induct) (auto split: prod.splits option.splits)

lemma sent_messages_sends: "sent_messages es = cq.sends es"
  by (induction es rule: sent_messages.induct) simp_all

subsection \<open>Properties\<close>

text \<open>A channel neither loses, duplicates nor reorders: in every interleaving of sends and
  receives, the messages received followed by those still queued are the messages queued at the
  start followed by those sent that the filter accepts, in the order of sending.\<close>

theorem channel_fifo:
  "case chan_run es q of (received, q') \<Rightarrow>
     received @ ch_queue q' = ch_queue q @ filter (\<lambda>m. \<not> is_rejected q m) (sent_messages es)"
  using cq.exec_order [of es q] by (simp add: chan_run_exec sent_messages_sends split: prod.split)

end
