(* ===== verification/Weak_Vectors.thy ===== *)
theory Weak_Vectors
  imports Channels
begin

section \<open>Weak vectors and multi-consumer channels\<close>

text \<open>
  \<open>WeakVector\<close> and \<open>WeakCollection\<close> of common\_collections, and \<open>ChannelMultiQueue\<close> of
  common\_communication, which sends a message to every consumer queue of its weak vector.

  A container is named by a number; it holds a weak pointer to its object and the pointer back
  to the collection, of which only "is it null" matters (\<open>wv_linked\<close>). A weak pointer locks to
  null when the strong count of its object is 0. The deleter of the last reference disassociates
  the container: it clears the pointer, then takes the vector's mutex and erases the container.
  Between the count reaching 0 and the mutex being taken, other threads run; the step function
  \<open>mq_step\<close> has one event for each of these moments.
\<close>

record wv =
  wv_collection :: "nat list"
  wv_linked :: "nat \<Rightarrow> bool"

definition wv_new :: wv where
  "wv_new = \<lparr>wv_collection = [], wv_linked = (\<lambda>_. False)\<rparr>"

definition wv_remove :: "nat \<Rightarrow> wv \<Rightarrow> bool \<times> wv" where
  "wv_remove c v =
     (if c \<notin> set (wv_collection v) then (False, v)
      else (True, v\<lparr>wv_linked := (wv_linked v)(c := False), wv_collection := remove1 c (wv_collection v)\<rparr>))"

definition wv_disassociate :: "nat \<Rightarrow> wv \<Rightarrow> wv" where
  "wv_disassociate c v =
     (if \<not> wv_linked v c then v
      else snd (wv_remove c (v\<lparr>wv_linked := (wv_linked v)(c := False)\<rparr>)))"

text \<open>The public \<open>remove(const std::shared_ptr<T>&)\<close> calls itself with the same argument: overload
  resolution prefers the non-template member to the template it means.\<close>

partial_function (option) wv_remove_shared :: "nat \<Rightarrow> wv \<Rightarrow> (bool \<times> wv) option" where
  "wv_remove_shared c v = wv_remove_shared c v"

definition wv_remove_all :: "wv \<Rightarrow> wv" where
  "wv_remove_all v = v\<lparr>wv_linked := (\<lambda>c. wv_linked v c \<and> c \<notin> set (wv_collection v))\<rparr>"

definition wv_unsafe_remove_all :: "wv \<Rightarrow> wv" where
  "wv_unsafe_remove_all v = v\<lparr>wv_collection := []\<rparr>"

definition wv_emplace :: "nat \<Rightarrow> wv \<Rightarrow> wv" where
  "wv_emplace c v = v\<lparr>wv_collection := wv_collection v @ [c], wv_linked := (wv_linked v)(c := True)\<rparr>"

definition wv_size :: "wv \<Rightarrow> nat" where
  "wv_size v = length (wv_collection v)"

lemma wv_remove_shared_never: "wv_remove_shared c v \<noteq> Some r"
proof
  assume "wv_remove_shared c v = Some r"
  then show False
    by (rule wv_remove_shared.raw_induct [where P = "\<lambda>_ _ _. False", rotated]) blast
qed

subsection \<open>The multi-consumer channel\<close>

datatype mq_fault = Null_queue | Self_deadlock

text \<open>What the thread inside \<open>send\<close> does: it holds the mutex from \<open>Sending\<close> to \<open>Idle\<close>. In
  \<open>Holding\<close> the loop variable owns a reference to the consumer.\<close>

datatype 'm sender =
    Idle
  | Sending 'm "nat list"
  | Holding 'm nat "nat list"
  | Faulted mq_fault

text \<open>\<open>mq_refs\<close> counts the references outside \<open>send\<close>. \<open>mq_log\<close>, \<open>mq_birth\<close> and \<open>mq_received\<close>
  are history variables: the messages sent, how many were sent before the consumer was created,
  and what it received.\<close>

record 'm mq =
  mq_queues :: wv
  mq_next :: nat
  mq_consumer :: "nat \<Rightarrow> 'm chan"
  mq_refs :: "nat \<Rightarrow> nat"
  mq_dying :: "nat list"
  mq_sender :: "'m sender"
  mq_log :: "'m list"
  mq_birth :: "nat \<Rightarrow> nat"
  mq_received :: "nat \<Rightarrow> 'm list"

definition mq_new :: "'m mq" where
  "mq_new = \<lparr>mq_queues = wv_new, mq_next = 0, mq_consumer = (\<lambda>_. chan_new), mq_refs = (\<lambda>_. 0),
     mq_dying = [], mq_sender = Idle, mq_log = [], mq_birth = (\<lambda>_. 0), mq_received = (\<lambda>_. [])\<rparr>"

definition count_consumers :: "'m mq \<Rightarrow> nat" where
  "count_consumers s = wv_size (mq_queues s)"

fun held :: "'m sender \<Rightarrow> nat \<Rightarrow> bool" where
  "held (Holding m c cs) d = (c = d)"
| "held _ d = False"

datatype 'm mq_event =
    Create "('m \<Rightarrow> bool) option"
  | Copy nat
  | Drop nat
  | Erase nat
  | Begin_send 'm
  | Next
  | Deliver
  | Recv nat

definition create_consumer :: "('m \<Rightarrow> bool) option \<Rightarrow> 'm mq \<Rightarrow> nat \<times> 'm mq" where
  "create_consumer f s = (let c = mq_next s in
     (c, s\<lparr>mq_queues := wv_emplace c (mq_queues s), mq_next := c + 1,
           mq_consumer := (mq_consumer s)(c := \<lparr>ch_queue = [], ch_filter = f\<rparr>),
           mq_refs := (mq_refs s)(c := 1), mq_birth := (mq_birth s)(c := length (mq_log s)),
           mq_received := (mq_received s)(c := [])\<rparr>))"

text \<open>The last reference is gone: the deleter clears the pointer to the collection and will wait
  for the mutex.\<close>

definition expire :: "nat \<Rightarrow> 'm mq \<Rightarrow> 'm mq" where
  "expire c s =
     (if wv_linked (mq_queues s) c
      then s\<lparr>mq_queues := (mq_queues s)\<lparr>wv_linked := (wv_linked (mq_queues s))(c := False)\<rparr>,
             mq_dying := c # mq_dying s\<rparr>
      else s)"

fun mq_step :: "'m mq_event \<Rightarrow> 'm mq \<Rightarrow> 'm mq option" where
  "mq_step (Create f) s = (if mq_sender s = Idle then Some (snd (create_consumer f s)) else None)"
| "mq_step (Copy c) s =
     (if mq_refs s c > 0 then Some (s\<lparr>mq_refs := (mq_refs s)(c := mq_refs s c + 1)\<rparr>) else None)"
| "mq_step (Drop c) s =
     (if mq_refs s c = 0 then None
      else (let s' = s\<lparr>mq_refs := (mq_refs s)(c := mq_refs s c - 1)\<rparr> in
        Some (if mq_refs s c = 1 \<and> \<not> held (mq_sender s) c then expire c s' else s')))"
| "mq_step (Erase c) s =
     (if c \<in> set (mq_dying s) \<and> mq_sender s = Idle
      then Some (s\<lparr>mq_queues := snd (wv_remove c (mq_queues s)), mq_dying := remove1 c (mq_dying s)\<rparr>)
      else None)"
| "mq_step (Begin_send m) s =
     (if mq_sender s = Idle
      then Some (s\<lparr>mq_sender := Sending m (wv_collection (mq_queues s)), mq_log := mq_log s @ [m]\<rparr>)
      else None)"
| "mq_step Next s =
     (case mq_sender s of
        Sending m [] \<Rightarrow> Some (s\<lparr>mq_sender := Idle\<rparr>)
      | Sending m (c # cs) \<Rightarrow>
          Some (s\<lparr>mq_sender := if mq_refs s c = 0 then Faulted Null_queue else Holding m c cs\<rparr>)
      | _ \<Rightarrow> None)"
| "mq_step Deliver s =
     (case mq_sender s of
        Holding m c cs \<Rightarrow>
          Some (let s' = s\<lparr>mq_consumer := (mq_consumer s)(c := chan_send m (mq_consumer s c))\<rparr> in
            s'\<lparr>mq_sender := if mq_refs s c = 0 \<and> wv_linked (mq_queues s) c
                             then Faulted Self_deadlock else Sending m cs\<rparr>)
      | _ \<Rightarrow> None)"
| "mq_step (Recv c) s =
     (if mq_refs s c > 0
      then (case chan_receive (mq_consumer s c) of (r, q) \<Rightarrow>
        Some (s\<lparr>mq_consumer := (mq_consumer s)(c := q),
                mq_received := (mq_received s)(c := mq_received s c @ (case r of None \<Rightarrow> [] | Some m \<Rightarrow> [m]))\<rparr>))
      else None)"

fun mq_run :: "'m mq_event list \<Rightarrow> 'm mq \<Rightarrow> 'm mq option" where
  "mq_run [] s = Some s"
| "mq_run (e # es) s = (case mq_step e s of None \<Rightarrow> None | Some s' \<Rightarrow> mq_run es s')"

text \<open>One whole call of \<open>send\<close> with no other thread in between.\<close>

definition mq_send :: "'m \<Rightarrow> 'm mq \<Rightarrow> 'm mq option" where
  "mq_send m s = mq_run (Begin_send m # concat (map (\<lambda>_. [Next, Deliver]) (wv_collection (mq_queues s))) @ [Next]) s"

subsection \<open>Invariant\<close>

fun todo :: "'m sender \<Rightarrow> nat list" where
  "todo (Sending m cs) = cs"
| "todo (Holding m c cs) = c # cs"
| "todo _ = []"

fun sending :: "'m sender \<Rightarrow> 'm list" where
  "sending (Sending m cs) = [m]"
| "sending (Holding m c cs) = [m]"
| "sending _ = []"

definition faulted :: "'m mq \<Rightarrow> bool" where
  "faulted s \<longleftrightarrow> (\<exists>f. mq_sender s = Faulted f)"

definition seen :: "nat \<Rightarrow> 'm mq \<Rightarrow> 'm list" where
  "seen c s = mq_received s c @ ch_queue (mq_consumer s c)"

definition accepted :: "nat \<Rightarrow> 'm mq \<Rightarrow> 'm list \<Rightarrow> 'm list" where
  "accepted c s ms = filter (\<lambda>m. \<not> is_rejected (mq_consumer s c) m) ms"

definition owed :: "nat \<Rightarrow> 'm mq \<Rightarrow> 'm list" where
  "owed c s = (if c \<in> set (todo (mq_sender s)) then sending (mq_sender s) else [])"

text \<open>What holds of a consumer somebody still refers to: it is in the collection, nobody is
  erasing it, and what it has seen is what it was sent, up to the message being sent.\<close>

definition balanced :: "nat \<Rightarrow> 'm mq \<Rightarrow> bool" where
  "balanced c s \<longleftrightarrow>
     mq_birth s c \<le> length (mq_log s) \<and>
     seen c s @ accepted c s (owed c s) = accepted c s (drop (mq_birth s c) (mq_log s))"

definition mq_ok :: "'m mq \<Rightarrow> bool" where
  "mq_ok s \<longleftrightarrow>
     distinct (wv_collection (mq_queues s)) \<and> (\<forall>c \<in> set (wv_collection (mq_queues s)). c < mq_next s) \<and>
     (\<forall>c \<ge> mq_next s. mq_refs s c = 0) \<and>
     (\<forall>c \<in> set (mq_dying s). c < mq_next s \<and> \<not> wv_linked (mq_queues s) c) \<and> distinct (mq_dying s) \<and>
     distinct (todo (mq_sender s)) \<and> set (todo (mq_sender s)) \<subseteq> set (wv_collection (mq_queues s)) \<and>
     (\<forall>c. 0 < mq_refs s c \<longrightarrow>
        c \<in> set (wv_collection (mq_queues s)) \<and> c \<notin> set (mq_dying s) \<and> balanced c s)"

lemmas mq_defs = balanced_def seen_def accepted_def owed_def

lemma balanced_refs [simp]: "balanced c (s\<lparr>mq_refs := r\<rparr>) = balanced c s"
  by (simp add: mq_defs)

lemma balanced_dying [simp]: "balanced c (s\<lparr>mq_dying := d\<rparr>) = balanced c s"
  by (simp add: mq_defs)

lemma balanced_queues [simp]: "balanced c (s\<lparr>mq_queues := q\<rparr>) = balanced c s"
  by (simp add: mq_defs)

lemma balanced_create:
  "mq_sender s = Idle \<Longrightarrow> balanced d s \<or> d = mq_next s \<Longrightarrow> balanced d (snd (create_consumer f s))"
  by (auto simp: mq_defs create_consumer_def Let_def)

lemma balanced_begin:
  assumes "balanced c s" and "mq_sender s = Idle" and "c \<in> set cs"
  shows "balanced c (s\<lparr>mq_sender := Sending m cs, mq_log := mq_log s @ [m]\<rparr>)"
  using assms by (simp add: mq_defs)

lemma balanced_next:
  assumes "balanced c s" and "set (todo snd') = set (todo (mq_sender s))"
    and "sending snd' = sending (mq_sender s) \<or> todo snd' = []"
  shows "balanced c (s\<lparr>mq_sender := snd'\<rparr>)"
  using assms by (auto simp: mq_defs)

lemma balanced_deliver:
  assumes "balanced c s" and "mq_sender s = Holding m d cs" and "d \<notin> set cs"
  shows "balanced c (s\<lparr>mq_consumer := (mq_consumer s)(d := chan_send m (mq_consumer s d)), mq_sender := Sending m cs\<rparr>)"
  using assms by (auto simp: mq_defs ch_queue_send split: if_splits)

lemma balanced_recv:
  assumes "balanced c s" and "chan_receive (mq_consumer s d) = (r, q)"
  shows "balanced c (s\<lparr>mq_consumer := (mq_consumer s)(d := q),
           mq_received := (mq_received s)(d := mq_received s d @ (case r of None \<Rightarrow> [] | Some m \<Rightarrow> [m]))\<rparr>)"
proof -
  have "is_rejected q = is_rejected (mq_consumer s d)"
    using is_rejected_receive [of "mq_consumer s d"] assms(2) by simp
  moreover have "ch_queue (mq_consumer s d) = (case r of None \<Rightarrow> [] | Some m \<Rightarrow> [m]) @ ch_queue q"
    using assms(2) by (auto simp: chan_receive_def split: list.splits)
  ultimately show ?thesis
    using assms(1) by (auto simp: mq_defs)
qed

lemma mq_ok_new: "mq_ok mq_new"
  by (simp add: mq_ok_def mq_new_def wv_new_def)

lemma mq_ok_create:
  assumes "mq_ok s" and "mq_sender s = Idle"
  shows "mq_ok (snd (create_consumer f s))"
proof -
  have "balanced d (snd (create_consumer f s))" if "0 < mq_refs (snd (create_consumer f s)) d" for d
    using assms that by (intro balanced_create)
      (auto simp: mq_ok_def create_consumer_def Let_def split: if_splits)
  then show ?thesis
    using assms by (auto simp: mq_ok_def create_consumer_def wv_emplace_def Let_def less_Suc_eq)
qed

lemma mq_ok_expire: "mq_ok s \<Longrightarrow> mq_refs s c = 0 \<Longrightarrow> c < mq_next s \<Longrightarrow> mq_ok (expire c s)"
  by (auto simp: mq_ok_def expire_def)

lemma mq_ok_refs:
  assumes "mq_ok s" and "0 < mq_refs s c"
  shows "mq_ok (s\<lparr>mq_refs := (mq_refs s)(c := n)\<rparr>)" and "c < mq_next s"
proof -
  show "c < mq_next s" using assms by (metis leI less_numeral_extra(3) mq_ok_def)
  then show "mq_ok (s\<lparr>mq_refs := (mq_refs s)(c := n)\<rparr>)" using assms by (auto simp: mq_ok_def)
qed

lemma mq_ok_erase:
  assumes "mq_ok s" and "c \<in> set (mq_dying s)" and "mq_sender s = Idle"
  shows "mq_ok (s\<lparr>mq_queues := snd (wv_remove c (mq_queues s)), mq_dying := remove1 c (mq_dying s)\<rparr>)"
  using assms by (auto simp: mq_ok_def wv_remove_def dest: notin_set_remove1)

lemma mq_ok_step:
  assumes "mq_ok s" and "mq_step e s = Some s'" and "\<not> faulted s'"
  shows "mq_ok s'"
proof (cases e)
  case (Create f)
  then show ?thesis using assms mq_ok_create by (auto split: if_splits)
next
  case (Copy c)
  then show ?thesis using assms mq_ok_refs by (auto split: if_splits)
next
  case (Drop c)
  let ?s = "s\<lparr>mq_refs := (mq_refs s)(c := mq_refs s c - 1)\<rparr>"
  have c: "0 < mq_refs s c" and s': "s' = ?s \<or> s' = expire c ?s \<and> mq_refs s c = 1"
    using assms(2) Drop by (auto simp: Let_def split: if_splits)
  show ?thesis
    using mq_ok_refs [OF assms(1) c] s' mq_ok_expire [of ?s c] by auto
next
  case (Erase c)
  then show ?thesis using assms mq_ok_erase by (auto split: if_splits)
next
  case (Begin_send m)
  then show ?thesis using assms balanced_begin [of _ s]
    by (auto simp: mq_ok_def split: if_splits)
next
  case Next
  then show ?thesis using assms
    by (auto simp: mq_ok_def faulted_def intro!: balanced_next split: sender.splits list.splits if_splits)
next
  case Deliver
  then show ?thesis using assms
    by (auto simp: mq_ok_def faulted_def Let_def intro!: balanced_deliver split: sender.splits if_splits)
next
  case (Recv c)
  then show ?thesis using assms
    by (auto simp: mq_ok_def intro!: balanced_recv split: prod.splits if_splits)
qed

lemma faulted_stays: "mq_step e s = Some s' \<Longrightarrow> faulted s \<Longrightarrow> faulted s'"
  by (cases e) (auto simp: faulted_def expire_def Let_def split: if_splits prod.splits)

lemma mq_run_faulted: "mq_run es s = Some s' \<Longrightarrow> faulted s \<Longrightarrow> faulted s'"
  by (induction es arbitrary: s) (auto dest: faulted_stays split: option.splits)

lemma mq_ok_run:
  "mq_run es s = Some s' \<Longrightarrow> mq_ok s \<Longrightarrow> \<not> faulted s' \<Longrightarrow> mq_ok s'"
proof (induction es arbitrary: s)
  case (Cons e es)
  then obtain s1 where s1: "mq_step e s = Some s1" "mq_run es s1 = Some s'"
    by (auto split: option.splits)
  then have "\<not> faulted s1" using mq_run_faulted Cons.prems(3) by blast
  then show ?case using Cons.IH [OF s1(2)] mq_ok_step [OF Cons.prems(2) s1(1)] Cons.prems(3) by blast
qed simp

text \<open>A consumer that expired stays expired; and \<open>send\<close> only goes wrong on an expired one.\<close>

definition some_expired :: "'m mq \<Rightarrow> bool" where
  "some_expired s \<longleftrightarrow> (\<exists>c < mq_next s. mq_refs s c = 0)"

lemma expired_id_stays:
  "mq_step e s = Some s' \<Longrightarrow> c < mq_next s \<Longrightarrow> mq_refs s c = 0 \<Longrightarrow> c < mq_next s' \<and> mq_refs s' c = 0"
  by (cases e)
    (auto simp: create_consumer_def expire_def Let_def
      split: if_splits prod.splits sender.splits list.splits)

lemma expired_stays: "mq_step e s = Some s' \<Longrightarrow> some_expired s \<Longrightarrow> some_expired s'"
  unfolding some_expired_def using expired_id_stays by blast

lemma fault_expired:
  assumes "mq_step e s = Some s'" and "mq_ok s" and "\<not> faulted s" and "faulted s'"
  shows "some_expired s'"
proof -
  have "\<exists>c \<in> set (todo (mq_sender s)). mq_refs s c = 0"
    using assms(1,3,4)
    by (cases e) (auto simp: faulted_def create_consumer_def expire_def Let_def
      split: if_splits prod.splits sender.splits list.splits)
  then have "some_expired s"
    using assms(2) by (auto simp: mq_ok_def some_expired_def)
  then show ?thesis using expired_stays assms(1) by blast
qed

lemma mq_run_fault_expired:
  "mq_run es s = Some s' \<Longrightarrow> mq_ok s \<Longrightarrow> \<not> faulted s \<Longrightarrow> faulted s' \<Longrightarrow> some_expired s'"
proof (induction es arbitrary: s)
  case (Cons e es)
  then obtain s1 where s1: "mq_step e s = Some s1" "mq_run es s1 = Some s'"
    by (auto split: option.splits)
  show ?case
  proof (cases "faulted s1")
    case True
    have "some_expired s1" using fault_expired [OF s1(1) Cons.prems(2,3) True] .
    then show ?thesis using s1(2) by (induction es arbitrary: s1) (auto dest: expired_stays split: option.splits)
  next
    case False
    then show ?thesis
      using Cons.IH [OF s1(2)] mq_ok_step [OF Cons.prems(2) s1(1)] Cons.prems(4) by blast
  qed
qed simp

lemmas mq_run_defs = mq_new_def create_consumer_def wv_new_def wv_emplace_def expire_def Let_def
  chan_send_def chan_receive_def is_rejected_def

subsection \<open>Properties\<close>

text \<open>C9. Exactly-once, in-order delivery to every consumer. In every interleaving of creations,
  reference drops, erasures, sends and receives from a new channel, whenever no send is under way
  and none went wrong, what a live consumer received followed by what waits in its queue is
  exactly the messages sent since its creation that its filter accepts, in order.\<close>

theorem multi_queue_exactly_once:
  assumes "mq_run es mq_new = Some s" and "mq_sender s = Idle" and "0 < mq_refs s c"
  shows "mq_received s c @ ch_queue (mq_consumer s c) =
         filter (\<lambda>m. \<not> is_rejected (mq_consumer s c) m) (drop (mq_birth s c) (mq_log s))"
proof -
  have "mq_ok s"
    using mq_ok_run [OF assms(1) mq_ok_new] assms(2) by (simp add: faulted_def)
  then have "balanced c s" using assms(3) by (simp add: mq_ok_def)
  then show ?thesis using assms(2) by (simp add: mq_defs)
qed

theorem multi_queue_exactly_once_witness:
  "let s = the (mq_run [Create None, Create (Some (\<lambda>m. m > (5::nat))), Begin_send 3, Next, Deliver, Next,
                        Deliver, Next, Recv 0] mq_new) in
   mq_received s 1 @ ch_queue (mq_consumer s 1) =
     filter (\<lambda>m. \<not> is_rejected (mq_consumer s 1) m) (drop (mq_birth s 1) (mq_log s))"
  unfolding Let_def
  by (rule multi_queue_exactly_once [where es = "[Create None, Create (Some (\<lambda>m. m > 5)), Begin_send 3,
        Next, Deliver, Next, Deliver, Next, Recv 0]"]) (simp_all add: mq_run_defs)

text \<open>A send can only go wrong after some consumer lost its last reference: as long as every
  consumer created is still referred to, no interleaving makes \<open>send\<close> dereference a null queue
  or lock its own mutex again.\<close>

theorem multi_queue_fault_needs_expiry:
  assumes "mq_run es mq_new = Some s" and "\<forall>c < mq_next s. 0 < mq_refs s c"
  shows "\<not> faulted s"
proof
  assume "faulted s"
  then have "some_expired s"
    using mq_run_fault_expired [OF assms(1) mq_ok_new] by (simp add: faulted_def mq_new_def)
  then show False using assms(2) by (auto simp: some_expired_def)
qed

theorem multi_queue_fault_needs_expiry_witness:
  "\<not> faulted (the (mq_run [Create None, Begin_send (3::nat), Next] mq_new))"
  by (rule multi_queue_fault_needs_expiry [where es = "[Create None, Begin_send 3, Next]"])
    (simp_all add: mq_run_defs)

text \<open>The channel is not safe against a consumer that expires during a send. When the last
  reference is dropped and the deleter has not taken the mutex yet, \<open>send\<close> locks an expired weak
  pointer and calls \<open>send\<close> on null; when it is dropped while \<open>send\<close> holds the consumer, the
  loop variable becomes the last reference and its deleter takes the mutex its own thread holds.\<close>

theorem multi_queue_races:
  "(\<exists>s. mq_run [Create None, Drop 0, Begin_send m, Next] mq_new = Some s \<and> mq_sender s = Faulted Null_queue) \<and>
   (\<exists>s. mq_run [Create None, Begin_send m, Next, Drop 0, Deliver] mq_new = Some s \<and>
        mq_sender s = Faulted Self_deadlock)"
  by (simp add: mq_run_defs)

text \<open>\<open>remove_all\<close>, documented to remove all objects, removes none: the vector keeps its size,
  and since the containers are no longer linked, the expiry of an object does not remove it
  either. The public \<open>remove\<close> never returns.\<close>

theorem weak_vector_removal:
  "wv_size (wv_remove_all v) = wv_size v \<and>
   (\<forall>c. c \<in> set (wv_collection v) \<longrightarrow> wv_disassociate c (wv_remove_all v) = wv_remove_all v) \<and>
   wv_remove_shared c v = None"
proof -
  have "wv_remove_shared c v = None"
    using wv_remove_shared_never by (cases "wv_remove_shared c v") auto
  then show ?thesis
    by (simp add: wv_size_def wv_remove_all_def wv_disassociate_def)
qed

theorem weak_vector_removal_witness:
  "wv_size (wv_remove_all (wv_emplace 4 wv_new)) = 1 \<and>
   wv_disassociate 4 (wv_remove_all (wv_emplace 4 wv_new)) = wv_remove_all (wv_emplace 4 wv_new)"
  using weak_vector_removal [of "wv_emplace 4 wv_new" 4]
  by (simp add: wv_new_def wv_emplace_def wv_size_def)

end
