(* ===== verification/Listeners.thy ===== *)
theory Listeners
  imports Failures
begin

section \<open>Accepting websockets (module networking\_websocket)\<close>

text \<open>
  \<open>BeastContext\<close> runs the io threads, \<open>BeastSocketListener\<close> accepts TCP connections and turns them into
  websockets. Boost.Asio is outside: the events say how an operation it was given ends. A pending
  \<open>async_accept\<close> always completes, with an error once the acceptor is closed. Sockets are numbers;
  the last three fields of a listener are history variables: what \<open>internal_start_reading\<close> was called
  for, and what the two signals emitted.
\<close>

record options =
  op_threads :: "nat option"
  op_bind_address :: "string option"
  op_bind_port :: "16 word"

definition DEFAULT_THREAD_COUNT :: nat where
  "DEFAULT_THREAD_COUNT = 4"

definition value_or :: "'a option \<Rightarrow> 'a \<Rightarrow> 'a" where
  "value_or x d = (case x of None \<Rightarrow> d | Some v \<Rightarrow> v)"

record 'a beast_context =
  bc_endpoint :: "'a \<times> 16 word"
  bc_threads :: nat
  bc_running :: bool

text \<open>\<open>make_address\<close> throws a \<open>system_error\<close> (\<open>Inl\<close>, its text) for what is no address.\<close>

definition new_beast_context :: "(string \<Rightarrow> string + 'a) \<Rightarrow> options \<Rightarrow> string + 'a beast_context" where
  "new_beast_context make_address opts = (case make_address (value_or (op_bind_address opts) ''0.0.0.0'') of
     Inl m \<Rightarrow> Inl m
   | Inr a \<Rightarrow> Inr \<lparr>bc_endpoint = (a, op_bind_port opts),
       bc_threads = value_or (op_threads opts) DEFAULT_THREAD_COUNT, bc_running = True\<rparr>)"

definition destroy_beast_context :: "'a beast_context \<Rightarrow> 'a beast_context" where
  "destroy_beast_context c = c\<lparr>bc_running := False, bc_threads := 0\<rparr>"

record acceptor =
  bl_open :: bool
  bl_pending :: nat
  bl_handshakes :: "nat list"
  bl_reading :: "nat list"
  bl_accepted :: "nat list"
  bl_errors :: "network_exception list"

definition new_acceptor :: acceptor where
  "new_acceptor = \<lparr>bl_open = False, bl_pending = 0, bl_handshakes = [], bl_reading = [], bl_accepted = [], bl_errors = []\<rparr>"

definition do_async_accept :: "acceptor \<Rightarrow> acceptor" where
  "do_async_accept s = s\<lparr>bl_pending := bl_pending s + 1\<rparr>"

text \<open>How binding ends: \<open>open\<close> fails, one of the calls after it fails, or the endpoint is bound. An
  acceptor that is open cannot be opened.\<close>

datatype binding = Not_opened string | Not_bound string | Bound

definition acceptor_start :: "binding \<Rightarrow> acceptor \<Rightarrow> network_exception option \<times> acceptor" where
  "acceptor_start b s =
     (if bl_open s then (Some (network_exception_with BIND_ERROR ''Already open''), s)
      else case b of
        Not_opened m \<Rightarrow> (Some (network_exception_with BIND_ERROR m), s)
      | Not_bound m \<Rightarrow> (Some (network_exception_with BIND_ERROR m), s\<lparr>bl_open := True\<rparr>)
      | Bound \<Rightarrow> (None, do_async_accept (s\<lparr>bl_open := True\<rparr>)))"

definition acceptor_stop :: "acceptor \<Rightarrow> acceptor" where
  "acceptor_stop s = s\<lparr>bl_open := False\<rparr>"

definition emit_error :: "string \<Rightarrow> acceptor \<Rightarrow> acceptor" where
  "emit_error m s = s\<lparr>bl_errors := bl_errors s @ [network_exception_with ESTABLISH_ERROR m]\<rparr>"

definition on_async_accept :: "string option \<Rightarrow> nat \<Rightarrow> acceptor \<Rightarrow> acceptor" where
  "on_async_accept ec k s = (let s' = do_async_accept s in
     case ec of Some m \<Rightarrow> emit_error m s' | None \<Rightarrow> s'\<lparr>bl_handshakes := bl_handshakes s' @ [k]\<rparr>)"

definition on_async_accept_websocket :: "nat \<Rightarrow> string option \<Rightarrow> acceptor \<Rightarrow> acceptor" where
  "on_async_accept_websocket k ec s = (case ec of
     Some m \<Rightarrow> emit_error m s
   | None \<Rightarrow> s\<lparr>bl_reading := bl_reading s @ [k], bl_accepted := bl_accepted s @ [k]\<rparr>)"

datatype accept_event =
    Start binding
  | Stop
  | Accept_done "string option" nat
  | Handshake_done nat "string option"

text \<open>A TCP connection gets a number that is new.\<close>

fun accept_step :: "accept_event \<Rightarrow> acceptor \<Rightarrow> acceptor option" where
  "accept_step (Start b) s = Some (snd (acceptor_start b s))"
| "accept_step Stop s = Some (acceptor_stop s)"
| "accept_step (Accept_done ec k) s =
     (if bl_pending s = 0 \<or> k \<in> set (bl_handshakes s) \<or> k \<in> set (bl_reading s) then None
      else Some (on_async_accept ec k (s\<lparr>bl_pending := bl_pending s - 1\<rparr>)))"
| "accept_step (Handshake_done k ec) s =
     (if k \<notin> set (bl_handshakes s) then None
      else Some (on_async_accept_websocket k ec (s\<lparr>bl_handshakes := remove1 k (bl_handshakes s)\<rparr>)))"

fun accept_run :: "accept_event list \<Rightarrow> acceptor \<Rightarrow> acceptor option" where
  "accept_run [] s = Some s"
| "accept_run (e # es) s = (case accept_step e s of None \<Rightarrow> None | Some s' \<Rightarrow> accept_run es s')"

lemma accept_run_append:
  "accept_run (es @ fs) s = (case accept_run es s of None \<Rightarrow> None | Some s' \<Rightarrow> accept_run fs s')"
  by (induction es arbitrary: s) (auto split: option.splits)

lemmas acceptor_defs = acceptor_start_def acceptor_stop_def emit_error_def on_async_accept_def
  on_async_accept_websocket_def do_async_accept_def Let_def

text \<open>Nothing takes a pending accept away for good.\<close>

lemma accept_step_pending: "accept_step e s = Some s' \<Longrightarrow> bl_pending s \<le> bl_pending s'"
  by (cases e) (auto simp: acceptor_defs split: if_splits option.splits binding.splits)

lemma accept_run_pending: "accept_run es s = Some s' \<Longrightarrow> bl_pending s \<le> bl_pending s'"
  by (induction es arbitrary: s) (auto split: option.splits, meson accept_step_pending le_trans)

lemma failures_run:
  assumes "0 < bl_pending s" and "k \<notin> set (bl_handshakes s)" and "k \<notin> set (bl_reading s)"
  shows "accept_run (replicate n (Accept_done (Some m) k)) s =
    Some (s\<lparr>bl_errors := bl_errors s @ replicate n (network_exception_with ESTABLISH_ERROR m)\<rparr>)"
  using assms
proof (induction n arbitrary: s)
  case (Suc n)
  then have "accept_step (Accept_done (Some m) k) s =
      Some (s\<lparr>bl_errors := bl_errors s @ [network_exception_with ESTABLISH_ERROR m]\<rparr>)"
    by (simp add: acceptor_defs)
  then show ?case using Suc.IH Suc.prems by simp
qed simp

text \<open>Every socket that reached the server is read from, and none is announced twice.\<close>

definition sockets_once :: "acceptor \<Rightarrow> bool" where
  "sockets_once s \<longleftrightarrow> bl_accepted s = bl_reading s \<and> distinct (bl_handshakes s @ bl_reading s)"

lemma sockets_once_step: "accept_step e s = Some s' \<Longrightarrow> sockets_once s \<Longrightarrow> sockets_once s'"
  by (cases e) (auto simp: acceptor_defs sockets_once_def split: if_splits option.splits binding.splits
    dest: notin_set_remove1)

lemma sockets_once_run: "accept_run es s = Some s' \<Longrightarrow> sockets_once s \<Longrightarrow> sockets_once s'"
  using sockets_once_step by (induction es arbitrary: s) (auto split: option.splits)

text \<open>The websockets whose handshake succeeded in a run, in that order.\<close>

fun established :: "accept_event list \<Rightarrow> nat list" where
  "established [] = []"
| "established (Handshake_done k None # es) = k # established es"
| "established (_ # es) = established es"

lemma established_append: "established (es @ fs) = established es @ established fs"
  by (induction es rule: established.induct) simp_all

lemma accept_step_announces:
  "accept_step e s = Some s' \<Longrightarrow> bl_accepted s' = bl_accepted s @ established [e] \<and> bl_reading s' = bl_reading s @ established [e]"
  by (cases e) (auto simp: acceptor_defs split: if_splits option.splits binding.splits)

lemma accept_run_announces:
  "accept_run es s = Some s' \<Longrightarrow> bl_accepted s' = bl_accepted s @ established es \<and> bl_reading s' = bl_reading s @ established es"
proof (induction es arbitrary: s)
  case (Cons e es)
  then obtain s1 where "accept_step e s = Some s1" "accept_run es s1 = Some s'" by (auto split: option.splits)
  then show ?case using Cons.IH [of s1] accept_step_announces [of e s s1] established_append [of "[e]" es] by simp
qed simp

text \<open>C30. A listener that was started never comes to rest. Its accept handler starts the next accept
  before it looks at the error, so an accept is pending in every later state, whatever happens; after
  \<open>stop\<close> every completion is a failure that emits \<open>on_error\<close> and is followed by the next one, without
  end. Up to then, \<open>on_accept\<close> has announced exactly the websockets whose handshakes succeeded, each
  once and in that order, and no others, and each of them is being read.\<close>

theorem stopped_listener_spins:
  assumes "accept_run es new_acceptor = Some s" and "\<not> bl_open s" and "accept_run (Start Bound # fs) s = Some s'"
    and "k \<notin> set (bl_handshakes s')" and "k \<notin> set (bl_reading s')"
  shows "0 < bl_pending s' \<and> bl_accepted s' = established (es @ fs) \<and> distinct (bl_accepted s') \<and>
    bl_reading s' = bl_accepted s' \<and>
    accept_run (Stop # replicate n (Accept_done (Some m) k)) s' =
      Some (s'\<lparr>bl_open := False,
        bl_errors := bl_errors s' @ replicate n (network_exception_with ESTABLISH_ERROR m)\<rparr>)"
proof -
  have "sockets_once s'"
    using sockets_once_run [OF assms(1)] sockets_once_run [OF assms(3)] by (simp add: sockets_once_def new_acceptor_def)
  then have "distinct (bl_accepted s')" by (simp add: sockets_once_def)
  moreover have "bl_accepted s' = established (es @ fs)" "bl_reading s' = established (es @ fs)"
    using accept_run_announces [OF assms(1)] accept_run_announces [OF assms(3)]
    by (simp_all add: established_append new_acceptor_def)
  moreover have "bl_pending (snd (acceptor_start Bound s)) = bl_pending s + 1"
    using assms(2) by (simp add: acceptor_defs)
  then have "0 < bl_pending s'" using accept_run_pending [of fs _ s'] assms(3) by fastforce
  ultimately show ?thesis using failures_run [of "s'\<lparr>bl_open := False\<rparr>" k n m] assms(4,5) by (simp add: acceptor_stop_def)
qed

theorem stopped_listener_spins_witness:
  "\<exists>s'. accept_run [Start Bound, Accept_done None 1, Handshake_done 1 None] new_acceptor = Some s' \<and>
    bl_accepted s' = [1] \<and>
    accept_run [Stop, Accept_done (Some ''Bad file descriptor'') 2, Accept_done (Some ''Bad file descriptor'') 2] s' =
      Some (s'\<lparr>bl_open := False, bl_errors := bl_errors s' @ replicate 2
        (network_exception_with ESTABLISH_ERROR ''Bad file descriptor'')\<rparr>)"
proof -
  obtain s' where s': "accept_run [Start Bound, Accept_done None 1, Handshake_done 1 None] new_acceptor = Some s'"
      "bl_handshakes s' = []" "bl_reading s' = [1]"
    by (simp add: acceptor_defs new_acceptor_def)
  have start: "accept_run [] new_acceptor = Some new_acceptor" "\<not> bl_open new_acceptor" by (simp_all add: new_acceptor_def)
  have "2 \<notin> set (bl_handshakes s')" "2 \<notin> set (bl_reading s')" using s'(2,3) by simp_all
  from stopped_listener_spins [OF start s'(1) this, of 2 "''Bad file descriptor''"]
  have "bl_accepted s' = established [Accept_done None 1, Handshake_done 1 None]"
    "accept_run (Stop # replicate 2 (Accept_done (Some ''Bad file descriptor'') 2)) s' =
      Some (s'\<lparr>bl_open := False, bl_errors := bl_errors s' @ replicate 2
        (network_exception_with ESTABLISH_ERROR ''Bad file descriptor'')\<rparr>)"
    by (simp_all only: append_Nil)
  moreover have "replicate 2 (Accept_done (Some ''Bad file descriptor'') 2) =
      [Accept_done (Some ''Bad file descriptor'') 2, Accept_done (Some ''Bad file descriptor'') 2]"
    by (simp add: numeral_2_eq_2)
  ultimately show ?thesis using s'(1) by (simp only: established.simps) blast
qed

text \<open>After a failed \<open>bind\<close> the acceptor stays open, so that no further attempt can succeed before a
  \<open>stop\<close>.\<close>

lemma failed_bind_is_final:
  "acceptor_start b (snd (acceptor_start (Not_bound m) s)) =
     (Some (network_exception_with BIND_ERROR ''Already open''), snd (acceptor_start (Not_bound m) s))"
  by (simp add: acceptor_start_def)

end
