(* ===== verification/Connections.thy ===== *)
theory Connections
  imports Server_Properties Socket_Adapter Weak_Vectors Listeners
begin

section \<open>Connections and clients (module server)\<close>

text \<open>
  A \<open>Connection\<close> turns what its socket reads into packets and sends them into its channel; a \<open>Client\<close>
  is a connection with a consumer of this channel, which the server loop empties once per tick. Here
  the socket, the text packets and the channel are put together: the events of one connection are those
  of its socket and of its channel, in any order that the threads allow. The completion handlers run
  on the strand of the socket (thread 0), which is busy while a packet is being sent into the channel.
\<close>

record connection =
  cn_session :: session_id
  cn_socket :: bsocket
  cn_channel :: "string mq"

definition new_connection :: "session_id \<Rightarrow> bsocket \<Rightarrow> connection" where
  "new_connection u s = \<lparr>cn_session = u, cn_socket = s, cn_channel = mq_new\<rparr>"

definition create_packet_queue :: "(string \<Rightarrow> bool) option \<Rightarrow> connection \<Rightarrow> nat \<times> connection" where
  "create_packet_queue f c = (case create_consumer f (cn_channel c) of (q, ch) \<Rightarrow> (q, c\<lparr>cn_channel := ch\<rparr>))"

text \<open>\<open>Client\<close>: its packets are the consumer it creates.\<close>

definition new_client :: "connection \<Rightarrow> nat \<times> connection" where
  "new_client c = create_packet_queue None c"

text \<open>The moved connection gets a channel of its own: the consumers of the old one are left behind.\<close>

definition move_connection :: "connection \<Rightarrow> connection" where
  "move_connection c = new_connection (cn_session c) (cn_socket c)"

definition send_text :: "nat \<Rightarrow> string \<Rightarrow> connection \<Rightarrow> connection" where
  "send_text t text c = c\<lparr>cn_socket := adapter_send t text (cn_socket c)\<rparr>"

definition send_error_text :: "nat \<Rightarrow> string \<Rightarrow> connection \<Rightarrow> connection" where
  "send_error_text t text = send_text t (''Error: '' @ text)"

text \<open>The listener that \<open>_attach_signals\<close> registers: the packet goes into the channel.\<close>

definition on_message :: "string \<Rightarrow> connection \<Rightarrow> connection option" where
  "on_message packet c = map_option (\<lambda>ch. c\<lparr>cn_channel := ch\<rparr>) (mq_step (Begin_send packet) (cn_channel c))"

fun heard :: "net_signal list \<Rightarrow> bytes list" where
  "heard [] = []"
| "heard (On_data d # ss) = d # heard ss"
| "heard (_ # ss) = heard ss"

text \<open>What the socket emitted in a step is passed on.\<close>

definition pass_on :: "net_signal list \<Rightarrow> connection \<Rightarrow> connection option" where
  "pass_on before c = (case heard (drop (length before) (bs_signals (cn_socket c))) of
     [] \<Rightarrow> Some c
   | d # _ \<Rightarrow> on_message (from_bytes d) c)"

datatype conn_event = Net nat bs_event | Queue "string mq_event"

fun starts_send :: "'m mq_event \<Rightarrow> bool" where
  "starts_send (Begin_send _) = True"
| "starts_send _ = False"

fun conn_step :: "conn_event \<Rightarrow> connection \<Rightarrow> connection option" where
  "conn_step (Net t e) c =
     (if t = 0 \<and> mq_sender (cn_channel c) \<noteq> Idle then None
      else case bs_step t e (cn_socket c) of
        Some (Inr s') \<Rightarrow> pass_on (bs_signals (cn_socket c)) (c\<lparr>cn_socket := s'\<rparr>)
      | _ \<Rightarrow> None)"
| "conn_step (Queue e) c =
     (if starts_send e then None else map_option (\<lambda>ch. c\<lparr>cn_channel := ch\<rparr>) (mq_step e (cn_channel c)))"

fun conn_run :: "conn_event list \<Rightarrow> connection \<Rightarrow> connection option" where
  "conn_run [] c = Some c"
| "conn_run (e # es) c = (case conn_step e c of None \<Rightarrow> None | Some c' \<Rightarrow> conn_run es c')"

text \<open>The listener starts reading and announces the socket in one handler on the strand; the server
  makes a connection and a client of it.\<close>

definition accepted_socket :: "session_id \<Rightarrow> connection" where
  "accepted_socket u = snd (new_client (new_connection u (new_bsocket\<lparr>bs_reading := True\<rparr>)))"

text \<open>\<open>while (auto packet = client.messages->receive())\<close>.\<close>

function take_packets :: "nat \<Rightarrow> 'm mq \<Rightarrow> 'm list \<times> 'm mq" where
  "take_packets q ch = (case (fst (chan_receive (mq_consumer ch q)), mq_step (Recv q) ch) of
     (Some m, Some ch') \<Rightarrow> (case take_packets q ch' of (ms, ch'') \<Rightarrow> (m # ms, ch''))
   | (_, Some ch') \<Rightarrow> ([], ch')
   | _ \<Rightarrow> ([], ch))"
  by pat_completeness auto
termination
  by (relation "measure (\<lambda>(q, ch). length (ch_queue (mq_consumer ch q)))")
     (auto simp: chan_receive_def split: list.splits if_splits)

declare take_packets.simps [simp del]

subsection \<open>Packets arrive\<close>

lemma heard_append: "heard (a @ b) = heard a @ heard b"
  by (induction a rule: heard.induct) simp_all

lemma bs_signals_grow:
  assumes "bs_step t e s = Some (Inr s')"
  shows "\<exists>ss. bs_signals s' = bs_signals s @ ss \<and> (heard ss = [] \<or> t = 0 \<and> (\<exists>d. heard ss = [d]))"
  using assms by (cases e) (auto simp: socket_defs split: if_splits list.splits sum.splits)

lemma mq_step_log: "mq_step e s = Some s' \<Longrightarrow> mq_log s' = mq_log s @ (case e of Begin_send m \<Rightarrow> [m] | _ \<Rightarrow> [])"
  by (cases e) (auto simp: create_consumer_def expire_def Let_def split: if_splits sender.splits list.splits prod.splits)

lemma chan_filter_kept: "ch_filter (chan_send m q) = ch_filter q" "chan_receive q = (r, q') \<Longrightarrow> ch_filter q' = ch_filter q"
  by (auto simp: chan_send_def chan_receive_def split: list.splits)

lemma mq_step_consumer:
  assumes "mq_step e s = Some s'" and "c < mq_next s"
  shows "c < mq_next s' \<and> mq_birth s' c = mq_birth s c \<and> ch_filter (mq_consumer s' c) = ch_filter (mq_consumer s c)"
  using assms by (cases e)
    (auto simp: create_consumer_def expire_def Let_def chan_filter_kept split: if_splits sender.splits list.splits prod.splits)

definition conn_ok :: "connection \<Rightarrow> bool" where
  "conn_ok c \<longleftrightarrow> mq_log (cn_channel c) = map from_bytes (heard (bs_signals (cn_socket c))) \<and>
     0 < mq_next (cn_channel c) \<and> mq_birth (cn_channel c) 0 = 0 \<and> ch_filter (mq_consumer (cn_channel c) 0) = None \<and>
     (faulted (cn_channel c) \<or> mq_ok (cn_channel c))"

lemma mq_ok_or_faulted: "mq_step e s = Some s' \<Longrightarrow> faulted s \<or> mq_ok s \<Longrightarrow> faulted s' \<or> mq_ok s'"
  using faulted_stays mq_ok_step by blast

lemma conn_ok_channel:
  assumes "conn_ok c" and "mq_step e (cn_channel c) = Some ch" and "bs_signals s = bs_signals (cn_socket c) @ ss"
    and "map from_bytes (heard ss) = (case e of Begin_send m \<Rightarrow> [m] | _ \<Rightarrow> [])"
  shows "conn_ok (c\<lparr>cn_channel := ch, cn_socket := s\<rparr>)"
  using assms mq_step_log [OF assms(2)] mq_step_consumer [OF assms(2), of 0] mq_ok_or_faulted [OF assms(2)]
  by (simp add: conn_ok_def heard_append)

lemma conn_ok_step:
  assumes "conn_ok c" and "conn_step e c = Some c'"
  shows "conn_ok c'"
proof (cases e)
  case (Queue m)
  then obtain ch where "\<not> starts_send m" "mq_step m (cn_channel c) = Some ch" "c' = c\<lparr>cn_channel := ch\<rparr>"
    using assms(2) by (auto split: if_splits)
  then show ?thesis using conn_ok_channel [OF assms(1), of m ch "cn_socket c" "[]"] by (cases m) simp_all
next
  case (Net t b)
  then obtain s' where s': "bs_step t b (cn_socket c) = Some (Inr s')"
    and c': "pass_on (bs_signals (cn_socket c)) (c\<lparr>cn_socket := s'\<rparr>) = Some c'"
    using assms(2) by (auto split: if_splits option.splits sum.splits)
  obtain ss where ss: "bs_signals s' = bs_signals (cn_socket c) @ ss" "heard ss = [] \<or> (\<exists>d. heard ss = [d])"
    using bs_signals_grow [OF s'] by blast
  show ?thesis
  proof (cases "heard ss")
    case Nil
    then show ?thesis using c' ss assms(1) by (auto simp: pass_on_def conn_ok_def heard_append)
  next
    case (Cons d ds)
    then obtain ch where "mq_step (Begin_send (from_bytes d)) (cn_channel c) = Some ch" "c' = c\<lparr>cn_channel := ch, cn_socket := s'\<rparr>"
      using c' ss by (auto simp: pass_on_def on_message_def)
    then show ?thesis using conn_ok_channel [OF assms(1), of "Begin_send (from_bytes d)" ch s' ss] ss Cons by auto
  qed
qed

lemma conn_ok_run: "conn_run es c = Some c' \<Longrightarrow> conn_ok c \<Longrightarrow> conn_ok c'"
  using conn_ok_step by (induction es arbitrary: c) (auto split: option.splits)

lemma conn_ok_accepted: "conn_ok (accepted_socket u)"
  using mq_ok_create [of "mq_new :: string mq" None] mq_ok_new [where 'a = string]
  by (simp add: conn_ok_def accepted_socket_def new_client_def create_packet_queue_def create_consumer_def new_connection_def
    Let_def mq_new_def new_bsocket_def)

lemma take_packets_all:
  "0 < mq_refs ch q \<Longrightarrow> fst (take_packets q ch) = ch_queue (mq_consumer ch q) \<and>
     ch_queue (mq_consumer (snd (take_packets q ch)) q) = []"
proof (induction "ch_queue (mq_consumer ch q)" arbitrary: ch)
  case Nil
  then show ?case by (simp add: take_packets.simps [of q ch] chan_receive_def)
next
  case (Cons m ms)
  obtain ch' where step: "mq_step (Recv q) ch = Some ch'" "ch_queue (mq_consumer ch' q) = ms" "mq_refs ch' q = mq_refs ch q"
    and first: "fst (chan_receive (mq_consumer ch q)) = Some m"
    using Cons.prems Cons.hyps(2) [symmetric] by (simp add: chan_receive_def)
  then have "take_packets q ch = (case take_packets q ch' of (ms', t) \<Rightarrow> (m # ms', t))"
    by (simp add: take_packets.simps [of q ch] del: mq_step.simps)
  then show ?case using Cons.hyps(1) [of ch'] Cons.hyps(2) [symmetric] Cons.prems step by (simp add: case_prod_unfold)
qed

text \<open>C12. What a client sends arrives. Whatever sending threads, errors, closes, further consumers and the
  server loop do in between, the packets that the loop took from a client before this tick followed by
  those it takes now are the texts of exactly the messages that the socket read and announced, once
  and in order, as long as no packet is just being delivered and the client is still registered. The
  server loop empties the queue.\<close>

theorem packets_arrive:
  assumes "conn_run es (accepted_socket u) = Some c" and "mq_sender (cn_channel c) = Idle" and "0 < mq_refs (cn_channel c) 0"
  shows "mq_received (cn_channel c) 0 @ fst (take_packets 0 (cn_channel c)) = map from_bytes (heard (bs_signals (cn_socket c))) \<and>
    ch_queue (mq_consumer (snd (take_packets 0 (cn_channel c))) 0) = []"
proof -
  have ok: "conn_ok c" using conn_ok_run [OF assms(1) conn_ok_accepted] .
  then have "balanced 0 (cn_channel c)" using assms(2,3) by (auto simp: conn_ok_def mq_ok_def faulted_def)
  then show ?thesis
    using ok assms(2) take_packets_all [OF assms(3)] by (simp add: conn_ok_def mq_defs is_rejected_def)
qed

theorem packets_arrive_witness:
  "\<exists>c. conn_run [Net 0 (Read_done Success (to_bytes ''/ping'')), Queue Next, Queue (Recv 0), Queue Deliver, Queue Next]
      (accepted_socket (SessionId 1)) = Some c \<and>
    mq_received (cn_channel c) 0 @ fst (take_packets 0 (cn_channel c)) = [''/ping'']"
proof -
  obtain c where run: "conn_run [Net 0 (Read_done Success (to_bytes ''/ping'')), Queue Next, Queue (Recv 0), Queue Deliver, Queue Next]
      (accepted_socket (SessionId 1)) = Some c"
    and c: "mq_sender (cn_channel c) = Idle" "0 < mq_refs (cn_channel c) 0"
      "heard (bs_signals (cn_socket c)) = [to_bytes ''/ping'']"
    by (simp add: accepted_socket_def new_client_def create_packet_queue_def create_consumer_def new_connection_def Let_def
      mq_new_def new_bsocket_def socket_defs pass_on_def on_message_def wv_emplace_def wv_new_def chan_receive_def)
  show ?thesis using packets_arrive [OF run c(1,2)] run c(3) by (simp add: bytes_roundtrip)
qed

subsection \<open>Starting up\<close>

text \<open>The constructor of \<open>Server\<close> starts the listener and then attaches its handler to the listener's
  signal; \<open>main\<close> then attaches its two handlers to the server's signal, one after the other. The
  network threads run all the while. A websocket goes to the handlers that are attached by then.\<close>

datatype accept_handler = Greeter | User_maker

record daemon =
  dm_attached :: bool
  dm_handlers :: "accept_handler list"
  dm_registry :: registry
  dm_world :: world

definition new_daemon :: "world \<Rightarrow> daemon" where
  "new_daemon w = \<lparr>dm_attached = False, dm_handlers = [], dm_registry = \<lparr>g_clients = [], g_closed = []\<rparr>, dm_world = w\<rparr>"

fun run_handler :: "outside \<Rightarrow> session_id \<Rightarrow> accept_handler \<Rightarrow> unit world_op" where
  "run_handler E u Greeter = greet_user u"
| "run_handler E u User_maker = sseq (make_user (o_print_uuid E) u) (manager_add_user u)"

definition accept_websocket :: "outside \<Rightarrow> session_id \<Rightarrow> (daemon, unit) op" where
  "accept_websocket E u d =
     (if \<not> dm_attached d then (Inr (), d)
      else case sfor (dm_handlers d) (run_handler E u) (dm_world d) of
        (r, w) \<Rightarrow> (r, d\<lparr>dm_registry := registry_accept u (dm_registry d), dm_world := w\<rparr>))"

datatype setup_event = Attach_server | Attach accept_handler | Websocket outside session_id

fun setup_step :: "setup_event \<Rightarrow> (daemon, unit) op" where
  "setup_step Attach_server = smodify (\<lambda>d. d\<lparr>dm_attached := True\<rparr>)"
| "setup_step (Attach h) = smodify (\<lambda>d. d\<lparr>dm_handlers := dm_handlers d @ [h]\<rparr>)"
| "setup_step (Websocket E u) = accept_websocket E u"

definition setup_run :: "setup_event list \<Rightarrow> (daemon, unit) op" where
  "setup_run es = sfor es setup_step"

text \<open>Once everything is attached, a websocket is accepted as \<open>server_run\<close> has it.\<close>

lemma accept_after_startup:
  assumes "dm_attached d" and "dm_handlers d = [Greeter, User_maker]"
  shows "accept_websocket E u d = (case accept_connection E u (dm_world d) of
    (r, w) \<Rightarrow> (r, d\<lparr>dm_registry := registry_accept u (dm_registry d), dm_world := w\<rparr>))"
proof -
  have "sfor [Greeter, User_maker] (run_handler E u) w = accept_connection E u w" for w
    by (simp add: accept_connection_def act_simps split: prod.split sum.split)
  then show ?thesis using assms by (simp add: accept_websocket_def)
qed

lemma whoami_known:
  "case init_global_commands (\<lambda>_. None) of Inl _ \<Rightarrow> False | Inr G \<Rightarrow> command_map_find G (CommandName ''whoami'') = Some Global_whoami"
  by code_simp

lemma whoami_parsed:
  "parse_command (split_on (CHR '' '')) ''/whoami'' =
     Inr (Some \<lparr>cmd_name = CommandName ''whoami'', cmd_arguments = [], cmd_raw_arguments = []\<rparr>)"
proof -
  have "make_command_name ''whoami'' = Inr (CommandName ''whoami'')" by code_simp
  moreover have "substr ''/whoami'' 1 npos = Some ''whoami''"
    unfolding substr_tail by (simp only: option.inject, rule take_all) (simp add: npos_def)
  ultimately show ?thesis by (simp add: parse_command_def)
qed

text \<open>Whoever connects while the server starts up gets lost or brings it down. A websocket accepted
  before the server's handler is attached is never registered. One accepted after it, but before the
  handlers of \<open>main\<close>, is registered without a user: the server loop takes its packets, and the first
  \<open>/whoami\<close> dereferences the null user. Nothing in the startup sequence excludes either.\<close>

theorem early_client_crashes:
  assumes "init_global_commands (\<lambda>_. None) = Inr G" and "splitter (o_split E) (CHR '' '')"
    and "w_known w u = None" and "w_user_room w u = None"
  shows "setup_run [Websocket F u, Attach_server, Attach Greeter, Attach User_maker] (new_daemon w) =
      (Inr (), (new_daemon w)\<lparr>dm_attached := True, dm_handlers := [Greeter, User_maker]\<rparr>) \<and>
    (\<exists>d. setup_run [Attach_server, Websocket F u, Attach Greeter, Attach User_maker] (new_daemon w) = (Inr (), d) \<and>
      find_client u (dm_registry d) = Some u \<and>
      fst (process_packet G E u ''/whoami'' (dm_world d)) = Inl (Undefined Null_deref))"
proof (intro conjI exI)
  let ?d = "(new_daemon w)\<lparr>dm_attached := True, dm_registry := \<lparr>g_clients = [u], g_closed = []\<rparr>,
    dm_handlers := [Greeter, User_maker]\<rparr>"
  show "setup_run [Websocket F u, Attach_server, Attach Greeter, Attach User_maker] (new_daemon w) =
      (Inr (), (new_daemon w)\<lparr>dm_attached := True, dm_handlers := [Greeter, User_maker]\<rparr>)"
    by (simp add: setup_run_def accept_websocket_def new_daemon_def act_simps)
  show "setup_run [Attach_server, Websocket F u, Attach Greeter, Attach User_maker] (new_daemon w) = (Inr (), ?d)"
    by (simp add: setup_run_def accept_websocket_def new_daemon_def registry_accept_def act_simps)
  show "find_client u (dm_registry ?d) = Some u" by (simp add: find_client_def find_in_map_def)
  have "o_split E = split_on (CHR '' '')" using splitter.split_is_split_on [OF assms(2)] by (simp add: fun_eq_iff)
  then show "fst (process_packet G E u ''/whoami'' (dm_world ?d)) = Inl (Undefined Null_deref)"
    using whoami_known assms(1,3,4) whoami_parsed
    by (simp add: process_packet_def is_command_def process_command_def cmd_whoami_def with_user_def manager_find_user_def
      find_user_room_def find_in_map_def new_daemon_def catch_runtime_def act_simps)
qed

theorem early_client_crashes_witness:
  "\<exists>d. setup_run [Attach_server, Websocket demo_outside (SessionId 1), Attach Greeter, Attach User_maker]
      (new_daemon demo_world) = (Inr (), d) \<and>
    fst (process_packet demo_globals demo_outside (SessionId 1) ''/whoami'' (dm_world d)) = Inl (Undefined Null_deref)"
proof -
  have "init_global_commands (\<lambda>_. None) = Inr demo_globals"
    using whoami_known by (auto simp: demo_globals_def split: sum.splits)
  moreover have "splitter (o_split demo_outside) (CHR '' '')" using split_space.splitter_axioms by (simp add: demo_outside_def)
  ultimately show ?thesis
    using early_client_crashes [of demo_globals demo_outside demo_world "SessionId 1" demo_outside]
    by (auto simp: demo_world_def new_world_def)
qed

end
