(* ===== verification/Server_Membership.thy ===== *)
theory Server_Membership
  imports Server_Properties
begin

section \<open>Who is in which room\<close>

text \<open>
  \<open>ServerManager\<close> keeps a map from users to rooms beside the members that each room keeps itself.
  Here is what the two have to do with each other: every member of a room is mapped to this room,
  so nobody is ever in two rooms. The invariant holds after every event that does not end in undefined
  behaviour. The converse fails, as \<open>kicked_user_crashes_server\<close> shows.
\<close>

subsection \<open>Room operations admit nobody\<close>

definition member_ids :: "'g room \<Rightarrow> session_id set" where
  "member_ids r = fst ` set (r_members r)"

abbreviation inside :: "session_id set \<Rightarrow> 'g ctx \<Rightarrow> bool" where
  "inside S \<equiv> on_room (\<lambda>r. member_ids r \<subseteq> S)"

named_theorems inside_intros \<open>room operations after which the members are among those before\<close>

lemma member_ids_guarded [simp]: "member_ids (guarded u f r) = member_ids r"
  by (simp add: member_ids_def guarded_def cached_add_def cached_remove_def om_keys_modify flip: set_map split: option.split)

lemma member_ids_fields [simp]:
  "member_ids (r\<lparr>r_owner := ow\<rparr>) = member_ids r" "member_ids (r\<lparr>r_started := b\<rparr>) = member_ids r"
  "member_ids (r\<lparr>r_game := g\<rparr>) = member_ids r" "member_ids (r\<lparr>r_commands := c\<rparr>) = member_ids r"
  "member_ids (r\<lparr>r_on_owner_change := sg\<rparr>) = member_ids r" "member_ids (r\<lparr>r_on_member_join := sg\<rparr>) = member_ids r"
  "member_ids (r\<lparr>r_on_member_leave := sg\<rparr>) = member_ids r"
  by (simp_all add: member_ids_def)

lemma member_ids_changes [simp]:
  "member_ids (disqualify_player u r) = member_ids r" "member_ids (reset_player u r) = member_ids r"
  "member_ids (set_suppress b u r) = member_ids r" "member_ids (cached_add m r) = member_ids r"
  by (simp_all add: disqualify_player_def reset_player_def split: option.split)
    (simp_all add: member_ids_def set_suppress_def cached_add_def om_keys_modify flip: set_map)

lemma member_ids_promote [simp]: "member_ids (promote us r) = member_ids r"
  by (induction us arbitrary: r) simp_all

lemma member_ids_flush [simp]: "member_ids (flush_waitlist r) = member_ids r"
  by (simp add: flush_waitlist_def)

lemma member_ids_reset [simp]: "member_ids (reset_players r) = member_ids r"
proof -
  have "member_ids (fold reset_player us r) = member_ids r" for us by (induction us arbitrary: r) simp_all
  then show ?thesis by (simp add: reset_players_def)
qed

lemma member_ids_end_game [simp]: "member_ids (end_game r) = member_ids r"
  by (simp add: end_game_def)

lemma member_ids_take_out: "member_ids (take_out u m r) = member_ids r - {u}"
  by (auto simp: member_ids_def take_out_def om_set_erase)

lemma inside_modify [inside_intros]: "(\<And>r. member_ids (f r) \<subseteq> member_ids r) \<Longrightarrow> preserves (inside S) (modify_room f)"
  by (rule preserves_modify_room) blast

lemma inside_fires [inside_intros]:
  "preserves (inside S) (fire_join u)" "preserves (inside S) (fire_leave u)" "preserves (inside S) (fire_owner_change u)"
  by (rule preserves_fires, simp add: signal_free_def)+

lemmas room_intros = inside_intros preserves_return preserves_throw preserves_read preserves_bind preserves_seq
  preserves_when preserves_for preserves_if preserves_option preserves_seqs preserves_undefined preserves_throw_chat
  preserves_catch_chat preserves_catch_game preserves_catch_runtime preserves_read_room preserves_broadcast
  preserves_send preserves_send_system preserves_modify_user preserves_get_simon preserves_user_name preserves_name_of_ptr
  preserves_simon_name preserves_use_after_free

lemma inside_modify_simon [inside_intros]: "preserves (inside S) (modify_simon f)"
  unfolding modify_simon_def by (rule inside_modify) simp

lemma inside_set_owner [inside_intros]: "preserves (inside S) (set_owner ow)"
  unfolding set_owner_def by (auto intro!: room_intros inside_intros split: option.split)

lemma inside_check_win [inside_intros]: "preserves (inside S) check_win"
  unfolding check_win_def by (auto intro!: room_intros inside_intros)

lemma inside_end_round [inside_intros]: "preserves (inside S) end_round"
  unfolding end_round_def by (auto intro!: room_intros inside_intros)

lemma inside_next_round [inside_intros]: "preserves (inside S) (next_round m)"
  unfolding next_round_def by (auto intro!: room_intros inside_intros)

lemma inside_simon [inside_intros]:
  "preserves (inside S) simon_initialize" "preserves (inside S) (simon_player_message trim u m)"
  "preserves (inside S) (simon_player_command u c)" "preserves (inside S) (simon_on_player_quit u)"
  "preserves (inside S) (simon_on_option_change k x)" "preserves (inside S) simon_start"
  unfolding simon_initialize_def simon_player_message_def simon_player_command_def simon_on_player_quit_def
    simon_on_option_change_def simon_start_def
  by (auto intro!: room_intros inside_intros)

lemma inside_controller [inside_intros]:
  "preserves (inside S) (k_initialize (simon_controller trim))"
  "preserves (inside S) (k_player_message (simon_controller trim) u m)"
  "preserves (inside S) (k_player_command (simon_controller trim) u c)"
  "preserves (inside S) (k_spectator_message (simon_controller trim) u m)"
  "preserves (inside S) (k_spectator_command (simon_controller trim) u c)"
  "preserves (inside S) (k_on_player_quit (simon_controller trim) u)"
  "preserves (inside S) (k_on_option_change (simon_controller trim) k x)"
  "preserves (inside S) (k_list_option_descriptions (simon_controller trim))"
  "preserves (inside S) (k_update (simon_controller trim))" "preserves (inside S) (k_start (simon_controller trim))"
  by (simp_all add: simon_controller_def inside_intros default_spectator_message_def default_spectator_command_def
    simon_list_option_descriptions_def simon_update_def preserves_return)

lemma inside_on_game [inside_intros]: "preserves (inside S) m \<Longrightarrow> preserves (inside S) (on_game m)"
  unfolding on_game_def by (auto intro!: room_intros)

lemma inside_remove_user [inside_intros]: "preserves (inside S) (remove_user (simon_controller trim) u)"
proof -
  have out: "preserves (inside S) (modify_room (take_out u m) :: (simon, unit) room_op)" for m
    by (rule inside_modify) (simp add: member_ids_take_out)
  show ?thesis
    unfolding remove_user_def quit_game_def shift_owner_def
    by (auto intro!: room_intros inside_intros out split: option.split list.split)
qed

lemma inside_room_ops [inside_intros]:
  "preserves (inside S) (update_game (simon_controller trim))"
  "preserves (inside S) (load_game (simon_controller trim) g)" "preserves (inside S) (start_game (simon_controller trim))"
  "preserves (inside S) (game_option (simon_controller trim) k x)"
  "preserves (inside S) (sbind game (\<lambda>_. k_list_option_descriptions (simon_controller trim)))"
  unfolding update_game_def load_game_def start_game_def game_option_def game_def
  by (auto intro!: room_intros inside_intros split: if_split_asm)

lemma inside_process_message [inside_intros]: "preserves (inside S) (process_message (simon_controller trim) u m)"
  unfolding process_message_def Let_def by (auto intro!: room_intros inside_intros)

lemma inside_add_user: "u \<in> S \<Longrightarrow> preserves (inside S) (add_user now u how)"
proof -
  assume "u \<in> S"
  have insert: "preserves (inside S) (modify_room (insert_member (new_member now k u st)))" for k st
    by (rule preserves_modify_room)
      (use \<open>u \<in> S\<close> in \<open>auto simp: member_ids_def insert_member_def new_member_def om_keys_insert\<close>)
  have counter: "preserves (inside S) (smodify (\<lambda>s. s\<lparr>c_counter := k\<rparr>))" for k
    by (simp add: preserves_def act_simps on_room_def)
  show ?thesis
    unfolding add_user_def admit_new_def
    by (auto intro!: room_intros inside_intros insert counter split: sum.split)
qed

subsection \<open>The map from users to rooms\<close>

text \<open>A predicate on worlds that looks only at the members of the rooms and at the maps of users.\<close>

definition on_seats ::
  "((nat \<Rightarrow> simon room) \<Rightarrow> (session_id \<rightharpoonup> nat) \<Rightarrow> (session_id \<rightharpoonup> session_id) \<Rightarrow> bool) \<Rightarrow> world \<Rightarrow> bool"
where
  "on_seats P w \<longleftrightarrow> P (w_rooms w) (w_user_room w) (w_known w)"

definition seated :: "world \<Rightarrow> bool" where
  "seated w \<longleftrightarrow> (\<forall>ref u. u \<in> member_ids (w_rooms w ref) \<longrightarrow> w_user_room w u = Some ref) \<and>
     (\<forall>u v. w_known w u = Some v \<longrightarrow> v = u)"

lemma seated_on: "seated = on_seats (\<lambda>rs m k. (\<forall>ref u. u \<in> member_ids (rs ref) \<longrightarrow> m u = Some ref) \<and> (\<forall>u v. k u = Some v \<longrightarrow> v = u))"
  by (rule ext) (simp add: seated_def on_seats_def)

lemma seats_keep:
  "(\<And>s. w_rooms (snd (m s)) = w_rooms s \<and> w_user_room (snd (m s)) = w_user_room s \<and> w_known (snd (m s)) = w_known s) \<Longrightarrow>
     preserves seated m"
  by (simp add: preserves_def seated_def)

named_theorems seat_intros \<open>manager operations that keep everybody in the room they are mapped to\<close>

lemma seats_say [seat_intros]: "preserves seated (say u m)"
  by (rule seats_keep) (simp add: say_def act_simps)

lemma seats_say_error [seat_intros]: "preserves seated (say_error u m)"
  by (simp add: say_error_def seats_say)

lemma seats_user_object [seat_intros]: "preserves seated (modify_user_object u f)"
  by (rule seats_keep) (simp add: modify_user_object_def act_simps)

lemma seats_destroy [seat_intros]: "preserves seated (destroy_room ref)"
  by (rule seats_keep) (simp add: destroy_room_def act_simps)

lemma seats_at_room:
  assumes "\<And>S. preserves (inside S) m"
  shows "preserves seated (at_room ref m)"
proof (rule preservesI)
  fix w
  assume w: "seated w"
  have "inside (member_ids (w_rooms w ref)) (snd (m (room_ctx ref w)))"
    by (rule preservesD [OF assms]) (simp add: on_room_def)
  then show "seated (snd (at_room ref m w))" using w by (auto simp: at_room_run seated_def on_room_def)
qed

lemma seats_room_ops [seat_intros]:
  "preserves seated (at_room ref (broadcast_message msg))"
  "preserves seated (at_room ref (remove_user (simon_controller trim) u))"
  "preserves seated (at_room ref (update_game (simon_controller trim)))"
  "preserves seated (at_room ref (load_game (simon_controller trim) g))"
  "preserves seated (at_room ref (start_game (simon_controller trim)))"
  "preserves seated (at_room ref (modify_room end_game))"
  "preserves seated (at_room ref (game_option (simon_controller trim) k x))"
  "preserves seated (at_room ref (sbind game (\<lambda>_. k_list_option_descriptions (simon_controller trim))))"
  "preserves seated (at_room ref (process_message (simon_controller trim) u m))"
  "preserves seated (at_room ref (on_game (k_player_command (simon_controller trim) u c)))"
  "preserves seated (at_room ref (on_game (k_spectator_command (simon_controller trim) u c)))"
  by (rule seats_at_room, simp add: preserves_broadcast inside_intros)+

lemmas world_rules = seat_intros keeps_get_room keeps_with_user preserves_return preserves_throw preserves_read preserves_bind
  preserves_seq preserves_when preserves_for preserves_if preserves_option preserves_undefined preserves_throw_chat
  preserves_catch_chat preserves_catch_game preserves_catch_runtime preserves_seqs

lemma seats_require [seat_intros]:
  "preserves seated m \<Longrightarrow> preserves seated (require_owner ref u c m)"
  "preserves seated m \<Longrightarrow> preserves seated (require_loaded ref u m)"
  unfolding require_owner_def require_loaded_def by (auto intro!: world_rules)

lemma seats_names [seat_intros]: "preserves seated (rename_default p u)" "preserves seated (give_nickname d u)"
  unfolding rename_default_def give_nickname_def by (auto intro!: world_rules split: sum.split)

lemma seats_set_nickname [seat_intros]: "preserves seated (user_set_nickname u n)"
  unfolding user_set_nickname_def by (auto intro!: world_rules)

lemma seats_exec_room [seat_intros]: "preserves seated (exec_room E x ref u args)"
proof -
  note rules = world_rules seat_intros
  show ?thesis
  proof (cases x)
    case Exec_members
    then show ?thesis by (auto simp: cmd_members_def intro!: rules split: prod.split)
  next
    case Exec_room
    then show ?thesis by (auto simp: cmd_room_def intro!: rules)
  next
    case Exec_option
    then show ?thesis by (auto simp: cmd_option_def intro!: rules split: result.split)
  next
    case Exec_end
    then show ?thesis by (auto simp: cmd_end_def intro!: rules)
  qed (auto simp: cmd_nick_def cmd_kick_def cmd_options_def cmd_load_def cmd_start_def intro!: rules)
qed

lemma seats_room_command [seat_intros]: "preserves seated (room_process_command E ref u c)"
  unfolding room_process_command_def by (auto intro!: world_rules seat_intros)

subsection \<open>Unless undefined\<close>

text \<open>\<open>held P m Q\<close>: from a state that satisfies \<open>P\<close> the action leaves one that satisfies \<open>Q\<close>, whether
  it returns or throws, unless its behaviour is undefined. No handler catches undefined behaviour.\<close>

definition held :: "('s \<Rightarrow> bool) \<Rightarrow> ('s, 'a) op \<Rightarrow> ('s \<Rightarrow> bool) \<Rightarrow> bool" where
  "held P m Q \<longleftrightarrow> (\<forall>s. P s \<longrightarrow> (\<exists>u. fst (m s) = Inl (Undefined u)) \<or> Q (snd (m s)))"

lemma heldI: "(\<And>s. P s \<Longrightarrow> (\<exists>u. fst (m s) = Inl (Undefined u)) \<or> Q (snd (m s))) \<Longrightarrow> held P m Q"
  by (simp add: held_def)

lemma heldD: "held P m Q \<Longrightarrow> P s \<Longrightarrow> m s = (r, s') \<Longrightarrow> (\<exists>u. r = Inl (Undefined u)) \<or> Q s'"
  unfolding held_def by (metis fst_conv snd_conv)

lemma held_leads: "leads P m Q \<Longrightarrow> held P m Q"
  by (simp add: held_def leads_def)

lemma held_keep: "preserves Q m \<Longrightarrow> (\<And>s. P s \<Longrightarrow> Q s) \<Longrightarrow> held P m Q"
  by (simp add: held_def preserves_def)

lemma held_undefined: "held P (undefined_behaviour u) Q"
  by (simp add: held_def undefined_behaviour_def sthrow_def)

lemma held_then:
  assumes "held P m Q" and "\<And>a. preserves Q (f a)"
  shows "held P (sbind m f) Q"
proof (rule heldI)
  fix s
  assume p: "P s"
  obtain r s' where m: "m s = (r, s')" by fastforce
  show "(\<exists>u. fst (sbind m f s) = Inl (Undefined u)) \<or> Q (snd (sbind m f s))"
    using heldD [OF assms(1) p m] preservesD [OF assms(2), of s'] by (cases r) (auto simp: sbind_def m)
qed

lemma held_bind:
  assumes "preserves P m" and "\<And>s. P s \<Longrightarrow> Q s" and "\<And>a. held P (f a) Q"
  shows "held P (sbind m f) Q"
proof (rule heldI)
  fix s
  assume p: "P s"
  obtain r s' where m: "m s = (r, s')" by fastforce
  have p': "P s'" using preservesD' [OF assms(1) p m] .
  show "(\<exists>u. fst (sbind m f s) = Inl (Undefined u)) \<or> Q (snd (sbind m f s))"
    using p' assms(2) assms(3) by (cases r) (auto simp: sbind_def m held_def)
qed

lemma held_catch_chat:
  assumes "held P m Q" and "\<And>x. preserves Q (h x)"
  shows "held P (catch_chat m h) Q"
proof (rule heldI)
  fix s
  assume p: "P s"
  obtain r s' where m: "m s = (r, s')" by fastforce
  show "(\<exists>u. fst (catch_chat m h s) = Inl (Undefined u)) \<or> Q (snd (catch_chat m h s))"
    using heldD [OF assms(1) p m] preservesD [OF assms(2), of s']
    by (cases r) (auto simp: catch_chat_def scatch_def m sthrow_def split: exn.split)
qed

lemma held_catch_runtime:
  assumes "held P m Q" and "\<And>x. preserves Q (h x)"
  shows "held P (catch_runtime m h) Q"
proof (rule heldI)
  fix s
  assume p: "P s"
  obtain r s' where m: "m s = (r, s')" by fastforce
  show "(\<exists>u. fst (catch_runtime m h s) = Inl (Undefined u)) \<or> Q (snd (catch_runtime m h s))"
    using heldD [OF assms(1) p m] preservesD [OF assms(2), of s']
    by (cases r) (auto simp: catch_runtime_def scatch_def m sthrow_def split: exn.split)
qed

subsection \<open>Leaving and joining\<close>

abbreviation consistent :: "world \<Rightarrow> bool" where
  "consistent w \<equiv> rooms_ok w \<and> seated w"

lemma find_player_id: "find_player u r = Some v \<Longrightarrow> v = u"
  by (auto simp: find_player_def dest: find_if_Some)

lemma leave_held:
  "held (\<lambda>w. consistent w \<and> w_user_room w u = Some ref) (user_leave_room (simon_controller trim) u ref) seated"
proof (rule heldI)
  let ?K = "simon_controller trim"
  fix w
  assume w: "consistent w \<and> w_user_room w u = Some ref"
  show "(\<exists>x. fst (user_leave_room ?K u ref w) = Inl (Undefined x)) \<or> seated (snd (user_leave_room ?K u ref w))"
  proof (cases "find_player u (w_rooms w ref)")
    case None
    then show ?thesis using leave_not_playing [of u w ref ?K] by auto
  next
    case (Some v)
    define w1 where "w1 = w\<lparr>w_user_room := (w_user_room w)(u := None)\<rparr>"
    have inv: "on_room room_inv (room_ctx ref w1)" using w by (simp add: on_room_def rooms_ok_def w1_def)
    obtain s' where s': "remove_user ?K u (room_ctx ref w1) = (Inr (), s')" and left: "left_inv u (c_room s')"
      using safeD [OF simon.remove_user_safe [of trim u] inv] by (auto simp: on_room_def)
    have "preserves (inside (member_ids (w_rooms w ref))) (remove_user ?K u)" by (rule inside_remove_user)
    from preservesD' [OF this _ s'] have ids: "member_ids (c_room s') \<subseteq> member_ids (w_rooms w ref)"
      by (simp add: on_room_def w1_def)
    let ?w2 = "put_ctx ref s' w1"
    have "u \<notin> member_ids (c_room s')" using left by (simp add: left_inv_def member_ids_def)
    moreover have "v' = ref" if "u \<in> member_ids (w_rooms w v')" for v'
      using w that unfolding seated_def by (metis option.inject)
    ultimately have "seated ?w2" using w ids by (auto simp: seated_def w1_def)
    moreover have "preserves seated (sseqs [sbind (get_room ref r_players) (\<lambda>ps. swhen (ps = []) (destroy_room ref))])"
      by (simp add: preserves_seq preserves_return preserves_bind keeps_get_room preserves_when seats_destroy)
    moreover have "at_room ref (remove_user ?K u) w1 = (Inr (), ?w2)" by (simp add: at_room_run s')
    then have "catch_chat (sbind (get_room ref (find_player u)) (\<lambda>p. case p of
         None \<Rightarrow> undefined_behaviour Null_deref
       | Some v \<Rightarrow> at_room ref (remove_user ?K v))) (\<lambda>_. sreturn ()) w1 = (Inr (), ?w2)"
      using Some find_player_id [OF Some]
      by (simp add: catch_chat_def scatch_def get_room_def sbind_read_run w1_def)
    moreover have "(smodify (\<lambda>w. w\<lparr>w_user_room := (w_user_room w)(u := None)\<rparr>) :: unit world_op) w = (Inr (), w1)"
      by (simp add: smodify_def w1_def)
    ultimately show ?thesis by (simp add: user_leave_room_def sseq_run [of "smodify f" for f] sseq_run [of "catch_chat m h" for m h] preserves_def)
  qed
qed

lemma preserves_conj: "preserves P m \<Longrightarrow> preserves Q m \<Longrightarrow> preserves (\<lambda>s. P s \<and> Q s) m"
  by (simp add: preserves_def)

text \<open>What a join may change: one room gets at most the new member.\<close>

lemma join_frame:
  "preserves (\<lambda>w. (\<forall>r. r \<noteq> ref \<longrightarrow> w_rooms w r = rs r) \<and> member_ids (w_rooms w ref) \<subseteq> insert u S \<and> w_known w = k)
     (user_join_room p d now u ref)"
proof -
  let ?Q = "\<lambda>w. (\<forall>r. r \<noteq> ref \<longrightarrow> w_rooms w r = rs r) \<and> member_ids (w_rooms w ref) \<subseteq> insert u S \<and> w_known w = k"
  have base: "preserves ?Q (say v m)" "preserves ?Q (modify_user_object v f)"
    "preserves ?Q (smodify (\<lambda>w. w\<lparr>w_user_room := g w\<rparr>))" for v m f g
    by (simp_all add: preserves_def say_def modify_user_object_def act_simps)
  have add: "preserves (inside (insert u S)) (add_user now u how)" for how
    by (rule inside_add_user) simp
  have "preserves ?Q (at_room ref (add_user now u how))" for how
    using preservesD [OF add, of "room_ctx ref w" how for w] by (auto simp: preserves_def at_room_run on_room_def)
  then show ?thesis
    unfolding user_join_room_def rename_default_def give_nickname_def
    by (auto intro!: pres_intros base split: sum.split)
qed

abbreviation consistent_at :: "int \<Rightarrow> world \<Rightarrow> bool" where
  "consistent_at now w \<equiv> rooms_fresh now w \<and> seated w"

lemma join_seats: "leads (consistent_at now) (user_join_room p d now u ref) seated"
proof (rule leadsI)
  fix w
  assume w: "consistent_at now w"
  let ?w' = "snd (user_join_room p d now u ref w)"
  show "seated ?w'"
  proof (cases "w_user_room w u")
    case (Some r)
    then have "user_join_room p d now u ref w =
        say u ''Error: You must leave your current room before joining another one.'' w"
      by (simp add: user_join_room_def find_user_room_def find_in_map_def sbind_read_run)
    then show ?thesis using w preservesD [OF seats_say] by simp
  next
    case None
    let ?Q = "\<lambda>v. (\<forall>r. r \<noteq> ref \<longrightarrow> w_rooms v r = w_rooms w r) \<and>
      member_ids (w_rooms v ref) \<subseteq> insert u (member_ids (w_rooms w ref)) \<and> w_known v = w_known w"
    have Q: "?Q ?w'" by (rule preservesD [OF join_frame]) auto
    have "u \<notin> member_ids (w_rooms w r)" for r using w None unfolding seated_def by (metis option.distinct(1))
    then have "find_member u (w_rooms w ref) = None"
      using find_member_keys [of u "w_rooms w ref"] by (auto simp: member_ids_def)
    from join_outcome [OF _ this _ None, of now p d]
    have "if fst (user_join_room p d now u ref w) = Inr () then w_user_room ?w' = (w_user_room w)(u \<mapsto> ref)
       else w_user_room ?w' = w_user_room w \<and> w_rooms ?w' = w_rooms w"
      using w by (auto simp: rooms_fresh_def rooms_ok_def split: prod.splits if_splits)
    then show ?thesis
      using w Q None unfolding seated_def
      by (cases "fst (user_join_room p d now u ref w) = Inr ()")
        (simp_all, metis (no_types, lifting) insertE option.distinct(1) subsetD)
  qed
qed

lemma seats_create: "preserves seated (create_room draws t False sig)"
proof (rule preservesI)
  fix w
  assume "seated w"
  moreover have "member_ids (room_listeners (new_room t False sig code :: simon room)) = {}" for code
    by (simp add: room_listeners_def) (simp add: new_room_def member_ids_def)
  ultimately show "seated (snd (create_room draws t False sig w))"
    by (auto simp: create_room_def act_simps seated_def split: sum.splits)
qed

lemma seats_set_commands: "preserves seated (set_room_commands ref)"
  unfolding set_room_commands_def
  by (auto intro!: world_rules seats_at_room inside_intros split: sum.split)

lemma consistent_intros:
  "preserves (consistent_at now) (say u m)" "preserves (consistent_at now) (create_room draws t False sig)"
  "preserves (consistent_at now) (set_room_commands ref)" "preserves (consistent_at now) (get_room ref f)"
  by (auto intro!: preserves_conj keeps_fresh_intros seats_say keeps_create seats_create keeps_set_commands
    seats_set_commands keeps_get_room)

lemma join_with_user_seats:
  "leads (consistent_at now) (with_user u (\<lambda>v. user_join_room p d now v ref)) seated"
  unfolding with_user_def
  by (rule leads_bind [OF preserves_read], simp)
    (auto simp: undefined_behaviour_def sthrow_def intro: join_seats leadsI split: option.split)

subsection \<open>Commands, packets and ticks\<close>

lemma create_seats:
  assumes "\<not> o_started E"
  shows "leads (consistent_at (o_now E)) (cmd_create E u) seated"
proof -
  let ?F = "consistent_at (o_now E)"
  have code: "preserves ?F (sbind (get_room ref r_id) (\<lambda>c. say u (''Your room is: '' @ c)))" for ref
    by (intro preserves_bind consistent_intros)
  have last: "leads ?F (sseqs [with_user u (\<lambda>v. user_join_room p d (o_now E) v ref)]) seated" for p d ref
    unfolding sseqs.simps sseq_def by (rule leads_then [OF join_with_user_seats]) (rule preserves_return)
  have rest: "leads ?F (sseqs [set_room_commands ref, sbind (get_room ref r_id) (\<lambda>c. say u (''Your room is: '' @ c)),
      with_user u (\<lambda>v. user_join_room p d (o_now E) v ref)]) seated" for p d ref
    unfolding sseqs.simps(2) [of "set_room_commands ref"] sseqs.simps(2) [of "sbind (get_room ref r_id) f" for f] sseq_def
    by (rule leads_bind [OF consistent_intros(3)], simp, rule leads_bind [OF code], simp, rule last)
  have err: "leads ?F (say_error u m) seated" for m
    unfolding say_error_def by (rule leads_keep [OF consistent_intros(1)]) simp
  have create: "preserves ?F (create_room (o_room_draws E) (o_created E) (o_started E) (o_signals E))"
    using assms consistent_intros(2) by simp
  show ?thesis
    unfolding cmd_create_def
    by (rule leads_bind [OF preserves_read], simp, rule leads_if, rule err, rule leads_bind [OF create], simp, rule rest)
qed

lemma cmd_join_seats: "leads (consistent_at (o_now E)) (cmd_join E u args) seated"
proof -
  let ?F = "consistent_at (o_now E)"
  have err: "leads ?F (say_error u m) seated" for m
    unfolding say_error_def by (rule leads_keep [OF consistent_intros(1)]) simp
  have join: "leads ?F (catch_chat (sseq (with_user u (\<lambda>v. user_join_room p d (o_now E) v ref)) m) (\<lambda>ex. say_error u (f ex))) seated"
    if "preserves seated m" for p d ref m f
    unfolding sseq_def by (rule leads_catch_chat, rule leads_then [OF join_with_user_seats that]) (rule seats_say_error)
  show ?thesis
    unfolding cmd_join_def
    by (rule leads_bind [OF preserves_read], simp)
      (auto intro!: leads_if err join world_rules leads_bind [OF preserves_read] split: option.split)
qed

lemma cmd_leave_seats: "held consistent (cmd_leave E u) seated"
proof (rule heldI)
  fix w
  assume w: "consistent w"
  have keep: "seated (snd (m w))" if "preserves seated m" for m :: "unit world_op"
    using preservesD [OF that] w by blast
  have after: "held (\<lambda>w. consistent w \<and> w_user_room w v = Some ref) (sseq (user_leave_room (o_game E) v ref)
      (sbind (get_room ref r_id) (\<lambda>c. say u (''You left '' @ quoted c @ ''.'')))) seated" for v ref
    unfolding sseq_def by (rule held_then [OF leave_held]) (intro world_rules)
  show "(\<exists>x. fst (cmd_leave E u w) = Inl (Undefined x)) \<or> seated (snd (cmd_leave E u w))"
  proof (cases "find_user_room u w = None \<or> manager_find_user u w = None")
    case True
    then show ?thesis using keep [OF seats_say_error]
      by (auto simp: cmd_leave_def with_user_def sbind_read_run undefined_behaviour_def sthrow_def)
  next
    case False
    then obtain c v where v: "find_user_room u w = Some c" "manager_find_user u w = Some v" by auto
    show ?thesis
    proof (cases "find_user_room v w")
      case None
      then show ?thesis using v by (simp add: cmd_leave_def with_user_def sbind_read_run undefined_behaviour_def sthrow_def)
    next
      case (Some ref)
      then have "w_user_room w v = Some ref" by (simp add: find_user_room_def find_in_map_def)
      then show ?thesis
        using after [of v ref] v Some w unfolding held_def by (simp add: cmd_leave_def with_user_def sbind_read_run)
    qed
  qed
qed

lemma exec_global_seats:
  assumes "\<not> o_started E"
  shows "held (consistent_at (o_now E)) (exec_global E x u args) seated"
proof (cases x)
  case Global_create
  then show ?thesis using held_leads [OF create_seats [OF assms]] by simp
next
  case Global_join
  then show ?thesis using held_leads [OF cmd_join_seats] by simp
next
  case Global_leave
  have "held (consistent_at (o_now E)) (cmd_leave E u) seated"
    using cmd_leave_seats [of E u] fresh_ok unfolding held_def by blast
  then show ?thesis using Global_leave by simp
next
  case Global_whoami
  have "preserves seated (cmd_whoami u)" unfolding cmd_whoami_def by (auto intro!: world_rules)
  then show ?thesis using Global_whoami by (auto intro: held_keep)
qed (auto simp: stub_room_only_def intro!: held_keep seats_say)

lemma exec_global_in_room_seats:
  "held (\<lambda>w. consistent w \<and> find_user_room u w \<noteq> None) (exec_global E x u args) seated"
proof (cases "x = Global_create \<or> x = Global_join")
  case True
  have keep: "seated w \<Longrightarrow> seated (snd (say_error u m w))" for m w by (rule preservesD [OF seats_say_error])
  show ?thesis
    by (rule heldI) (use True keep in \<open>auto simp: cmd_create_def cmd_join_def sbind_read_run\<close>)
next
  case False
  have "preserves seated (cmd_whoami u)" unfolding cmd_whoami_def by (auto intro!: world_rules)
  moreover have "held (\<lambda>w. consistent w \<and> find_user_room u w \<noteq> None) (cmd_leave E u) seated"
    using cmd_leave_seats [of E u] unfolding held_def by blast
  ultimately show ?thesis
    using False by (cases x) (auto simp: stub_room_only_def intro!: held_keep seats_say)
qed

lemma process_command_seats:
  assumes "\<not> o_started E"
  shows "held (consistent_at (o_now E)) (process_command G E u c) seated"
proof (rule heldI)
  fix w
  assume w: "consistent_at (o_now E) w"
  let ?global = "\<lambda>handled. if handled then sreturn () else case command_map_find G (cmd_name c) of
       None \<Rightarrow> say_error u ''Unknown command. Use /help to see a list of commands.''
     | Some ex \<Rightarrow> exec_global E ex u (cmd_arguments c)"
  let ?good = "\<lambda>p. (\<exists>x. fst p = Inl (Undefined x)) \<or> seated (snd p)"
  show "?good (process_command G E u c w)"
  proof (cases "find_user_room u w")
    case None
    then have "process_command G E u c w = ?global False w" by (simp add: process_command_def act_simps)
    moreover have "?good (exec_global E x u args w)" for x args
      using exec_global_seats [OF assms] w unfolding held_def by blast
    ultimately show ?thesis using preservesD [OF seats_say_error] w by (simp split: option.split)
  next
    case (Some ref)
    obtain r w' where run: "room_process_command E ref u c w = (r, w')" by fastforce
    have ok: "consistent w'"
      using preservesD' [OF keeps_room_command _ run] preservesD' [OF seats_room_command _ run] w fresh_ok by blast
    show ?thesis
    proof (cases r)
      case (Inl e)
      then show ?thesis using ok Some run by (simp add: process_command_def act_simps)
    next
      case (Inr handled)
      have "process_command G E u c w = ?global handled w'"
        using Some run Inr by (simp add: process_command_def act_simps)
      moreover have "\<not> handled \<Longrightarrow> find_user_room u w' \<noteq> None"
        using room_command_declined [of E ref u c w w'] run Inr Some by (cases handled) (auto simp: find_user_room_def)
      then have "\<not> handled \<Longrightarrow> ?good (exec_global E x u args w')" for x args
        using exec_global_in_room_seats [of u E] ok unfolding held_def by blast
      ultimately show ?thesis using preservesD [OF seats_say_error] ok by (simp add: sreturn_def split: option.split)
    qed
  qed
qed

lemma packet_seats:
  assumes "\<not> o_started E"
  shows "held (consistent_at (o_now E)) (process_packet G E u text) seated"
proof -
  let ?F = "consistent_at (o_now E)"
  have chat: "preserves seated (process_text E u text)"
    unfolding process_text_def by (auto intro!: world_rules seat_intros)
  have cmd: "held ?F (catch_runtime (process_command G E u c) (\<lambda>_. say_error u m)) seated" for c m
    by (rule held_catch_runtime [OF process_command_seats [OF assms] seats_say_error])
  have keep: "held ?F m seated" if "preserves seated m" for m :: "unit world_op"
    using that by (auto intro: held_keep)
  show ?thesis
    using keep [OF chat] keep [OF seats_say_error] keep [OF preserves_throw] cmd
    by (simp add: process_packet_def split: sum.split option.split)
qed

lemma disconnect_seats: "held consistent (process_disconnect (simon_controller trim) u) seated"
proof (rule heldI)
  fix w
  assume w: "consistent w"
  show "(\<exists>x. fst (process_disconnect (simon_controller trim) u w) = Inl (Undefined x)) \<or>
    seated (snd (process_disconnect (simon_controller trim) u w))"
  proof (cases "w_known w u = None \<or> w_user_room w u = None")
    case True
    have "w_known w u = Some v \<Longrightarrow> v = u" for v using w by (simp add: seated_def)
    then have "process_disconnect (simon_controller trim) u w = (Inr (), w)"
      using True by (cases "w_known w u") (auto simp: process_disconnect_def manager_remove_user_def
        manager_find_user_def find_user_room_def find_in_map_def act_simps)
    then show ?thesis using w by simp
  next
    case False
    then obtain v ref where "w_known w u = Some v" and ref: "w_user_room w u = Some ref" by auto
    then have known: "w_known w u = Some u" using w by (auto simp: seated_def)
    have "process_disconnect (simon_controller trim) u w = user_leave_room (simon_controller trim) u ref w"
      using known ref by (simp add: process_disconnect_def manager_remove_user_def manager_find_user_def
        find_user_room_def find_in_map_def sbind_read_run)
    then show ?thesis using leave_held [of u ref trim] w ref unfolding held_def by simp
  qed
qed

lemma seats_accept: "preserves seated (accept_connection E u)"
proof -
  have "preserves seated (manager_add_user u)"
    by (auto simp: manager_add_user_def preserves_def act_simps seated_def split: option.split)
  then show ?thesis
    unfolding accept_connection_def greet_user_def make_user_def
    by (auto intro!: world_rules seat_intros split: sum.split)
qed

lemma server_step_seats:
  assumes "consistent w" and "event_fresh e w"
  shows "(\<exists>x. fst (server_step G e w) = Inl (Undefined x)) \<or> seated (snd (server_step G e w))"
proof (cases e)
  case (Accept E u)
  then show ?thesis using preservesD [OF seats_accept] assms by simp
next
  case (Disconnected E u)
  then show ?thesis using disconnect_seats [of "o_trim E" u] assms(1) unfolding held_def by simp
next
  case (Packet E u msg)
  then show ?thesis using packet_seats [of E G u msg] assms unfolding held_def by (simp add: rooms_fresh_def)
next
  case (Update_games E)
  have "preserves seated (server_step G e)"
    using Update_games by (auto intro!: world_rules seat_intros)
  then show ?thesis using preservesD [of seated "server_step G e" w] assms(1) by blast
qed

lemma server_run_seats:
  "consistent w \<Longrightarrow> events_fresh G es w \<Longrightarrow>
     (\<exists>x. fst (server_run G es w) = Inl (Undefined x)) \<or> seated (snd (server_run G es w))"
proof (induction es arbitrary: w)
  case (Cons e es)
  obtain r w' where step: "server_step G e w = (r, w')" by fastforce
  have ok: "rooms_ok w'" using server_step_ok [of w e G] Cons.prems step by simp
  have "(\<exists>x. r = Inl (Undefined x)) \<or> seated w'"
    using server_step_seats [of w e G] Cons.prems step by simp
  then show ?case
    using ok Cons.IH [of w'] Cons.prems step by (cases r) (auto simp: server_run_def act_simps)
qed (simp add: server_run_def act_simps)

lemma member_ids_found: "u \<in> member_ids r \<longleftrightarrow> find_member u r \<noteq> None"
  using find_member_keys [of u r] by (auto simp: member_ids_def)

lemma seated_member: "seated w \<Longrightarrow> find_member u (w_rooms w ref) \<noteq> None \<Longrightarrow> w_user_room w u = Some ref"
  unfolding seated_def member_ids_found by blast

lemma empty_world_seats: "seated (new_world us (\<lambda>_. new_room now False sig code))"
  by (simp add: seated_def new_world_def member_ids_def new_room_def)

text \<open>C3. The map of the server manager covers the rooms, along the runs in which the uninitialised flag of a
  new room is false and no packet is processed at a clock reading at which a present member joined
  (\<open>events_fresh\<close>, as for the room invariant): after such a sequence of events, unless it ended in undefined behaviour, every
  member of a room is mapped
  to that room. So nobody is ever a member of two rooms, whatever joins, kicks and departures there
  were and whichever of them threw.\<close>

theorem members_are_mapped:
  assumes "events_fresh G es (new_world us (\<lambda>_. new_room now False sig code))"
  shows "case server_run G es (new_world us (\<lambda>_. new_room now False sig code)) of (res, w) \<Rightarrow>
    (\<exists>x. res = Inl (Undefined x)) \<or>
    (\<forall>ref u. find_member u (w_rooms w ref) \<noteq> None \<longrightarrow> w_user_room w u = Some ref)"
proof -
  let ?w = "new_world us (\<lambda>_. new_room now False sig code)"
  have "rooms_ok ?w" by (simp add: rooms_ok_def new_world_def room_inv_new)
  then have "(\<exists>x. fst (server_run G es ?w) = Inl (Undefined x)) \<or> seated (snd (server_run G es ?w))"
    using server_run_seats [OF _ assms] empty_world_seats by blast
  then show ?thesis
    using seated_member by (cases "server_run G es ?w") (simp only: prod.case fst_conv snd_conv, blast)
qed

theorem members_are_mapped_witness:
  "case server_run demo_globals demo_events demo_world of (res, w) \<Rightarrow>
    (\<exists>x. res = Inl (Undefined x)) \<or>
    (\<forall>ref u. find_member u (w_rooms w ref) \<noteq> None \<longrightarrow> w_user_room w u = Some ref)"
  using members_are_mapped [of demo_globals demo_events demo_users 0 "\<lambda>_. 0" "[]"] demo_events_fresh
  by (simp add: demo_world_def)

end
