(* ===== verification/Game_Spec.thy ===== *)
theory Game_Spec
  imports Results Cpp_Strings
begin

section \<open>Game specifications: expressions, rules, game state (module game\_spec)\<close>

text \<open>
  The data of the rule language: \<open>Expression\<close> (a variant of map, list, int, bool and string),
  \<open>ExpressionPtr\<close> (a path of keys into a map), the rules of Rule.h, and \<open>GameState\<close>.
  An \<open>ExpMap\<close> is an \<open>unordered_map\<close>: an association list with distinct keys, in the order in which
  an iteration meets the entries; a new key goes to the end. Rules point to each other (\<open>parent\<close>,
  \<open>next\<close>, \<open>nested\<close>), so a rule is named by a number into a table of rules. A pointer to an expression
  is the environment it points into and a path. The clock and \<open>std::shuffle\<close> are parameters where
  they are used.
\<close>

datatype expr = EMap "(string \<times> expr) list" | EList "expr list" | EInt int | EBool bool | EStr string

type_synonym emap = "(string \<times> expr) list"

definition which :: "expr \<Rightarrow> nat" where
  "which e = (case e of EMap _ \<Rightarrow> 0 | EList _ \<Rightarrow> 1 | EInt _ \<Rightarrow> 2 | EBool _ \<Rightarrow> 3 | EStr _ \<Rightarrow> 4)"

subsection \<open>Fallible results\<close>

definition ebind :: "exn + 'a \<Rightarrow> ('a \<Rightarrow> exn + 'b) \<Rightarrow> exn + 'b" where
  "ebind x f = (case x of Inl e \<Rightarrow> Inl e | Inr a \<Rightarrow> f a)"

definition of_exn :: "exn + 'a \<Rightarrow> ('s, 'a) op" where
  "of_exn x = (case x of Inl e \<Rightarrow> sthrow e | Inr a \<Rightarrow> sreturn a)"

fun emapM :: "('a \<Rightarrow> exn + 'b) \<Rightarrow> 'a list \<Rightarrow> exn + 'b list" where
  "emapM f [] = Inr []"
| "emapM f (x # xs) = ebind (f x) (\<lambda>y. ebind (emapM f xs) (\<lambda>ys. Inr (y # ys)))"

lemma ebind_simps [simp]: "ebind (Inl e) f = Inl e" "ebind (Inr a) f = f a"
  by (simp_all add: ebind_def)

lemma of_exn_run [act_simps]: "of_exn x s = (case x of Inl e \<Rightarrow> (Inl e, s) | Inr a \<Rightarrow> (Inr a, s))"
  by (simp add: of_exn_def act_simps split: sum.split)

subsection \<open>Casts\<close>

definition cast_map :: "expr \<Rightarrow> exn + emap" where
  "cast_map e = (case e of EMap m \<Rightarrow> Inr m | _ \<Rightarrow> Inl (Runtime_exn ''invalid castExp''))"

definition cast_list :: "expr \<Rightarrow> exn + expr list" where
  "cast_list e = (case e of EList l \<Rightarrow> Inr l | _ \<Rightarrow> Inl (Runtime_exn ''invalid castExp''))"

definition cast_int :: "expr \<Rightarrow> exn + int" where
  "cast_int e = (case e of EInt i \<Rightarrow> Inr i | _ \<Rightarrow> Inl (Runtime_exn ''invalid castExp''))"

definition cast_bool :: "expr \<Rightarrow> exn + bool" where
  "cast_bool e = (case e of EBool b \<Rightarrow> Inr b | _ \<Rightarrow> Inl (Runtime_exn ''invalid castExp''))"

definition cast_str :: "expr \<Rightarrow> exn + string" where
  "cast_str e = (case e of EStr s \<Rightarrow> Inr s | _ \<Rightarrow> Inl (Runtime_exn ''invalid castExp''))"

text \<open>\<open>boost::get\<close>, which throws \<open>bad_get\<close>.\<close>

definition get_int :: "expr \<Rightarrow> exn + int" where
  "get_int e = (case e of EInt i \<Rightarrow> Inr i | _ \<Rightarrow> Inl Bad_get_exn)"

definition get_bool :: "expr \<Rightarrow> exn + bool" where
  "get_bool e = (case e of EBool b \<Rightarrow> Inr b | _ \<Rightarrow> Inl Bad_get_exn)"

definition get_str :: "expr \<Rightarrow> exn + string" where
  "get_str e = (case e of EStr s \<Rightarrow> Inr s | _ \<Rightarrow> Inl Bad_get_exn)"

subsection \<open>Maps and paths into them\<close>

definition map_find :: "emap \<Rightarrow> string \<Rightarrow> expr option" where
  "map_find m k = map_of m k"

text \<open>\<open>map[k] = e\<close>, \<open>map.erase(k)\<close>, and \<open>map[k]\<close> read: an absent key gets a default expression, an
  empty map.\<close>

definition map_put :: "string \<Rightarrow> expr \<Rightarrow> emap \<Rightarrow> emap" where
  "map_put k e m = (if map_of m k \<noteq> None then map (\<lambda>p. if fst p = k then (k, e) else p) m else m @ [(k, e)])"

definition map_erase :: "string \<Rightarrow> emap \<Rightarrow> emap" where
  "map_erase k m = filter (\<lambda>p. fst p \<noteq> k) m"

definition map_index :: "string \<Rightarrow> emap \<Rightarrow> expr \<times> emap" where
  "map_index k m = (case map_of m k of Some e \<Rightarrow> (e, m) | None \<Rightarrow> (EMap [], m @ [(k, EMap [])]))"

definition cast_to_exp_map :: "expr \<Rightarrow> emap option" where
  "cast_to_exp_map e = (case e of EMap m \<Rightarrow> Some m | _ \<Rightarrow> None)"

fun ptr_loop :: "string list \<Rightarrow> emap \<Rightarrow> expr option" where
  "ptr_loop [] m = None"
| "ptr_loop (k # ks) m = (case map_find m k of
     None \<Rightarrow> None
   | Some e \<Rightarrow> if ks = [] then Some e
       else (case cast_to_exp_map e of None \<Rightarrow> None | Some m' \<Rightarrow> ptr_loop ks m'))"

definition get_ptr :: "string list \<Rightarrow> emap \<Rightarrow> exn + expr option" where
  "get_ptr ks m = (if ks = [] then Inl (Undefined Failed_assertion) else Inr (ptr_loop ks m))"

text \<open>Writing through the pointer that \<open>getPtr\<close> found.\<close>

fun write_ptr :: "string list \<Rightarrow> expr \<Rightarrow> emap \<Rightarrow> emap" where
  "write_ptr [] e m = m"
| "write_ptr (k # ks) e m =
     (if ks = [] then map_put k e m
      else (case map_find m k of Some (EMap m') \<Rightarrow> map_put k (EMap (write_ptr ks e m')) m | _ \<Rightarrow> m))"

definition store :: "string list \<Rightarrow> expr \<Rightarrow> emap \<Rightarrow> exn + emap" where
  "store ks e m = ebind (get_ptr ks m) (\<lambda>p. case p of
     None \<Rightarrow> Inl (Runtime_exn ''storing to invalid object name'')
   | Some _ \<Rightarrow> Inr (write_ptr ks e m))"

subsection \<open>Rules\<close>

datatype loop_type = UNTIL | WHILE

datatype timer_mode = EXACT | AT_MOST | TRACK

text \<open>The subclasses of \<open>Rule\<close> with their own fields. \<open>ForEach\<close> keeps the size its list had when the
  rule was built; the rules that a \<open>Switch\<close> or a \<open>When\<close> owns are named like all rules.\<close>

datatype rule =
    ForEach expr expr int
  | ParallelFor expr expr
  | Discard expr expr
  | Reverse expr
  | Extend expr expr
  | Shuffle expr
  | Loop loop_type
  | InParallel
  | Message_rule expr expr
  | Deal expr expr expr
  | Add expr expr
  | Switch expr expr "nat list" "(expr \<times> nat) list"
  | When "(expr \<times> nat) list"
  | Sort expr "expr option"
  | InputChoice expr expr expr expr "expr option"
  | InputText expr expr expr "expr option"
  | InputVote expr expr expr expr "expr option"
  | Timer_rule expr timer_mode "expr option"
  | GlobalMessage string
  | Scores expr expr

text \<open>The constructor of \<open>ForEach\<close> throws when the expression is not a list.\<close>

definition make_for_each :: "expr \<Rightarrow> expr \<Rightarrow> exn + rule" where
  "make_for_each elems elem = ebind (cast_list elems) (\<lambda>l. Inr (ForEach elems elem (size_to_int (length l))))"

record rule_node =
  rn_rule :: rule
  rn_parent :: "nat option"
  rn_next :: "nat option"
  rn_nested :: "nat option"

type_synonym rule_table = "nat \<Rightarrow> rule_node"

subsection \<open>The game state\<close>

record rule_state =
  rs_rule :: nat
  rs_parent :: "nat option"
  rs_next :: "nat option"
  rs_nested :: "nat option"
  rs_finished :: bool
  rs_needs_input :: bool
  rs_nested_in_progress :: bool
  rs_index :: int
  rs_faults :: "ub list"

text \<open>The constructor of \<open>RuleState\<close> takes the addresses \<open>&(*rule->next)\<close> and \<open>&(*rule->nested)\<close>: it
  dereferences an empty \<open>unique_ptr\<close> for every rule without a successor and for every rule without a nested
  one, which is undefined. As with the accesses to freed memory in a room, such a fault is recorded,
  in \<open>rs_faults\<close>, and the model goes on with what the program sees when it survives it, a null pointer,
  which is what \<open>updateState\<close> tests for.\<close>

definition address_of_pointee :: "nat option \<Rightarrow> nat option \<times> ub list" where
  "address_of_pointee p = (case p of None \<Rightarrow> (None, [Null_deref]) | Some i \<Rightarrow> (Some i, []))"

definition new_rule_state :: "rule_table \<Rightarrow> nat \<Rightarrow> rule_state" where
  "new_rule_state T i = (let (next, faults) = address_of_pointee (rn_next (T i));
       (nested, faults') = address_of_pointee (rn_nested (T i))
     in \<lparr>rs_rule = i, rs_parent = rn_parent (T i), rs_next = next,
     rs_nested = nested, rs_finished = False, rs_needs_input = False,
     rs_nested_in_progress = False, rs_index = 0, rs_faults = faults @ faults'\<rparr>)"

lemma new_rule_state_fields [simp]:
  "rs_rule (new_rule_state T i) = i" "rs_parent (new_rule_state T i) = rn_parent (T i)"
  "rs_next (new_rule_state T i) = rn_next (T i)" "rs_nested (new_rule_state T i) = rn_nested (T i)"
  "\<not> rs_finished (new_rule_state T i)" "\<not> rs_needs_input (new_rule_state T i)"
  "\<not> rs_nested_in_progress (new_rule_state T i)" "rs_index (new_rule_state T i) = 0"
  by (simp_all add: new_rule_state_def address_of_pointee_def split: option.split)

text \<open>Only a rule that has both a successor and a nested rule gets a state without a fault; so the last rule of
  every list, and every rule of a kind that nests nothing, has one.\<close>

lemma rule_state_faults:
  "rs_faults (new_rule_state T i) = [] \<longleftrightarrow> rn_next (T i) \<noteq> None \<and> rn_nested (T i) \<noteq> None"
  by (simp add: new_rule_state_def address_of_pointee_def split: option.split)

record game_message =
  gm_target :: emap
  gm_content :: string

datatype input_type = CHOICE | TEXT | VOTE

datatype location = In_context nat "string list" | In_variables "string list" | In_constants "string list"

record input_request =
  ir_type :: input_type
  ir_target :: emap
  ir_prompt :: string
  ir_choices :: "string list"
  ir_result :: location
  ir_timeout :: "int option"

record timer =
  t_started :: int
  t_duration :: int
  t_owner :: nat
  t_mode :: timer_mode

definition is_time_out :: "int \<Rightarrow> timer \<Rightarrow> bool" where
  "is_time_out now t \<longleftrightarrow> now - t_started t > t_duration t"

record game_state =
  gs_constants :: emap
  gs_variables :: emap
  gs_per_player :: emap
  gs_per_audience :: emap
  gs_context :: "emap list"
  gs_stack :: "rule_state list"
  gs_timers :: "timer list"
  gs_requests :: "input_request list"
  gs_messages :: "game_message list"

type_synonym 'a game_op = "(game_state, 'a) op"

definition enter_scope :: "game_state \<Rightarrow> game_state" where
  "enter_scope s = s\<lparr>gs_context := gs_context s @ [[]]\<rparr>"

definition exit_scope :: "unit game_op" where
  "exit_scope = sbind (sread gs_context) (\<lambda>c. if c = [] then undefined_behaviour Out_of_bounds
     else smodify (\<lambda>s. s\<lparr>gs_context := butlast c\<rparr>))"

definition enqueue_input_request :: "input_request \<Rightarrow> unit game_op" where
  "enqueue_input_request r = smodify (\<lambda>s. s\<lparr>gs_requests := gs_requests s @ [r]\<rparr>)"

definition enqueue_message :: "emap \<Rightarrow> string \<Rightarrow> unit game_op" where
  "enqueue_message u m = smodify (\<lambda>s. s\<lparr>gs_messages := gs_messages s @ [\<lparr>gm_target = u, gm_content = m\<rparr>]\<rparr>)"

definition enqueue_global_message :: "string \<Rightarrow> unit game_op" where
  "enqueue_global_message m = sfor [''players'', ''audience''] (\<lambda>ty.
     sbind (sread (\<lambda>s. map_index ty (gs_variables s))) (\<lambda>(e, vars).
     sseq (smodify (\<lambda>s. s\<lparr>gs_variables := vars\<rparr>))
       (sbind (of_exn (cast_list e)) (\<lambda>users. sfor users (\<lambda>x.
          sbind (of_exn (cast_map x)) (\<lambda>u.
            if map_find u ''name'' = None then undefined_behaviour Failed_assertion
            else enqueue_message u m))))))"

subsection \<open>Laws of maps and paths\<close>

lemma map_of_replace:
  "map_of (map (\<lambda>p. if fst p = k then (k, e) else p) m) k' =
     (if k' = k \<and> map_of m k \<noteq> None then Some e else map_of m k')"
proof (induction m)
  case (Cons p m)
  then show ?case by (cases p; cases "fst p = k") (auto split: if_splits)
qed simp

lemma map_put_find: "map_find (map_put k e m) k' = (if k' = k then Some e else map_find m k')"
  by (simp add: map_put_def map_find_def map_of_replace map_add_def split: option.split)

lemma map_put_keys: "distinct (map fst m) \<Longrightarrow> distinct (map fst (map_put k e m))"
proof -
  have "map fst (map (\<lambda>p. if fst p = k then (k, e) else p) m) = map fst m"
    by (induction m) (simp_all split: if_split)
  then show "distinct (map fst m) \<Longrightarrow> distinct (map fst (map_put k e m))"
    by (cases "map_of m k = None") (simp_all add: map_put_def map_of_eq_None_iff del: map_map)
qed

lemma map_erase_find: "map_find (map_erase k m) k' = (if k' = k then None else map_find m k')"
  by (induction m) (auto simp: map_erase_def map_find_def)

lemma ptr_loop_two: "ptr_loop (k # l # ks) m = (case map_find m k of Some (EMap m') \<Rightarrow> ptr_loop (l # ks) m' | _ \<Rightarrow> None)"
  by (auto simp: cast_to_exp_map_def split: option.split expr.split)

lemma write_ptr_two:
  "write_ptr (k # l # ks) e m = (case map_find m k of Some (EMap m') \<Rightarrow> map_put k (EMap (write_ptr (l # ks) e m')) m | _ \<Rightarrow> m)"
  by simp

lemmas ptr_rules = ptr_loop_two write_ptr_two

lemma write_then_read: "ptr_loop ks m \<noteq> None \<Longrightarrow> ptr_loop ks (write_ptr ks e m) = Some e"
proof (induction ks arbitrary: m)
  case (Cons k ks)
  show ?case
  proof (cases ks)
    case Nil
    then show ?thesis by (simp add: map_put_find)
  next
    case (Cons l ls)
    then obtain m' where "map_find m k = Some (EMap m')" and "ptr_loop ks m' \<noteq> None"
      using Cons.prems by (auto simp: ptr_loop_two simp del: ptr_loop.simps split: option.splits expr.splits)
    then show ?thesis
      using Cons Cons.IH [of m'] by (simp add: ptr_rules map_put_find del: ptr_loop.simps write_ptr.simps)
  qed
qed simp

text \<open>A path that leaves the written path before its end sees no change.\<close>

lemma write_elsewhere:
  "\<not> prefix ks js \<Longrightarrow> \<not> prefix js ks \<Longrightarrow> ptr_loop js (write_ptr ks e m) = ptr_loop js m"
proof (induction ks arbitrary: js m)
  case (Cons k ks)
  obtain j js' where js: "js = j # js'" using Cons.prems by (cases js) auto
  show ?case
  proof (cases "j = k")
    case False
    then have "map_find (write_ptr (k # ks) e m) j = map_find m j"
      by (auto simp: map_put_find split: option.split expr.split)
    then show ?thesis by (simp add: js del: write_ptr.simps)
  next
    case True
    then have diverge: "\<not> prefix ks js'" "\<not> prefix js' ks" using Cons.prems js by auto
    then obtain l ls i is' where split: "ks = l # ls" "js' = i # is'" by (cases ks; cases js') auto
    then show ?thesis
      using Cons.IH [OF diverge] True js
      by (auto simp: ptr_rules map_put_find simp del: ptr_loop.simps write_ptr.simps split: option.split expr.split)
  qed
qed simp

end
