(* ===== verification/Serializer.thy ===== *)
theory Serializer
  imports Game_Spec
begin

section \<open>Game and server configuration from JSON (module serializer)\<close>

text \<open>
  jsonSerializer.cpp turns JSON values into game specifications and the server configuration. The JSON
  library is outside: its values are of any type \<open>'j\<close>, and the functions of the library that the
  source uses are the fields of \<open>json_api\<close>. \<open>js_items\<close> is the iteration over \<open>items()\<close>, which gives
  the elements of an array the keys \<open>0\<close>, \<open>1\<close>, ... ; \<open>js_int\<close> and its like are \<open>get<T>()\<close>; \<open>js_index\<close> is
  \<open>operator[]\<close> on a constant. The depth of the recursion is bounded by a number: \<open>Out_of_fuel\<close> says that
  it was too small, and it is proved that every value that stands for an expression has a bound that
  is enough.
\<close>

datatype value_t =
    J_null
  | J_object
  | J_array
  | J_string
  | J_boolean
  | J_number_integer
  | J_number_unsigned
  | J_number_float
  | J_binary
  | J_discarded

record 'j json_api =
  js_type :: "'j \<Rightarrow> value_t"
  js_items :: "'j \<Rightarrow> (string \<times> 'j) list"
  js_string :: "'j \<Rightarrow> exn + string"
  js_int :: "'j \<Rightarrow> exn + int"
  js_bool :: "'j \<Rightarrow> exn + bool"
  js_array :: "'j \<Rightarrow> exn + 'j list"
  js_at :: "'j \<Rightarrow> string \<Rightarrow> exn + 'j"
  js_index :: "'j \<Rightarrow> string \<Rightarrow> exn + 'j"
  js_contains :: "'j \<Rightarrow> string \<Rightarrow> bool"
  js_size :: "'j \<Rightarrow> nat"
  js_flat_is_NULL :: "'j \<Rightarrow> string \<Rightarrow> bool"

subsection \<open>Expressions\<close>

fun parse_entries :: "('j \<Rightarrow> exn + expr) \<Rightarrow> (string \<times> 'j) list \<Rightarrow> emap \<Rightarrow> exn + emap" where
  "parse_entries f [] m = Inr m"
| "parse_entries f ((k, v) # r) m = ebind (f v) (\<lambda>e. parse_entries f r (map_put k e m))"

primrec parse_expression :: "nat \<Rightarrow> 'j json_api \<Rightarrow> 'j \<Rightarrow> exn + expr" where
  "parse_expression 0 A j = Inl Out_of_fuel"
| "parse_expression (Suc n) A j = (case js_type A j of
     J_string \<Rightarrow> ebind (js_string A j) (\<lambda>s. Inr (EStr s))
   | J_number_integer \<Rightarrow> ebind (js_int A j) (\<lambda>i. Inr (EInt i))
   | J_boolean \<Rightarrow> ebind (js_bool A j) (\<lambda>b. Inr (EBool b))
   | J_object \<Rightarrow> ebind (parse_entries (parse_expression n A) (js_items A j) []) (\<lambda>m. Inr (EMap m))
   | J_array \<Rightarrow> ebind (emapM (\<lambda>p. parse_expression n A (snd p)) (js_items A j)) (\<lambda>l. Inr (EList l))
   | _ \<Rightarrow> Inl (Undefined Failed_assertion))"

definition parse_environment :: "nat \<Rightarrow> 'j json_api \<Rightarrow> 'j \<Rightarrow> exn + emap" where
  "parse_environment n A j = parse_entries (parse_expression n A) (js_items A j) []"

subsection \<open>Game configurations\<close>

datatype data_kind = INTEGER | STRING | BOOLEAN | QUESTION_ANSWER | MULTIPLE_CHOICE

datatype setup_value = Custom_setup data_kind string | Setup_string string | Setup_int int | Setup_bool bool

definition strToKind :: "(string \<times> data_kind) list" where
  "strToKind = [(''integer'', INTEGER), (''string'', STRING), (''boolean'', BOOLEAN),
     (''question-answer'', QUESTION_ANSWER), (''multiple-choice'', MULTIPLE_CHOICE)]"

text \<open>The assertion fails when the name is found; otherwise the end iterator is dereferenced.\<close>

definition parse_data_kind :: "'j json_api \<Rightarrow> 'j \<Rightarrow> exn + data_kind" where
  "parse_data_kind A j = ebind (js_string A j) (\<lambda>str. case map_of strToKind str of
     Some k \<Rightarrow> Inl (Undefined Failed_assertion)
   | None \<Rightarrow> Inl (Undefined Out_of_bounds))"

definition parse_custom_setup :: "'j json_api \<Rightarrow> 'j \<Rightarrow> exn + setup_value" where
  "parse_custom_setup A j = ebind (js_at A j ''kind'') (\<lambda>k. ebind (parse_data_kind A k) (\<lambda>kind.
     ebind (js_at A j ''prompt'') (\<lambda>p. ebind (js_string A p) (\<lambda>prompt. Inr (Custom_setup kind prompt)))))"

definition parse_setup_value :: "'j json_api \<Rightarrow> 'j \<Rightarrow> exn + setup_value" where
  "parse_setup_value A j = (case js_type A j of
     J_string \<Rightarrow> ebind (js_string A j) (\<lambda>s. Inr (Setup_string s))
   | J_number_integer \<Rightarrow> ebind (js_int A j) (\<lambda>i. Inr (Setup_int i))
   | J_boolean \<Rightarrow> ebind (js_bool A j) (\<lambda>b. Inr (Setup_bool b))
   | J_object \<Rightarrow> parse_custom_setup A j
   | _ \<Rightarrow> Inl (Undefined Failed_assertion))"

fun parse_setup_entries :: "'j json_api \<Rightarrow> (string \<times> 'j) list \<Rightarrow> (string \<rightharpoonup> setup_value) \<Rightarrow> exn + (string \<rightharpoonup> setup_value)" where
  "parse_setup_entries A [] m = Inr m"
| "parse_setup_entries A ((k, v) # r) m = ebind (parse_setup_value A v) (\<lambda>x. parse_setup_entries A r (m(k \<mapsto> x)))"

definition parse_setup :: "'j json_api \<Rightarrow> 'j \<Rightarrow> exn + (string \<rightharpoonup> setup_value)" where
  "parse_setup A j = ebind (js_at A j ''setup'') (\<lambda>s. parse_setup_entries A (js_items A s) Map.empty)"

record game_configuration =
  gc_name :: string
  gc_min :: int
  gc_max :: int
  gc_allow_audience :: bool
  gc_setup :: "string \<rightharpoonup> setup_value"

definition parse_config :: "'j json_api \<Rightarrow> 'j \<Rightarrow> exn + game_configuration" where
  "parse_config A j =
     ebind (js_index A j ''name'') (\<lambda>n. ebind (js_string A n) (\<lambda>name.
     ebind (js_index A j ''player count'') (\<lambda>c. ebind (js_index A c ''min'') (\<lambda>lo. ebind (js_int A lo) (\<lambda>min.
     ebind (js_index A j ''player count'') (\<lambda>c. ebind (js_index A c ''max'') (\<lambda>hi. ebind (js_int A hi) (\<lambda>max.
     ebind (js_index A j ''audience'') (\<lambda>a. ebind (js_bool A a) (\<lambda>audience.
     ebind (parse_setup A j) (\<lambda>setup.
       Inr \<lparr>gc_name = name, gc_min = min, gc_max = max, gc_allow_audience = audience, gc_setup = setup\<rparr>)))))))))))"

definition parse_game_state :: "nat \<Rightarrow> 'j json_api \<Rightarrow> 'j \<Rightarrow> exn + game_state" where
  "parse_game_state n A j =
     ebind (js_index A j ''constants'') (\<lambda>c. ebind (parse_environment n A c) (\<lambda>constants.
     ebind (js_index A j ''variables'') (\<lambda>v. ebind (parse_environment n A v) (\<lambda>variables.
     ebind (js_index A j ''per-player'') (\<lambda>p. ebind (parse_environment n A p) (\<lambda>per_player.
     ebind (js_index A j ''per-audience'') (\<lambda>a. ebind (parse_environment n A a) (\<lambda>per_audience.
       Inr \<lparr>gs_constants = constants, gs_variables = variables, gs_per_player = per_player,
         gs_per_audience = per_audience, gs_context = [], gs_stack = [], gs_timers = [], gs_requests = [],
         gs_messages = []\<rparr>))))))))"

subsection \<open>Validation\<close>

definition FIELDS :: "(string \<times> value_t) list" where
  "FIELDS = [(''configuration'', J_object), (''constants'', J_array), (''per-audience'', J_array),
     (''per-player'', J_array), (''rules'', J_array), (''variables'', J_array)]"

definition FIELDS_configuration :: "(string \<times> value_t) list" where
  "FIELDS_configuration = [(''audience'', J_boolean), (''name'', J_string), (''player count'', J_object), (''setup'', J_array)]"

definition FIELDS_player_count :: "(string \<times> value_t) list" where
  "FIELDS_player_count = [(''max'', J_number_integer), (''min'', J_number_integer)]"

definition missing_field :: "'j json_api \<Rightarrow> (string \<times> value_t) list \<Rightarrow> 'j \<Rightarrow> bool" where
  "missing_field A required j \<longleftrightarrow> list_ex (\<lambda>p. \<not> js_contains A j (fst p)) required"

definition has_all_required_fields :: "'j json_api \<Rightarrow> 'j \<Rightarrow> exn + bool" where
  "has_all_required_fields A j =
     (if missing_field A FIELDS j then Inr False
      else ebind (js_at A j ''configuration'') (\<lambda>config.
        if missing_field A FIELDS_configuration config then Inr False
        else ebind (js_at A j ''configuration'') (\<lambda>c. ebind (js_at A c ''player count'') (\<lambda>player_count.
          Inr (\<not> missing_field A FIELDS_player_count player_count)))))"

text \<open>\<open>int == size_t\<close>: the literals are small, so the comparison is that of numbers.\<close>

definition has_no_extra_fields :: "'j json_api \<Rightarrow> 'j \<Rightarrow> exn + bool" where
  "has_no_extra_fields A j =
     ebind (js_at A j ''configuration'') (\<lambda>config.
     ebind (js_at A j ''configuration'') (\<lambda>c. ebind (js_at A c ''player count'') (\<lambda>player_count.
       Inr (length FIELDS = js_size A j \<and> length FIELDS_configuration = js_size A config \<and>
         length FIELDS_player_count = js_size A player_count))))"

text \<open>\<open>FIELDS.at(key)\<close> throws for a key that is not there.\<close>

fun valid_types :: "'j json_api \<Rightarrow> (string \<times> value_t) list \<Rightarrow> (string \<times> 'j) list \<Rightarrow> exn + bool" where
  "valid_types A required [] = Inr True"
| "valid_types A required ((k, v) # r) = (case map_of required k of
     None \<Rightarrow> Inl Out_of_range_exn
   | Some t \<Rightarrow> if js_type A v \<noteq> t then Inr False else valid_types A required r)"

definition eand :: "exn + bool \<Rightarrow> exn + bool \<Rightarrow> exn + bool" where
  "eand a b = ebind a (\<lambda>x. if x then b else Inr False)"

definition valid_field_values :: "'j json_api \<Rightarrow> 'j \<Rightarrow> exn + bool" where
  "valid_field_values A j =
     eand (valid_types A FIELDS (js_items A j))
    (eand (ebind (js_index A j ''configuration'') (\<lambda>c. valid_types A FIELDS_configuration (js_items A c)))
          (ebind (js_index A j ''configuration'') (\<lambda>c. ebind (js_index A c ''player count'') (\<lambda>p.
             valid_types A FIELDS_player_count (js_items A p)))))"

definition is_valid_game_spec :: "'j json_api \<Rightarrow> 'j \<Rightarrow> exn + bool" where
  "is_valid_game_spec A j = eand (has_all_required_fields A j) (eand (has_no_extra_fields A j) (valid_field_values A j))"

record game_specification =
  sp_configuration :: game_configuration
  sp_game_state :: game_state
  sp_rules :: "nat list"

text \<open>\<open>throw;\<close> without an exception that is being handled ends the program.\<close>

definition parse_game_specification :: "nat \<Rightarrow> 'j json_api \<Rightarrow> 'j \<Rightarrow> exn + game_specification" where
  "parse_game_specification n A j = ebind (is_valid_game_spec A j) (\<lambda>valid.
     if \<not> valid then Inl (Undefined Rethrow_without_exception)
     else ebind (js_index A j ''configuration'') (\<lambda>c. ebind (parse_config A c) (\<lambda>config.
       ebind (parse_game_state n A j) (\<lambda>s. Inr \<lparr>sp_configuration = config, sp_game_state = s, sp_rules = []\<rparr>))))"

subsection \<open>Rules\<close>

text \<open>The bodies of the twenty functions \<open>parseRule...\<close> are commented out: control falls off their ends,
  as it does in \<open>ruleSelector\<close> when no name fits.\<close>

definition parse_rule_body :: "'j \<Rightarrow> exn + nat" where
  "parse_rule_body j = Inl (Undefined Missing_return)"

definition rule_names :: "string list" where
  "rule_names = [''foreach'', ''parallelfor'', ''global-message'', ''input-choice'', ''discard'', ''reverse'', ''inparallel'',
     ''extend'', ''add'', ''shuffle'', ''message'', ''sort'', ''deal'', ''scores'', ''input-text'', ''input-vote'', ''loop'',
     ''timer'', ''when'', ''switch'']"

definition rule_selector :: "'j \<Rightarrow> string \<Rightarrow> exn + nat" where
  "rule_selector j name = (if name \<in> set rule_names then parse_rule_body j else Inl (Undefined Missing_return))"

definition parse_rule :: "'j json_api \<Rightarrow> 'j \<Rightarrow> exn + nat list" where
  "parse_rule A j = ebind (js_index A j ''rules'') (\<lambda>r. ebind (js_array A r) (\<lambda>rules.
     emapM (\<lambda>x. ebind (js_index A x ''rule'') (\<lambda>n. ebind (js_string A n) (\<lambda>name. rule_selector x name))) rules))"

subsection \<open>The server configuration\<close>

definition config_pointers :: "string list" where
  "config_pointers = [''/port'', ''/htmlpath'', ''/games'']"

text \<open>\<open>j.flatten()[pointer] == NULL\<close> is \<open>js_flat_is_NULL\<close>: what \<open>NULL\<close> is, is up to the implementation.\<close>

definition is_valid_server_config :: "'j json_api \<Rightarrow> 'j \<Rightarrow> bool" where
  "is_valid_server_config A j \<longleftrightarrow> list_all (\<lambda>p. \<not> js_flat_is_NULL A j p) config_pointers"

record server_configuration =
  sc_port :: int
  sc_html_path :: string
  sc_err :: bool

definition parse_server_config :: "'j json_api \<Rightarrow> 'j \<Rightarrow> exn + server_configuration" where
  "parse_server_config A j =
     (if \<not> is_valid_server_config A j then Inl (Undefined Rethrow_without_exception)
      else ebind (js_at A j ''port'') (\<lambda>p. ebind (js_int A p) (\<lambda>port.
        ebind (js_at A j ''html'') (\<lambda>h. ebind (js_string A h) (\<lambda>html.
          Inr \<lparr>sc_port = port, sc_html_path = html, sc_err = True\<rparr>)))))"

text \<open>\<open>load_config_from_json\<close>: \<open>file\<close> is the text of the file or the error of opening it, \<open>parse\<close> the
  JSON parser or the message of its \<open>parse_error\<close>. The error path is a value of the result.\<close>

definition load_config_from_json ::
  "'j json_api \<Rightarrow> (string \<Rightarrow> string + string) \<Rightarrow> (string \<Rightarrow> string + 'j) \<Rightarrow> string \<Rightarrow> exn + (string + server_configuration)"
where
  "load_config_from_json A file parse path = (case file path of
     Inl err \<Rightarrow> Inr (Inl err)
   | Inr text \<Rightarrow> (case parse text of
       Inl what \<Rightarrow> Inr (Inl (''Invalid JSON: '' @ what))
     | Inr j \<Rightarrow> ebind (parse_server_config A j) (\<lambda>c. Inr (Inr (c\<lparr>sc_err := False\<rparr>)))))"

end
