(* ===== verification/Serializer_Properties.thy ===== *)
theory Serializer_Properties
  imports Serializer
begin

section \<open>What the serializer accepts\<close>

text \<open>
  What the JSON library documents is collected in \<open>documented\<close>: an object's keys are distinct and are what
  \<open>contains\<close>, \<open>at\<close> and \<open>operator[]\<close> find, and \<open>size\<close> counts the entries. \<open>represents\<close> says which
  expression a JSON value stands for, without reference to the parser; \<open>conforms\<close> what a game
  specification has to look like, without reference to the validation.
\<close>

definition documented :: "'j json_api \<Rightarrow> bool" where
  "documented A \<longleftrightarrow> (\<forall>j. js_size A j = length (js_items A j) \<and>
     (js_type A j = J_object \<longrightarrow> distinct (map fst (js_items A j))) \<and>
     (\<forall>k. js_contains A j k \<longleftrightarrow> js_type A j = J_object \<and> k \<in> fst ` set (js_items A j)) \<and>
     (\<forall>k v. js_type A j = J_object \<longrightarrow> (k, v) \<in> set (js_items A j) \<longrightarrow> js_at A j k = Inr v \<and> js_index A j k = Inr v))"

subsection \<open>Expressions\<close>

inductive represents :: "'j json_api \<Rightarrow> 'j \<Rightarrow> expr \<Rightarrow> bool" for A where
  string: "js_type A j = J_string \<Longrightarrow> js_string A j = Inr s \<Longrightarrow> represents A j (EStr s)"
| int: "js_type A j = J_number_integer \<Longrightarrow> js_int A j = Inr i \<Longrightarrow> represents A j (EInt i)"
| bool: "js_type A j = J_boolean \<Longrightarrow> js_bool A j = Inr b \<Longrightarrow> represents A j (EBool b)"
| object: "js_type A j = J_object \<Longrightarrow> list_all2 (\<lambda>p q. fst p = fst q \<and> represents A (snd p) (snd q)) (js_items A j) m \<Longrightarrow>
    represents A j (EMap m)"
| array: "js_type A j = J_array \<Longrightarrow> list_all2 (\<lambda>p e. represents A (snd p) e) (js_items A j) l \<Longrightarrow> represents A j (EList l)"

lemma list_all2_eventually:
  assumes "list_all2 (\<lambda>x y. \<exists>n :: nat. \<forall>m \<ge> n. P m x y) xs ys"
  shows "\<exists>n :: nat. \<forall>m \<ge> n. list_all2 (P m) xs ys"
  using assms
proof (induction rule: list_all2_induct)
  case (Cons x xs y ys)
  from Cons(1) obtain a where "\<forall>m \<ge> a. P m x y" ..
  moreover from Cons(3) obtain b where "\<forall>m \<ge> b. list_all2 (P m) xs ys" ..
  ultimately have "\<forall>m \<ge> max a b. list_all2 (P m) (x # xs) (y # ys)" by (auto simp: max.bounded_iff)
  then show ?case ..
qed simp

lemma emapM_list_all2: "emapM f xs = Inr ys \<longleftrightarrow> list_all2 (\<lambda>x y. f x = Inr y) xs ys"
proof (induction xs arbitrary: ys)
  case (Cons x xs)
  then show ?case by (cases ys) (auto simp: ebind_def Cons.IH [symmetric] split: sum.splits)
qed auto

lemma map_put_new: "k \<notin> fst ` set m \<Longrightarrow> map_put k e m = m @ [(k, e)]"
  by (simp add: map_put_def map_of_eq_None_iff)

lemma parse_entries_list_all2:
  assumes "distinct (map fst m @ map fst ps)"
  shows "parse_entries f ps m = Inr r \<longleftrightarrow> (\<exists>qs. r = m @ qs \<and> list_all2 (\<lambda>p q. fst p = fst q \<and> f (snd p) = Inr (snd q)) ps qs)"
  using assms
proof (induction ps arbitrary: m)
  case (Cons p ps)
  obtain k v where p: "p = (k, v)" by (cases p)
  have "k \<notin> fst ` set m" using Cons.prems p by auto
  then show ?case
    using Cons.IH [of "m @ [(k, e)]" for e] Cons.prems p
    by (cases "f v") (auto simp: map_put_new list_all2_Cons1)
qed auto

lemma parse_represents:
  assumes "documented A" and "parse_expression n A j = Inr e"
  shows "represents A j e"
  using assms(2)
proof (induction n arbitrary: j e)
  case (Suc n)
  note obj = parse_entries_list_all2 [of "[]" "js_items A j" "parse_expression n A"]
  have sub: "list_all2 (\<lambda>p q. fst p = fst q \<and> parse_expression n A (snd p) = Inr (snd q)) ps qs \<Longrightarrow>
      list_all2 (\<lambda>p q. fst p = fst q \<and> represents A (snd p) (snd q)) ps qs" for ps qs
    by (erule list_all2_mono) (auto intro: Suc.IH)
  have sub': "list_all2 (\<lambda>p e. parse_expression n A (snd p) = Inr e) ps l \<Longrightarrow>
      list_all2 (\<lambda>p e. represents A (snd p) e) ps l" for ps l
    by (erule list_all2_mono) (auto intro: Suc.IH)
  show ?case
  proof (cases "js_type A j")
    case J_object
    then have "distinct (map fst (js_items A j))" using assms(1) by (simp add: documented_def)
    then show ?thesis
      using J_object Suc.prems obj sub by (auto simp: ebind_def intro: represents.object split: sum.splits)
  next
    case J_array
    then show ?thesis
      using Suc.prems sub' by (auto simp: ebind_def emapM_list_all2 intro: represents.array split: sum.splits)
  qed (use Suc.prems in \<open>auto simp: ebind_def intro: represents.intros split: sum.splits\<close>)
qed simp

lemma represents_parse:
  assumes "documented A" and "represents A j e"
  shows "\<exists>n. \<forall>m \<ge> n. parse_expression m A j = Inr e"
  using assms(2)
proof (induction rule: represents.induct)
  case (object j m)
  then obtain n where n: "\<forall>k \<ge> n. list_all2 (\<lambda>p q. fst p = fst q \<and> parse_expression k A (snd p) = Inr (snd q)) (js_items A j) m"
    using list_all2_eventually [where P = "\<lambda>k p q. fst p = fst q \<and> parse_expression k A (snd p) = Inr (snd q)"]
    by (smt (verit) list_all2_mono)
  have "parse_expression k A j = Inr (EMap m)" if "Suc n \<le> k" for k
  proof -
    obtain l where "k = Suc l" "n \<le> l" using \<open>Suc n \<le> k\<close> by (cases k) auto
    moreover have "distinct (map fst (js_items A j))" using assms(1) object.hyps by (simp add: documented_def)
    ultimately show ?thesis
      using n object.hyps parse_entries_list_all2 [of "[]" "js_items A j" "parse_expression l A" m] by simp
  qed
  then show ?case by blast
next
  case (array j l)
  then obtain n where n: "\<forall>k \<ge> n. list_all2 (\<lambda>p e. parse_expression k A (snd p) = Inr e) (js_items A j) l"
    using list_all2_eventually [where P = "\<lambda>k p e. parse_expression k A (snd p) = Inr e"]
    by (smt (verit) list_all2_mono)
  have "parse_expression k A j = Inr (EList l)" if "Suc n \<le> k" for k
  proof -
    obtain k' where "k = Suc k'" "n \<le> k'" using \<open>Suc n \<le> k\<close> by (cases k) auto
    then have "emapM (\<lambda>p. parse_expression k' A (snd p)) (js_items A j) = Inr l" using n by (simp add: emapM_list_all2)
    then show ?thesis using \<open>k = Suc k'\<close> array.hyps by simp
  qed
  then show ?case by blast
qed (rule exI [of _ "Suc 0"], auto simp: Suc_le_eq gr0_conv_Suc)+

text \<open>C18. The parser of expressions computes exactly what JSON values stand for: it returns an expression
  (for some bound, and then for every larger one) if and only if the value represents that
  expression.\<close>

theorem parse_expression_correct:
  assumes "documented A"
  shows "represents A j e \<longleftrightarrow> (\<exists>n. \<forall>m \<ge> n. parse_expression m A j = Inr e)"
  using parse_represents [OF assms] represents_parse [OF assms] by blast

text \<open>A concrete library: JSON values without floating point numbers and binary data.\<close>

datatype json_value =
    Json_null
  | Json_string string
  | Json_bool bool
  | Json_integer int
  | Json_unsigned nat
  | Json_array "(string \<times> json_value) list"
  | Json_object "(string \<times> json_value) list"

fun json_type :: "json_value \<Rightarrow> value_t" where
  "json_type Json_null = J_null"
| "json_type (Json_string _) = J_string"
| "json_type (Json_bool _) = J_boolean"
| "json_type (Json_integer _) = J_number_integer"
| "json_type (Json_unsigned _) = J_number_unsigned"
| "json_type (Json_array _) = J_array"
| "json_type (Json_object _) = J_object"

fun json_items :: "json_value \<Rightarrow> (string \<times> json_value) list" where
  "json_items (Json_array l) = l"
| "json_items (Json_object m) = (if distinct (map fst m) then m else [])"
| "json_items _ = []"

definition json_find :: "json_value \<Rightarrow> string \<Rightarrow> exn + json_value" where
  "json_find j k = (case j of
     Json_object _ \<Rightarrow> (case map_of (json_items j) k of None \<Rightarrow> Inl Json_exn | Some v \<Rightarrow> Inr v)
   | _ \<Rightarrow> Inl Json_exn)"

definition demo_json :: "json_value json_api" where
  "demo_json = \<lparr>js_type = json_type, js_items = json_items,
     js_string = (\<lambda>j. case j of Json_string s \<Rightarrow> Inr s | _ \<Rightarrow> Inl Json_exn),
     js_int = (\<lambda>j. case j of Json_integer i \<Rightarrow> Inr i | Json_unsigned n \<Rightarrow> Inr (int n) | _ \<Rightarrow> Inl Json_exn),
     js_bool = (\<lambda>j. case j of Json_bool b \<Rightarrow> Inr b | _ \<Rightarrow> Inl Json_exn),
     js_array = (\<lambda>j. case j of Json_array l \<Rightarrow> Inr (map snd l) | _ \<Rightarrow> Inl Json_exn),
     js_at = json_find, js_index = json_find,
     js_contains = (\<lambda>j k. case j of Json_object _ \<Rightarrow> k \<in> fst ` set (json_items j) | _ \<Rightarrow> False),
     js_size = (\<lambda>j. length (json_items j)), js_flat_is_NULL = (\<lambda>_ _. False)\<rparr>"

lemma demo_json_documented: "documented demo_json"
  unfolding documented_def
proof (intro allI conjI impI)
  fix j k v
  show "js_size demo_json j = length (js_items demo_json j)" by (simp add: demo_json_def)
  show "js_contains demo_json j k \<longleftrightarrow> js_type demo_json j = J_object \<and> k \<in> fst ` set (js_items demo_json j)"
    by (cases j) (simp_all add: demo_json_def)
  assume "js_type demo_json j = J_object"
  then obtain m where j: "j = Json_object m" by (cases j) (simp_all add: demo_json_def)
  then show "distinct (map fst (js_items demo_json j))" by (simp add: demo_json_def)
  assume "(k, v) \<in> set (js_items demo_json j)"
  then have "map_of (json_items j) k = Some v"
    using j by (auto simp: demo_json_def intro: map_of_is_SomeI split: if_splits)
  then show "js_at demo_json j k = Inr v" "js_index demo_json j k = Inr v"
    unfolding j by (simp_all add: demo_json_def json_find_def del: json_items.simps)
qed

theorem parse_expression_correct_witness:
  "represents demo_json (Json_array [(''0'', Json_bool True), (''1'', Json_string ''a'')]) (EList [EBool True, EStr ''a''])"
proof -
  have "parse_expression m demo_json (Json_array [(''0'', Json_bool True), (''1'', Json_string ''a'')]) =
      Inr (EList [EBool True, EStr ''a''])" if two: "2 \<le> m" for m
  proof -
    obtain k where "m = Suc (Suc k)" using two le_Suc_ex [of 2 m] by auto
    then show ?thesis by (simp add: demo_json_def)
  qed
  then show ?thesis using parse_expression_correct [OF demo_json_documented] by blast
qed

subsection \<open>Validation\<close>

text \<open>The entries of an object: their keys and types.\<close>

definition signature_of :: "'j json_api \<Rightarrow> 'j \<Rightarrow> (string \<times> value_t) set" where
  "signature_of A j = (\<lambda>p. (fst p, js_type A (snd p))) ` set (js_items A j)"

definition conforms :: "'j json_api \<Rightarrow> 'j \<Rightarrow> bool" where
  "conforms A j \<longleftrightarrow> js_type A j = J_object \<and> signature_of A j = set FIELDS \<and>
     (\<forall>c. (''configuration'', c) \<in> set (js_items A j) \<longrightarrow> signature_of A c = set FIELDS_configuration \<and>
       (\<forall>p. (''player count'', p) \<in> set (js_items A c) \<longrightarrow> signature_of A p = set FIELDS_player_count))"

lemma distinct_required:
  "distinct (map fst FIELDS)" "distinct (map fst FIELDS_configuration)" "distinct (map fst FIELDS_player_count)"
  by (simp_all add: FIELDS_def FIELDS_configuration_def FIELDS_player_count_def)

lemma not_missing:
  assumes "documented A" and "required \<noteq> []"
  shows "\<not> missing_field A required j \<longleftrightarrow> js_type A j = J_object \<and> fst ` set required \<subseteq> fst ` set (js_items A j)"
  using assms by (cases required) (auto simp: missing_field_def documented_def list_ex_iff)

lemma same_keys:
  assumes "distinct (map fst required)" and "distinct (map fst m)" and "fst ` set required \<subseteq> fst ` set m"
    and "length required = length m"
  shows "fst ` set m = fst ` set required"
proof -
  have "card (fst ` set m) = card (fst ` set required)"
    using assms(1,2,4) distinct_card [of "map fst m"] distinct_card [of "map fst required"] by simp
  then show ?thesis using assms(3) card_subset_eq [of "fst ` set m" "fst ` set required"] by simp
qed

lemma valid_types_run:
  "fst ` set ps \<subseteq> fst ` set required \<Longrightarrow>
    valid_types A required ps = Inr (\<forall>p \<in> set ps. map_of required (fst p) = Some (js_type A (snd p)))"
proof (induction ps)
  case (Cons p ps)
  obtain k v where p: "p = (k, v)" by (cases p)
  then have "k \<in> fst ` set required" using Cons.prems by simp
  then obtain t where "map_of required k = Some t" by (metis map_of_eq_None_iff not_None_eq)
  then show ?case using Cons p by simp
qed simp

lemma level_ok:
  assumes "documented A" and "distinct (map fst required)" and "required \<noteq> []"
  shows "js_type A j = J_object \<and> signature_of A j = set required \<longleftrightarrow>
    \<not> missing_field A required j \<and> length required = js_size A j \<and> valid_types A required (js_items A j) = Inr True"
    (is "?sig \<longleftrightarrow> ?checks")
proof
  assume sig: ?sig
  then have obj: "js_type A j = J_object" and s: "(\<lambda>p. (fst p, js_type A (snd p))) ` set (js_items A j) = set required"
    by (simp_all add: signature_of_def)
  have keys: "fst ` set (js_items A j) = fst ` set required" using s [symmetric] by (simp add: image_image)
  moreover have d: "distinct (map fst (js_items A j))" using assms(1) obj by (simp add: documented_def)
  ultimately have "length required = length (js_items A j)"
    using assms(2) distinct_card [of "map fst (js_items A j)"] distinct_card [of "map fst required"] by simp
  moreover have "map_of required (fst p) = Some (js_type A (snd p))" if "p \<in> set (js_items A j)" for p
    using s that assms(2) by (intro map_of_is_SomeI) auto
  ultimately show ?checks
    using keys obj not_missing [OF assms(1,3), of j] valid_types_run [of "js_items A j" required A] assms(1)
    by (simp add: documented_def)
next
  assume checks: ?checks
  then have obj: "js_type A j = J_object" and sub: "fst ` set required \<subseteq> fst ` set (js_items A j)"
    using not_missing [OF assms(1,3), of j] by simp_all
  then have keys: "fst ` set (js_items A j) = fst ` set required"
    using same_keys [OF assms(2) _ sub] checks assms(1) by (simp add: documented_def)
  then have types: "\<forall>p \<in> set (js_items A j). map_of required (fst p) = Some (js_type A (snd p))"
    using valid_types_run [of "js_items A j" required A] checks by simp
  have "signature_of A j = set required"
  proof (intro equalityI subsetI)
    fix q assume "q \<in> signature_of A j"
    then show "q \<in> set required" using types map_of_SomeD by (fastforce simp: signature_of_def)
  next
    fix q assume q: "q \<in> set required"
    then obtain p where p: "p \<in> set (js_items A j)" "fst p = fst q" using keys by (metis imageE image_eqI)
    then have "map_of required (fst q) = Some (js_type A (snd p))" using types by auto
    moreover have "map_of required (fst q) = Some (snd q)" using q assms(2) by (intro map_of_is_SomeI) auto
    ultimately have "q = (fst p, js_type A (snd p))" using p(2) by (simp add: prod_eq_iff)
    then show "q \<in> signature_of A j" using p(1) by (auto simp: signature_of_def)
  qed
  then show ?sig using obj by simp
qed


lemma valid_types_total:
  assumes "documented A" and "distinct (map fst required)" and "required \<noteq> []"
    and "\<not> missing_field A required j" and "length required = js_size A j"
  shows "\<exists>b. valid_types A required (js_items A j) = Inr b"
proof -
  have obj: "js_type A j = J_object" and sub: "fst ` set required \<subseteq> fst ` set (js_items A j)"
    using not_missing [OF assms(1,3), of j] assms(4) by simp_all
  then have "fst ` set (js_items A j) = fst ` set required"
    using same_keys [OF assms(2) _ sub] assms(1,5) by (simp add: documented_def)
  then show ?thesis using valid_types_run [of "js_items A j" required A] by blast
qed

text \<open>An entry that is there is found by every function.\<close>

lemma entry_found:
  assumes "documented A" and "required \<noteq> []" and "\<not> missing_field A required j" and "k \<in> fst ` set required"
  obtains v where "js_at A j k = Inr v" and "js_index A j k = Inr v" and "\<And>w. (k, w) \<in> set (js_items A j) \<longleftrightarrow> w = v"
proof -
  have obj: "js_type A j = J_object" and "k \<in> fst ` set (js_items A j)"
    using not_missing [OF assms(1,2), of j] assms(3,4) by auto
  then obtain v where v: "(k, v) \<in> set (js_items A j)" by force
  moreover have "distinct (map fst (js_items A j))" using assms(1) obj by (simp add: documented_def)
  ultimately have "(k, w) \<in> set (js_items A j) \<longleftrightarrow> w = v" for w using eq_key_imp_eq_value by fastforce
  moreover have "js_at A j k = Inr v \<and> js_index A j k = Inr v" using assms(1) obj v unfolding documented_def by blast
  ultimately show thesis using that by blast
qed

definition level :: "'j json_api \<Rightarrow> (string \<times> value_t) list \<Rightarrow> 'j \<Rightarrow> bool" where
  "level A required j \<longleftrightarrow> \<not> missing_field A required j \<and> length required = js_size A j \<and>
     valid_types A required (js_items A j) = Inr True"

lemma level_signature:
  assumes "documented A"
  shows "level A FIELDS j \<longleftrightarrow> js_type A j = J_object \<and> signature_of A j = set FIELDS"
    and "level A FIELDS_configuration j \<longleftrightarrow> js_type A j = J_object \<and> signature_of A j = set FIELDS_configuration"
    and "level A FIELDS_player_count j \<longleftrightarrow> js_type A j = J_object \<and> signature_of A j = set FIELDS_player_count"
  using level_ok [OF assms distinct_required(1)] level_ok [OF assms distinct_required(2)]
    level_ok [OF assms distinct_required(3)]
  by (simp_all add: level_def FIELDS_def FIELDS_configuration_def FIELDS_player_count_def)

lemma signature_type:
  assumes "signature_of A j = set required" and "distinct (map fst required)" and "(k, v) \<in> set (js_items A j)"
  shows "map_of required k = Some (js_type A v)"
proof -
  have "(k, js_type A v) \<in> signature_of A j" using assms(3) by (force simp: signature_of_def)
  then show ?thesis using assms(1,2) by simp
qed

lemma conforms_levels:
  assumes "documented A"
  shows "conforms A j \<longleftrightarrow> level A FIELDS j \<and> (\<forall>c. (''configuration'', c) \<in> set (js_items A j) \<longrightarrow>
    level A FIELDS_configuration c \<and> (\<forall>p. (''player count'', p) \<in> set (js_items A c) \<longrightarrow> level A FIELDS_player_count p))"
proof -
  have "js_type A c = J_object" if "signature_of A j = set FIELDS" "(''configuration'', c) \<in> set (js_items A j)" for c
    using signature_type [OF that(1) distinct_required(1) that(2)] by (simp add: FIELDS_def)
  moreover have "js_type A p = J_object"
    if "signature_of A c = set FIELDS_configuration" "(''player count'', p) \<in> set (js_items A c)" for c p
    using signature_type [OF that(1) distinct_required(2) that(2)] by (simp add: FIELDS_configuration_def)
  ultimately show ?thesis unfolding conforms_def level_signature [OF assms] by blast
qed

lemma validation_decides:
  assumes "documented A"
  shows "is_valid_game_spec A j = Inr (conforms A j)"
proof (cases "missing_field A FIELDS j")
  case True
  then show ?thesis
    by (simp add: is_valid_game_spec_def has_all_required_fields_def eand_def conforms_levels [OF assms] level_def)
next
  case top: False
  have ne: "FIELDS \<noteq> []" "FIELDS_configuration \<noteq> []" "FIELDS_player_count \<noteq> []"
    by (simp_all add: FIELDS_def FIELDS_configuration_def FIELDS_player_count_def)
  obtain c where c: "js_at A j ''configuration'' = Inr c" "js_index A j ''configuration'' = Inr c"
    "\<And>w. (''configuration'', w) \<in> set (js_items A j) \<longleftrightarrow> w = c"
    using entry_found [OF assms ne(1) top, of "''configuration''"] by (auto simp: FIELDS_def)
  show ?thesis
  proof (cases "missing_field A FIELDS_configuration c")
    case True
    then show ?thesis
      using top c by (simp add: is_valid_game_spec_def has_all_required_fields_def eand_def conforms_levels [OF assms] level_def)
  next
    case config: False
    obtain p where p: "js_at A c ''player count'' = Inr p" "js_index A c ''player count'' = Inr p"
      "\<And>w. (''player count'', w) \<in> set (js_items A c) \<longleftrightarrow> w = p"
      using entry_found [OF assms ne(2) config, of "''player count''"] by (auto simp: FIELDS_configuration_def)
    have conf: "conforms A j \<longleftrightarrow> level A FIELDS j \<and> level A FIELDS_configuration c \<and> level A FIELDS_player_count p"
      using c(3) p(3) by (simp add: conforms_levels [OF assms])
    note total = valid_types_total [OF assms distinct_required(1) ne(1) top]
      valid_types_total [OF assms distinct_required(2) ne(2) config]
      valid_types_total [OF assms distinct_required(3) ne(3), of p]
    show ?thesis
      using total top config c(1,2) p(1,2)
      by (auto simp: is_valid_game_spec_def has_all_required_fields_def has_no_extra_fields_def valid_field_values_def
        eand_def conf level_def)
  qed
qed

text \<open>C19. Validation never throws, and accepts exactly the specifications that conform: the top level, the
  configuration and the player count have the listed entries, each with the listed type, and no
  others.\<close>

theorem validation_decides_conformance:
  assumes "documented A"
  shows "is_valid_game_spec A j = Inr (conforms A j)"
  using assms by (rule validation_decides)

definition demo_spec :: "json_value \<Rightarrow> json_value" where
  "demo_spec least = Json_object [
     (''configuration'', Json_object [(''audience'', Json_bool False), (''name'', Json_string ''RPS''),
        (''player count'', Json_object [(''max'', Json_integer 4), (''min'', least)]), (''setup'', Json_array [])]),
     (''constants'', Json_array []), (''per-audience'', Json_array []), (''per-player'', Json_array []),
     (''rules'', Json_array []), (''variables'', Json_array [])]"

theorem validation_decides_conformance_witness:
  "is_valid_game_spec demo_json (demo_spec (Json_integer 2)) = Inr (conforms demo_json (demo_spec (Json_integer 2))) \<and>
   is_valid_game_spec demo_json (demo_spec (Json_integer 2)) = Inr True"
proof
  show "is_valid_game_spec demo_json (demo_spec (Json_integer 2)) = Inr (conforms demo_json (demo_spec (Json_integer 2)))"
    by (rule validation_decides_conformance [OF demo_json_documented])
  show "is_valid_game_spec demo_json (demo_spec (Json_integer 2)) = Inr True" by code_simp
qed

lemma map_put_key_set: "fst ` set (map_put k e m) = insert k (fst ` set m)"
proof -
  have "map fst (map (\<lambda>p. if fst p = k then (k, e) else p) m) = map fst m" by (induction m) auto
  then have same: "fst ` set (map (\<lambda>p. if fst p = k then (k, e) else p) m) = fst ` set m" by (metis set_map)
  show ?thesis
  proof (cases "map_of m k")
    case None
    then show ?thesis by (simp add: map_put_def)
  next
    case (Some x)
    then have "k \<in> fst ` set m" by (metis map_of_eq_None_iff option.distinct(1))
    then show ?thesis using Some same by (simp only: map_put_def if_True option.distinct not_False_eq_True insert_absorb)
  qed
qed

lemma parse_entries_keys: "parse_entries f ps m = Inr r \<Longrightarrow> fst ` set r = fst ` set m \<union> fst ` set ps"
proof (induction ps arbitrary: m)
  case (Cons p ps)
  obtain k v where p: "p = (k, v)" by (cases p)
  then obtain e where "parse_entries f ps (map_put k e m) = Inr r"
    using Cons.prems by (auto simp: ebind_def split: sum.splits)
  then show ?case using Cons.IH [of "map_put k e m"] p by (simp add: map_put_key_set)
qed simp

text \<open>A specification whose smallest or largest number of players has any type but the signed integer
  type ends the program, and the library documents that its parser gives a number without a sign the
  unsigned type. A specification that is accepted has variables whose keys are those of an array, so
  never the names that rules use.\<close>

theorem handwritten_games_refused:
  assumes "documented A" and "(''configuration'', c) \<in> set (js_items A j)" and "(''player count'', p) \<in> set (js_items A c)"
    and "k = ''min'' \<or> k = ''max''" and "(k, v) \<in> set (js_items A p)"
  shows "(js_type A v \<noteq> J_number_integer \<longrightarrow>
      parse_game_specification n A j = Inl (Undefined Rethrow_without_exception)) \<and>
    (\<forall>spec x. parse_game_specification n A j = Inr spec \<longrightarrow> (''variables'', x) \<in> set (js_items A j) \<longrightarrow>
      js_type A x = J_array \<and> fst ` set (gs_variables (sp_game_state spec)) = fst ` set (js_items A x))"
proof (intro conjI allI impI)
  assume v: "js_type A v \<noteq> J_number_integer"
  have "\<not> conforms A j"
  proof
    assume "conforms A j"
    then have "signature_of A p = set FIELDS_player_count" using assms(2,3) by (auto simp: conforms_def)
    from signature_type [OF this distinct_required(3) assms(5)] show False
      using assms(4) v by (auto simp: FIELDS_player_count_def)
  qed
  then show "parse_game_specification n A j = Inl (Undefined Rethrow_without_exception)"
    by (simp add: parse_game_specification_def validation_decides assms(1))
next
  fix spec x
  assume run: "parse_game_specification n A j = Inr spec" and x: "(''variables'', x) \<in> set (js_items A j)"
  then have ok: "conforms A j" by (simp add: parse_game_specification_def validation_decides assms(1) split: if_splits)
  then have top: "\<not> missing_field A FIELDS j" using conforms_levels [OF assms(1)] by (simp add: level_def)
  have "FIELDS \<noteq> []" and "''variables'' \<in> fst ` set FIELDS" by (simp_all add: FIELDS_def)
  then have "js_index A j ''variables'' = Inr x" using entry_found [OF assms(1) _ top] x by metis
  then have "parse_environment n A x = Inr (gs_variables (sp_game_state spec))"
    using run by (auto simp: parse_game_specification_def validation_decides assms(1) ok parse_game_state_def ebind_def
      split: sum.splits)
  from parse_entries_keys [OF this [unfolded parse_environment_def]]
  show "fst ` set (gs_variables (sp_game_state spec)) = fst ` set (js_items A x)" by simp
  have "signature_of A j = set FIELDS" using ok by (simp add: conforms_def)
  from signature_type [OF this distinct_required(1) x] show "js_type A x = J_array" by (simp add: FIELDS_def)
qed

theorem handwritten_games_refused_witness:
  "parse_game_specification 5 demo_json (demo_spec (Json_unsigned 2)) = Inl (Undefined Rethrow_without_exception)"
proof -
  define p where "p = Json_object [(''max'', Json_integer 4), (''min'', Json_unsigned 2)]"
  define c where "c = Json_object [(''audience'', Json_bool False), (''name'', Json_string ''RPS''),
    (''player count'', p), (''setup'', Json_array [])]"
  have "(''configuration'', c) \<in> set (js_items demo_json (demo_spec (Json_unsigned 2)))"
    "(''player count'', p) \<in> set (js_items demo_json c)" "(''min'', Json_unsigned 2) \<in> set (js_items demo_json p)"
    "js_type demo_json (Json_unsigned 2) \<noteq> J_number_integer"
    by (simp_all add: demo_json_def demo_spec_def c_def p_def)
  then show ?thesis using handwritten_games_refused [OF demo_json_documented] by blast
qed

text \<open>Custom setup values are never parsed: the assertion on their kind is the wrong way round.\<close>

lemma custom_setup_never_parsed: "js_type A v = J_object \<Longrightarrow> (k, v) \<in> set ps \<Longrightarrow> parse_setup_entries A ps m \<noteq> Inr r"
proof (induction ps arbitrary: m)
  case (Cons p ps)
  then show ?case
    by (cases p) (auto simp: ebind_def parse_setup_value_def parse_custom_setup_def parse_data_kind_def
      split: sum.splits option.splits)
qed simp

end
