(* ===== verification/Daemon_Main.thy ===== *)
theory Daemon_Main
  imports Connections Server_Membership Serializer_Properties
begin

section \<open>The whole server (\<open>main\<close> of server\_daemon)\<close>

text \<open>
  \<open>main\<close> loads the configuration, starts the server, attaches its handlers, fills the command map and
  enters the loop, which nothing ever stops. A run is a sequence of what the network threads do (websockets that are accepted,
  sockets that close) and of ticks, on the state \<open>daemon\<close> of Connections: the client registry and the
  world of the server manager. A tick works off the ids of the closed clients, then the packets of the
  clients that are registered then, then the games. It is one step here: the handlers of the network
  threads run before or after it.
\<close>

subsection \<open>Ticks\<close>

text \<open>What a tick gets from outside: what the disconnections and the game updates need, and the packets
  that wait in the channel of each client (with what their processing needs).\<close>

record tick_input =
  ti_outside :: outside
  ti_packets :: "session_id \<Rightarrow> (outside \<times> string) list"

definition on_world :: "unit world_op \<Rightarrow> (daemon, unit) op" where
  "on_world m d = (case m (dm_world d) of (r, w) \<Rightarrow> (r, d\<lparr>dm_world := w\<rparr>))"

definition on_registry :: "(registry, unit) op \<Rightarrow> (daemon, unit) op" where
  "on_registry m d = (case m (dm_registry d) of (r, g) \<Rightarrow> (r, d\<lparr>dm_registry := g\<rparr>))"

definition process_disconnections :: "outside \<Rightarrow> (daemon, unit) op" where
  "process_disconnections E = sbind (sread (\<lambda>d. g_closed (dm_registry d))) (\<lambda>ids. sseq
     (on_world (sfor ids (process_disconnect (o_game E))))
     (on_registry (smodify (\<lambda>g. g\<lparr>g_closed := []\<rparr>))))"

definition process_packets ::
  "global_executor command_map \<Rightarrow> (session_id \<Rightarrow> (outside \<times> string) list) \<Rightarrow> (daemon, unit) op"
where
  "process_packets G packets = sbind (sread (\<lambda>d. g_clients (dm_registry d))) (\<lambda>us.
     on_world (sfor us (\<lambda>u. sfor (packets u) (\<lambda>(E, text). process_packet G E u text))))"

definition update_games :: "outside \<Rightarrow> (daemon, unit) op" where
  "update_games E = on_world (sbind (sread rooms) (\<lambda>rs. sfor rs (\<lambda>ref. at_room ref (update_game (o_game E)))))"

definition daemon_tick :: "global_executor command_map \<Rightarrow> tick_input \<Rightarrow> (daemon, unit) op" where
  "daemon_tick G i = sseqs [
     process_disconnections (ti_outside i),
     process_packets G (ti_packets i),
     update_games (ti_outside i)]"

subsection \<open>The program\<close>

datatype daemon_event = Setup setup_event | Socket_closed bool session_id | Tick tick_input

fun daemon_step :: "global_executor command_map \<Rightarrow> daemon_event \<Rightarrow> (daemon, unit) op" where
  "daemon_step G (Setup e) = setup_step e"
| "daemon_step G (Socket_closed alive u) = on_registry (socket_closed alive u)"
| "daemon_step G (Tick i) = daemon_tick G i"

definition daemon_run :: "global_executor command_map \<Rightarrow> daemon_event list \<Rightarrow> (daemon, unit) op" where
  "daemon_run G es = sfor es (daemon_step G)"

text \<open>The network threads run from the first step of the startup on; the arguments are the websockets that are
  accepted before each of the three steps.\<close>

definition startup ::
  "setup_event list \<Rightarrow> setup_event list \<Rightarrow> setup_event list \<Rightarrow> setup_event list"
where
  "startup early1 early2 early3 = early1 @ [Attach_server] @ early2 @ [Attach Greeter] @ early3 @ [Attach User_maker]"

text \<open>\<open>unsigned short port = config.port\<close>.\<close>

definition server_options :: "server_configuration \<Rightarrow> options" where
  "server_options c = \<lparr>op_threads = None, op_bind_address = None, op_bind_port = word_of_int (sc_port c)\<rparr>"

text \<open>The constructor of \<open>Server\<close> makes its listener, whose context starts the threads, and starts it.
  What it can throw: the \<open>system_error\<close> of \<open>make_address\<close>, a \<open>runtime_error\<close>, and the
  \<open>NetworkException\<close> of \<open>start\<close>.\<close>

definition new_server :: "(string \<Rightarrow> string + 'a) \<Rightarrow> binding \<Rightarrow> options \<Rightarrow> exn + 'a beast_context \<times> acceptor" where
  "new_server make_address b opts = (case new_beast_context make_address opts of
     Inl m \<Rightarrow> Inl (Runtime_exn m)
   | Inr context \<Rightarrow> (case acceptor_start b new_acceptor of
       (Some x, _) \<Rightarrow> Inl (Network_exn x)
     | (None, listener) \<Rightarrow> Inr (context, listener)))"

text \<open>\<open>while (_running)\<close>: the flag is tested before each tick; the network threads go on meanwhile. The
  value says whether the loop is still running after the events.\<close>

fun server_loop :: "global_executor command_map \<Rightarrow> loop \<Rightarrow> daemon_event list \<Rightarrow> (daemon, bool) op" where
  "server_loop G l [] = sreturn (lp_running l)"
| "server_loop G l (e # es) =
     (case e of Tick _ \<Rightarrow> if lp_running l then sseq (daemon_step G e) (server_loop G l es) else sreturn False
      | _ \<Rightarrow> sseq (daemon_step G e) (server_loop G l es))"

text \<open>\<open>main\<close>, to the end of the events: \<open>Some\<close> exit code when it has returned, \<open>None\<close> while it is in
  the loop. An exception leaves \<open>main\<close>, and the program is terminated without any destructor. On
  \<open>return 0\<close> the destructors run, of which that of the server manager does something to the world.\<close>

definition chat_server ::
  "'j json_api \<Rightarrow> (string \<Rightarrow> string + string) \<Rightarrow> (string \<Rightarrow> string + 'j) \<Rightarrow> string \<Rightarrow>
     (string \<Rightarrow> string + 'a) \<Rightarrow> binding \<Rightarrow> setup_event list \<Rightarrow> bool \<Rightarrow> bool \<Rightarrow> daemon_event list \<Rightarrow>
     (daemon, int option) op"
where
  "chat_server A file parse path make_address b start spurious1 spurious2 es =
     (case load_config_from_json A file parse path of
        Inl e \<Rightarrow> sthrow e
      | Inr (Inl err) \<Rightarrow> sreturn (Some 1)
      | Inr (Inr c) \<Rightarrow> (case new_server make_address b (server_options c) of
          Inl e \<Rightarrow> sthrow e
        | Inr _ \<Rightarrow> sseq (setup_run start) (case init_global_commands (\<lambda>_. None) of
            Inl e \<Rightarrow> sthrow e
          | Inr G \<Rightarrow> (case loop_start spurious1 spurious2 new_loop of
              (Inl e, _) \<Rightarrow> sthrow e
            | (Inr _, l) \<Rightarrow> sbind (server_loop G l es) (\<lambda>running.
                if running then sreturn None
                else sseq (on_world manager_destructor) (sreturn (Some 0)))))))"

subsection \<open>The daemon runs the server\<close>

text \<open>The events of \<open>server\_run\<close> that a run of the daemon stands for: the registry says which clients
  disconnect and whose packets are taken.\<close>

fun world_events :: "daemon_event list \<Rightarrow> registry \<Rightarrow> server_event list" where
  "world_events [] g = []"
| "world_events (Setup (Websocket E u) # es) g = Accept E u # world_events es (registry_accept u g)"
| "world_events (Setup _ # es) g = world_events es g"
| "world_events (Socket_closed _ u # es) g = world_events es (if find_client u g = None then g else disconnect u g)"
| "world_events (Tick i # es) g =
     tick_events (ti_outside i) (g_closed g) (map (\<lambda>u. (u, ti_packets i u)) (g_clients g)) @
     world_events es (g\<lparr>g_closed := []\<rparr>)"

text \<open>After the startup: sockets that are closed while something still holds their connection.\<close>

fun running :: "daemon_event \<Rightarrow> bool" where
  "running (Setup (Websocket E u)) \<longleftrightarrow> True"
| "running (Setup _) \<longleftrightarrow> False"
| "running (Socket_closed alive u) \<longleftrightarrow> alive"
| "running (Tick i) \<longleftrightarrow> True"

lemma sfor_append: "sfor (xs @ ys) f s = sseq (sfor xs f) (sfor ys f) s"
  by (induction xs arbitrary: s) (simp_all add: act_simps split: prod.split sum.split)

lemma sfor_concat: "sfor (concat xss) f s = sfor xss (\<lambda>xs. sfor xs f) s"
  by (induction xss arbitrary: s) (simp_all add: sfor_append act_simps split: prod.split sum.split)

lemma sfor_map: "sfor (map g xs) f = sfor xs (\<lambda>x. f (g x))"
  by (induction xs) simp_all

text \<open>One tick on the world.\<close>

lemma server_run_tick:
  "server_run G (tick_events E closed (map (\<lambda>u. (u, packets u)) us)) w =
     sseqs [sfor closed (process_disconnect (o_game E)),
       sfor us (\<lambda>u. sfor (packets u) (\<lambda>(E', text). process_packet G E' u text)),
       sbind (sread rooms) (\<lambda>rs. sfor rs (\<lambda>ref. at_room ref (update_game (o_game E))))] w"
proof -
  have one: "sfor (map (\<lambda>(E', text). Packet E' u text) ps) (server_step G) = sfor ps (\<lambda>(E', text). process_packet G E' u text)"
    for u ps unfolding sfor_map by (simp add: case_prod_unfold)
  have "sfor (concat (map (\<lambda>(u, ps). map (\<lambda>(E', text). Packet E' u text) ps) (map (\<lambda>u. (u, packets u)) us))) (server_step G) s =
      sfor us (\<lambda>u. sfor (packets u) (\<lambda>(E', text). process_packet G E' u text)) s" for s
    unfolding sfor_concat sfor_map by (simp add: one)
  then show ?thesis
    by (simp add: server_run_def tick_events_def sfor_append sfor_map sseq_run split: prod.split sum.split)
qed

lemma daemon_tick_run:
  "case daemon_tick G i d of (r, d') \<Rightarrow>
     server_run G (tick_events (ti_outside i) (g_closed (dm_registry d)) (map (\<lambda>u. (u, ti_packets i u)) (g_clients (dm_registry d))))
       (dm_world d) = (r, dm_world d') \<and> dm_attached d' = dm_attached d \<and> dm_handlers d' = dm_handlers d \<and>
     (r = Inr () \<longrightarrow> dm_registry d' = (dm_registry d)\<lparr>g_closed := []\<rparr>)"
  unfolding server_run_tick
  by (simp add: daemon_tick_def process_disconnections_def process_packets_def update_games_def on_world_def on_registry_def
      act_simps split: prod.split sum.split)

definition attached_all :: "daemon \<Rightarrow> bool" where
  "attached_all d \<longleftrightarrow> dm_attached d \<and> dm_handlers d = [Greeter, User_maker]"

text \<open>\<open>stands_for G es d m\<close>: a step of the daemon acts on the world as the events \<open>es\<close> do, keeps the
  handlers, and leaves the registry \<open>g\<close> if it returns.\<close>

definition stands_for ::
  "global_executor command_map \<Rightarrow> server_event list \<Rightarrow> daemon \<Rightarrow> registry \<Rightarrow> (daemon, unit) op \<Rightarrow> bool"
where
  "stands_for G es d g m \<longleftrightarrow> (case m d of (r, d') \<Rightarrow>
     server_run G es (dm_world d) = (r, dm_world d') \<and> attached_all d' = attached_all d \<and>
     (r = Inr () \<longrightarrow> dm_registry d' = g))"

lemma stands_tick:
  "stands_for G (tick_events (ti_outside i) (g_closed (dm_registry d)) (map (\<lambda>u. (u, ti_packets i u)) (g_clients (dm_registry d))))
     d ((dm_registry d)\<lparr>g_closed := []\<rparr>) (daemon_tick G i)"
  using daemon_tick_run [of G i d] by (simp add: stands_for_def attached_all_def split: prod.splits)

lemma stands_accept:
  "attached_all d \<Longrightarrow> stands_for G [Accept E u] d (registry_accept u (dm_registry d)) (accept_websocket E u)"
  by (simp add: stands_for_def attached_all_def accept_after_startup server_run_def act_simps split: prod.split sum.split)

lemma stands_close:
  "stands_for G [] d (if find_client u (dm_registry d) = None then dm_registry d else disconnect u (dm_registry d))
     (on_registry (socket_closed True u))"
  by (simp add: stands_for_def on_registry_def socket_closed_def server_run_def attached_all_def act_simps)

lemma server_run_append: "server_run G (xs @ ys) w = sseq (server_run G xs) (server_run G ys) w"
  by (simp add: server_run_def sfor_append)

lemma stands_then:
  assumes "stands_for G es d g m" and "attached_all d"
    and "\<And>d'. attached_all d' \<Longrightarrow> dm_registry d' = g \<Longrightarrow>
      (case n d' of (r, d2) \<Rightarrow> server_run G es' (dm_world d') = (r, dm_world d2))"
  shows "case sseq m n d of (r, d2) \<Rightarrow> server_run G (es @ es') (dm_world d) = (r, dm_world d2)"
proof -
  obtain r d1 where m: "m d = (r, d1)" by fastforce
  have s: "server_run G es (dm_world d) = (r, dm_world d1)" "attached_all d1" "r = Inr () \<longrightarrow> dm_registry d1 = g"
    using assms(1,2) by (simp_all add: stands_for_def m)
  show ?thesis
    using s assms(3) [of d1] by (cases r) (simp_all add: server_run_append act_simps m)
qed

lemma daemon_refines:
  "list_all running es \<Longrightarrow> attached_all d \<Longrightarrow>
     (case daemon_run G es d of (r, d') \<Rightarrow> server_run G (world_events es (dm_registry d)) (dm_world d) = (r, dm_world d'))"
proof (induction es arbitrary: d)
  case (Cons e es)
  have rest: "attached_all d' \<Longrightarrow> dm_registry d' = g \<Longrightarrow>
      (case sfor es (daemon_step G) d' of (r, d2) \<Rightarrow> server_run G (world_events es g) (dm_world d') = (r, dm_world d2))" for d' g
    using Cons.IH [of d'] Cons.prems(1) by (simp add: daemon_run_def)
  show ?case
  proof (cases e)
    case (Setup x)
    then obtain E u where "x = Websocket E u" using Cons.prems(1) by (cases x) simp_all
    then show ?thesis
      using stands_then [OF stands_accept [OF Cons.prems(2), of G E u] Cons.prems(2) rest] Setup
      by (simp add: daemon_run_def)
  next
    case (Socket_closed alive u)
    let ?g = "if find_client u (dm_registry d) = None then dm_registry d else disconnect u (dm_registry d)"
    have "alive" using Cons.prems(1) Socket_closed by simp
    then show ?thesis
      using stands_then [OF stands_close [of G d u] Cons.prems(2) rest] Socket_closed
      by (simp add: daemon_run_def)
  next
    case (Tick i)
    then show ?thesis
      using stands_then [OF stands_tick [of G i d] Cons.prems(2) rest] Tick
      by (simp add: daemon_run_def)
  qed
qed (simp add: daemon_run_def server_run_def act_simps)

subsection \<open>Registered clients have users\<close>

definition knows :: "session_id set \<Rightarrow> world \<Rightarrow> bool" where
  "knows U w \<longleftrightarrow> (\<forall>u v. w_known w u = Some v \<longrightarrow> v = u) \<and> (\<forall>u \<in> U. w_known w u = Some u)"

named_theorems known_intros \<open>operations that forget no user\<close>

lemma known_keep: "(\<And>s. w_known (snd (m s)) = w_known s) \<Longrightarrow> preserves (knows U) m"
  by (simp add: preserves_def knows_def)

lemma known_base [known_intros]:
  "preserves (knows U) (say u m)" "preserves (knows U) (say_error u m)" "preserves (knows U) (modify_user_object u f)"
  "preserves (knows U) (destroy_room ref)" "preserves (knows U) (at_room ref x)"
  "preserves (knows U) (smodify (\<lambda>w. w\<lparr>w_user_room := g w\<rparr>))"
  "preserves (knows U) (create_room draws t b sig)"
  by (rule known_keep, simp add: say_error_def say_def modify_user_object_def destroy_room_def at_room_run create_room_def
      act_simps split: sum.split)+

lemma known_add [known_intros]: "preserves (knows U) (manager_add_user u)"
  by (auto simp: preserves_def knows_def manager_add_user_def act_simps split: option.split)

lemmas known_rules = known_intros keeps_get_room keeps_with_user preserves_return preserves_throw preserves_read preserves_bind
  preserves_seq preserves_when preserves_for preserves_if preserves_option preserves_undefined preserves_throw_chat
  preserves_catch_chat preserves_catch_game preserves_catch_runtime preserves_seqs

lemma known_manager [known_intros]:
  "preserves (knows U) (rename_default p u)" "preserves (knows U) (give_nickname d u)"
  "preserves (knows U) (user_leave_room K u ref)" "preserves (knows U) (user_set_nickname u n)"
  unfolding rename_default_def give_nickname_def user_leave_room_def user_set_nickname_def
  by (auto intro!: known_rules split: sum.split)

lemma known_join [known_intros]: "preserves (knows U) (user_join_room p d now u ref)"
  unfolding user_join_room_def by (auto intro!: known_rules known_manager)

lemma known_require [known_intros]:
  "preserves (knows U) m \<Longrightarrow> preserves (knows U) (require_owner ref u c m)"
  "preserves (knows U) m \<Longrightarrow> preserves (knows U) (require_loaded ref u m)"
  unfolding require_owner_def require_loaded_def by (auto intro!: known_rules)

lemma known_exec_room [known_intros]: "preserves (knows U) (exec_room E x ref u args)"
proof -
  note rules = known_rules known_intros
  show ?thesis
  proof (cases x)
    case Exec_members
    then show ?thesis by (auto simp: cmd_members_def intro!: rules split: prod.split)
  next
    case Exec_room
    then show ?thesis by (auto simp: cmd_room_def intro!: rules)
  next
    case Exec_option
    then show ?thesis by (auto simp: cmd_option_def intro!: rules split: result.split)
  next
    case Exec_end
    then show ?thesis by (auto simp: cmd_end_def intro!: rules)
  qed (auto simp: cmd_nick_def cmd_kick_def cmd_options_def cmd_load_def cmd_start_def intro!: rules)
qed

lemma known_set_commands [known_intros]: "preserves (knows U) (set_room_commands ref)"
  unfolding set_room_commands_def by (auto intro!: known_rules split: sum.split)

lemma known_exec_global [known_intros]: "preserves (knows U) (exec_global E x u args)"
proof -
  note rules = known_rules known_intros
  show ?thesis
  proof (cases x)
    case Global_create
    then show ?thesis by (auto simp: cmd_create_def intro!: rules)
  next
    case Global_join
    then show ?thesis by (auto simp: cmd_join_def intro!: rules)
  next
    case Global_leave
    then show ?thesis by (auto simp: cmd_leave_def intro!: rules)
  next
    case Global_whoami
    then show ?thesis by (auto simp: cmd_whoami_def intro!: rules)
  qed (auto simp: stub_room_only_def intro!: rules)
qed

lemma known_packet [known_intros]: "preserves (knows U) (process_packet G E u text)"
proof -
  have "preserves (knows U) (room_process_command E ref u c)" for ref c
    unfolding room_process_command_def by (auto intro!: known_rules known_intros)
  then have "preserves (knows U) (process_command G E u c)" for c
    unfolding process_command_def by (auto intro!: known_rules known_intros)
  moreover have "preserves (knows U) (process_text E u text)"
    unfolding process_text_def by (auto intro!: known_rules)
  ultimately show ?thesis
    unfolding process_packet_def by (auto intro!: known_rules split: sum.split)
qed

lemma known_accept [known_intros]: "preserves (knows U) (accept_connection E u)"
  unfolding accept_connection_def greet_user_def make_user_def by (auto intro!: known_rules split: sum.split)

lemma known_step: "preserves (knows U) (server_step G e)"
proof (cases e)
  case (Disconnected E u)
  have "preserves (knows U) (process_disconnect (o_game E) u)"
    unfolding process_disconnect_def manager_remove_user_def
    by (auto intro!: known_rules known_intros split: prod.split)
  then show ?thesis using Disconnected by simp
qed (auto intro!: known_rules known_intros)

lemma known_run: "preserves (knows U) (server_run G es)"
  unfolding server_run_def by (rule preserves_for) (rule known_step)

lemma accepted_known:
  assumes "knows U w" and "accept_connection E u w = (Inr (), w')"
  shows "knows (insert u U) w'"
proof -
  have "knows U w'" by (rule preservesD' [OF known_accept assms])
  moreover have "w_known w' u \<noteq> None"
    using assms(2)
    by (auto simp: accept_connection_def manager_add_user_def act_simps split: prod.splits sum.splits option.splits)
  ultimately show ?thesis by (auto simp: knows_def)
qed

definition users_known :: "daemon \<Rightarrow> bool" where
  "users_known d \<longleftrightarrow> knows (set (g_clients (dm_registry d))) (dm_world d)"

lemma stands_world: "stands_for G es d g m \<Longrightarrow> m d = (r, d') \<Longrightarrow> knows U (dm_world d) \<Longrightarrow> knows U (dm_world d')"
  using preservesD' [OF known_run] by (simp add: stands_for_def) blast

lemma known_daemon_step:
  assumes "attached_all d" and "running e" and "users_known d" and "daemon_step G e d = (Inr (), d')"
  shows "attached_all d' \<and> users_known d'"
proof (cases e)
  case (Setup x)
  then obtain E u where x: "x = Websocket E u" using assms(2) by (cases x) simp_all
  let ?g = "registry_accept u (dm_registry d)"
  have s: "stands_for G [Accept E u] d ?g (accept_websocket E u)" by (rule stands_accept) (rule assms(1))
  have run: "accept_websocket E u d = (Inr (), d')" using assms(4) Setup x by simp
  then have "accept_connection E u (dm_world d) = (Inr (), dm_world d')" "attached_all d'" "dm_registry d' = ?g"
    using s assms(1) by (auto simp: stands_for_def server_run_def act_simps split: prod.splits sum.splits)
  moreover have "set (g_clients ?g) = insert u (set (g_clients (dm_registry d)))" by (auto simp: registry_accept_def)
  ultimately show ?thesis using accepted_known assms(3) by (simp add: users_known_def)
next
  case (Socket_closed alive u)
  let ?g = "if find_client u (dm_registry d) = None then dm_registry d else disconnect u (dm_registry d)"
  have run: "on_registry (socket_closed True u) d = (Inr (), d')" using assms(2,4) Socket_closed by simp
  have "set (g_clients ?g) \<subseteq> set (g_clients (dm_registry d))" by (auto simp: disconnect_def)
  then show ?thesis
    using stands_world [OF stands_close run, of "set (g_clients (dm_registry d))"] stands_close [of G d u] run assms(1,3)
    by (auto simp: users_known_def stands_for_def knows_def)
next
  case (Tick i)
  then have run: "daemon_tick G i d = (Inr (), d')" using assms(4) by simp
  then show ?thesis
    using stands_world [OF stands_tick run] stands_tick [of G i d] assms(1,3)
    by (simp add: users_known_def stands_for_def)
qed

lemma known_daemon_run:
  "list_all running es \<Longrightarrow> attached_all d \<Longrightarrow> users_known d \<Longrightarrow> daemon_run G es d = (Inr (), d') \<Longrightarrow> users_known d'"
proof (induction es arbitrary: d)
  case (Cons e es)
  obtain r d1 where step: "daemon_step G e d = (r, d1)" by fastforce
  have r: "r = Inr ()" using Cons.prems(4) step by (cases r) (simp_all add: daemon_run_def act_simps)
  have "attached_all d1 \<and> users_known d1" using known_daemon_step [of d e G d1] Cons.prems step r by simp
  then show ?case using Cons.IH [of d1] Cons.prems step r by (simp add: daemon_run_def act_simps)
qed (simp add: daemon_run_def act_simps)

subsection \<open>Properties\<close>

fun is_websocket :: "setup_event \<Rightarrow> bool" where
  "is_websocket (Websocket E u) \<longleftrightarrow> True"
| "is_websocket _ \<longleftrightarrow> False"

lemma early_websockets_lost:
  "list_all is_websocket early \<Longrightarrow> \<not> dm_attached d \<Longrightarrow> sfor early setup_step d = (Inr (), d)"
proof (induction early)
  case (Cons x early)
  then show ?case by (cases x) (simp_all add: act_simps accept_websocket_def)
qed (simp add: act_simps)

lemma startup_run:
  "list_all is_websocket early \<Longrightarrow> setup_run (startup early [] []) (new_daemon w) =
     (Inr (), (new_daemon w)\<lparr>dm_attached := True, dm_handlers := [Greeter, User_maker]\<rparr>)"
  by (simp add: setup_run_def startup_def sfor_append early_websockets_lost new_daemon_def act_simps)

lemma server_started:
  "new_server make_address b (server_options c) = (case make_address ''0.0.0.0'' of
     Inl m \<Rightarrow> Inl (Runtime_exn m)
   | Inr a \<Rightarrow> (case b of
       Not_opened m \<Rightarrow> Inl (Network_exn (network_exception_with BIND_ERROR m))
     | Not_bound m \<Rightarrow> Inl (Network_exn (network_exception_with BIND_ERROR m))
     | Bound \<Rightarrow> Inr (\<lparr>bc_endpoint = (a, word_of_int (sc_port c)), bc_threads = 4, bc_running = True\<rparr>,
         do_async_accept (new_acceptor\<lparr>bl_open := True\<rparr>))))"
  by (simp add: new_server_def new_beast_context_def server_options_def value_or_def DEFAULT_THREAD_COUNT_def
      acceptor_start_def new_acceptor_def split: sum.split binding.split)

lemma loop_started:
  "loop_start spurious1 spurious2 new_loop =
     (if spurious1 then (Inl (Runtime_exn ''The server is already running.''), new_loop)
      else (Inr (), new_loop\<lparr>lp_running := True, lp_started := \<not> spurious2\<rparr>))"
  by (simp add: loop_start_def new_loop_def exchange_weak_def act_simps)

text \<open>Nothing stops the loop: no step of the program changes its flag.\<close>

lemma server_loop_runs: "lp_running l \<Longrightarrow> server_loop G l es = sseq (daemon_run G es) (sreturn True)"
proof (induction es)
  case (Cons e es)
  then have "server_loop G l (e # es) = sseq (daemon_step G e) (server_loop G l es)" by (cases e) simp_all
  then show ?case
    using Cons by (simp add: daemon_run_def fun_eq_iff act_simps split: prod.split sum.split)
qed (simp add: daemon_run_def fun_eq_iff act_simps)

text \<open>C5. How \<open>main\<close> ends, and what it does, provided no websocket is accepted between the steps of the
  startup (those before it are lost) and sockets close while something holds their connection. It throws
  what loading the configuration throws, or returns 1 without one; it throws a \<open>NetworkException\<close>
  of kind \<open>BIND_ERROR\<close> when the port cannot be bound, and "The server is already running." when the weak
  exchange fails spuriously; in all these cases no event reaches the world. Otherwise it never returns:
  whatever websockets, closing sockets and ticks come, in any order, it does to the world what
  \<open>server_run\<close> does on the events that the client registry determines, and either throws the same
  exception or is still in the loop.\<close>

theorem main_runs_server:
  assumes "init_global_commands (\<lambda>_. None) = Inr G" and "list_all is_websocket early" and "list_all running es"
  shows "case chat_server A file parse path make_address b (startup early [] []) spurious1 spurious2 es (new_daemon w) of
    (res, d) \<Rightarrow> (case load_config_from_json A file parse path of
       Inl e \<Rightarrow> res = Inl e \<and> d = new_daemon w
     | Inr (Inl err) \<Rightarrow> res = Inr (Some 1) \<and> d = new_daemon w
     | Inr (Inr c) \<Rightarrow> (case make_address ''0.0.0.0'' of
         Inl m \<Rightarrow> res = Inl (Runtime_exn m) \<and> d = new_daemon w
       | Inr _ \<Rightarrow>
           if b \<noteq> Bound then (\<exists>x. res = Inl (Network_exn x) \<and> ne_kind x = BIND_ERROR) \<and> d = new_daemon w
           else if spurious1 then res = Inl (Runtime_exn ''The server is already running.'') \<and> dm_world d = w
           else (case server_run G (world_events es \<lparr>g_clients = [], g_closed = []\<rparr>) w of (r, w') \<Rightarrow>
             dm_world d = w' \<and> res = (case r of Inl e \<Rightarrow> Inl e | Inr _ \<Rightarrow> Inr None))))"
proof -
  let ?d = "(new_daemon w)\<lparr>dm_attached := True, dm_handlers := [Greeter, User_maker]\<rparr>"
  have "attached_all ?d" by (simp add: attached_all_def)
  then have run: "case daemon_run G es ?d of (r, d') \<Rightarrow>
      server_run G (world_events es \<lparr>g_clients = [], g_closed = []\<rparr>) w = (r, dm_world d')"
    using daemon_refines [OF assms(3), of ?d G] by (simp add: new_daemon_def)
  have world: "dm_world ?d = w" by (simp add: new_daemon_def)
  show ?thesis
  proof (cases "load_config_from_json A file parse path")
    case (Inr r)
    then show ?thesis
      using assms(1) startup_run [OF assms(2), of w] run world
      by (cases r; cases "make_address ''0.0.0.0''"; cases b; cases spurious1)
        (auto simp: chat_server_def server_started loop_started server_loop_runs network_exception_with_def act_simps
          split: prod.splits sum.splits)
  qed (simp add: chat_server_def act_simps)
qed

lemma demo_globals_init: "init_global_commands (\<lambda>_. None) = Inr demo_globals"
  using whoami_known by (auto simp: demo_globals_def split: sum.splits)

definition demo_input :: tick_input where
  "demo_input = \<lparr>ti_outside = demo_outside, ti_packets = (\<lambda>_. [(demo_outside, ''hello'')])\<rparr>"

definition demo_daemon_events :: "daemon_event list" where
  "demo_daemon_events = [Setup (Websocket demo_outside (SessionId 1)), Tick demo_input, Socket_closed True (SessionId 1),
     Tick demo_input]"

lemma demo_world_events:
  "world_events demo_daemon_events \<lparr>g_clients = [], g_closed = []\<rparr> =
     [Accept demo_outside (SessionId 1), Packet demo_outside (SessionId 1) ''hello'', Update_games demo_outside,
      Disconnected demo_outside (SessionId 1), Update_games demo_outside]"
  by (simp add: demo_daemon_events_def tick_events_def registry_accept_def demo_input_def find_client_def find_in_map_def
      disconnect_def)

definition demo_config :: json_value where
  "demo_config = Json_object [(''port'', Json_integer 8080), (''html'', Json_string ''www'')]"

lemma demo_config_loads:
  "load_config_from_json demo_json (\<lambda>_. Inr ''text'') (\<lambda>_. Inr demo_config) ''config.json'' =
     Inr (Inr \<lparr>sc_port = 8080, sc_html_path = ''www'', sc_err = False\<rparr>)"
  by code_simp

theorem main_runs_server_witness:
  "case chat_server demo_json (\<lambda>_. Inr ''text'') (\<lambda>_. Inr demo_config) ''config.json'' (\<lambda>a. Inr a) Bound
      (startup [Websocket demo_outside (SessionId 2)] [] []) False False demo_daemon_events (new_daemon demo_world) of
    (res, d) \<Rightarrow>
    (case server_run demo_globals [Accept demo_outside (SessionId 1), Packet demo_outside (SessionId 1) ''hello'',
       Update_games demo_outside, Disconnected demo_outside (SessionId 1), Update_games demo_outside] demo_world of (r, w') \<Rightarrow>
        dm_world d = w' \<and> res = (case r of Inl e \<Rightarrow> Inl e | Inr _ \<Rightarrow> Inr None))"
  using main_runs_server [OF demo_globals_init, where early = "[Websocket demo_outside (SessionId 2)]" and es = demo_daemon_events
    and A = demo_json and ?file = "\<lambda>_. Inr ''text''" and parse = "\<lambda>_. Inr demo_config" and path = "''config.json''"
    and make_address = "\<lambda>a. Inr a" and b = Bound and ?spurious1.0 = False and ?spurious2.0 = False and w = demo_world]
  unfolding demo_world_events demo_config_loads by (simp add: demo_daemon_events_def)

text \<open>Had the loop ended with a room in use, the destructor of the server manager would have gone on with an
  iterator of an element it has erased.\<close>

lemma returning_with_rooms:
  assumes "w_room_codes w = (code, ref) # codes" and "map_of (w_room_codes w) (r_id (w_rooms w ref)) \<noteq> None"
  shows "fst (manager_destructor w) = Inl (Undefined Use_after_free)"
  using assms by (simp add: manager_destructor_def destroy_room_def act_simps)

text \<open>When no websocket is accepted between the steps of the startup, every client that is registered
  has a user, at any time of any run that has not ended: none of the global commands that such a client
  sends finds a null user, and \<open>/whoami\<close> answers.\<close>

theorem registered_clients_have_users:
  assumes "list_all is_websocket early" and "list_all running es"
    and "sseq (setup_run (startup early [] [])) (daemon_run G es) (new_daemon (new_world us rs)) = (Inr (), d)"
    and "find_client u (dm_registry d) \<noteq> None"
  shows "manager_find_user u (dm_world d) = Some u \<and> fst (cmd_whoami u (dm_world d)) = Inr ()"
proof -
  let ?d = "(new_daemon (new_world us rs))\<lparr>dm_attached := True, dm_handlers := [Greeter, User_maker]\<rparr>"
  have "daemon_run G es ?d = (Inr (), d)"
    using assms(3) startup_run [OF assms(1), of "new_world us rs"] by (simp add: act_simps)
  moreover have "attached_all ?d" "users_known ?d"
    by (simp_all add: attached_all_def users_known_def knows_def new_daemon_def new_world_def)
  ultimately have "users_known d" using known_daemon_run [OF assms(2)] by blast
  moreover have "u \<in> set (g_clients (dm_registry d))"
    using assms(4) by (auto simp: find_client_def find_in_map_def map_of_eq_None_iff)
  ultimately have "w_known (dm_world d) u = Some u" by (simp add: users_known_def knows_def)
  then show ?thesis
    by (simp add: manager_find_user_def find_in_map_def cmd_whoami_def with_user_def say_def act_simps)
qed

definition demo_arrival :: daemon_event where
  "demo_arrival = Setup (Websocket (demo_outside\<lparr>o_print_uuid := (\<lambda>_. ''id1'')\<rparr>) (SessionId 1))"

theorem registered_clients_have_users_witness:
  "\<exists>d. sseq (setup_run (startup [] [] [])) (daemon_run demo_globals [demo_arrival]) (new_daemon demo_world) = (Inr (), d) \<and>
    manager_find_user (SessionId 1) (dm_world d) = Some (SessionId 1)"
proof -
  have "make_nickname ''id1'' = Inr ''id1''" by code_simp
  then obtain d where d: "sseq (setup_run (startup [] [] [])) (daemon_run demo_globals [demo_arrival]) (new_daemon demo_world) = (Inr (), d)"
    "find_client (SessionId 1) (dm_registry d) \<noteq> None"
    by (simp add: startup_def setup_run_def daemon_run_def demo_arrival_def accept_websocket_def new_daemon_def greet_user_def make_user_def
      new_user_def session_id_string_def manager_add_user_def say_def modify_user_object_def registry_accept_def find_client_def
      find_in_map_def act_simps)
  then have "manager_find_user (SessionId 1) (dm_world d) = Some (SessionId 1)"
    using registered_clients_have_users [of "[]" "[demo_arrival]" demo_globals demo_users _ d "SessionId 1"]
    by (simp add: demo_arrival_def demo_world_def)
  then show ?thesis using d(1) by blast
qed

text \<open>A tick that returns leaves no closed client behind, and what it worked off was, for each of them, one
  disconnection.\<close>

lemma tick_works_off_closed:
  "daemon_tick G i d = (Inr (), d') \<Longrightarrow> g_closed (dm_registry d') = [] \<and> g_clients (dm_registry d') = g_clients (dm_registry d)"
  using daemon_tick_run [of G i d] by simp

text \<open>So the invariants of the server hold in the whole program.\<close>

lemma main_keeps_rooms:
  assumes "list_all running es" and "attached_all d" and "daemon_run G es d = (r, d')"
    and "dm_world d = new_world us (\<lambda>_. new_room now False sig code)"
    and "events_fresh G (world_events es (dm_registry d)) (dm_world d)"
  shows "rooms_ok (dm_world d') \<and> ((\<exists>x. r = Inl (Undefined x)) \<or> seated (dm_world d'))"
proof -
  have run: "server_run G (world_events es (dm_registry d)) (dm_world d) = (r, dm_world d')"
    using daemon_refines [OF assms(1,2), of G] assms(3) by simp
  have "consistent (dm_world d)"
    using empty_world_seats assms(4) by (simp add: rooms_ok_def new_world_def room_inv_new)
  then show ?thesis
    using server_run_ok [OF _ assms(5)] server_run_seats [OF _ assms(5)] run by simp
qed

end
