(* ===== verification/Daemon_Threads.thy ===== *)
theory Daemon_Threads
  imports Daemon_Main
begin

section \<open>The server's threads, interleaved\<close>

text \<open>
  Here the tick is not one step: the handlers of the network threads run in between, held back only by
  the two locks. An accept handler registers the client (under the exclusive lock of the client map),
  greets it, and gives it a user. It runs on the strand of its socket, so nothing is read from the
  socket before it has ended. \<open>Server::disconnect\<close> takes the exclusive lock, then, still holding it, the
  mutex of the list of the disconnected to put the id there, and then erases the client. The tick
  works off this list under the mutex, copies the clients under the shared lock, takes the packets of
  each client one by one for as long as there are any, and updates the games one by one.

  A step on the world is atomic: that the accept handlers and the tick use the maps of the server
  manager without a lock is not modelled. Session ids are unique, so a client is accepted once.
\<close>

datatype link = Unknown | Registered | Greeted | Live | Locking | Closing | Gone

datatype tick_phase =
    Between
  | Departures outside "session_id list"
  | Departed outside
  | Packets outside "session_id list"
  | Games outside "nat list"

text \<open>A log of what the tick did.\<close>

datatype mark = Departure session_id | Packet_of session_id

record threads =
  ts_registry :: registry
  ts_world :: world
  ts_link :: "session_id \<Rightarrow> link"
  ts_inbox :: "session_id \<Rightarrow> (outside \<times> string) list"
  ts_lock :: "session_id option"
  ts_phase :: tick_phase
  ts_log :: "mark list"

definition new_threads :: "world \<Rightarrow> threads" where
  "new_threads w = \<lparr>ts_registry = \<lparr>g_clients = [], g_closed = []\<rparr>, ts_world = w, ts_link = (\<lambda>_. Unknown),
     ts_inbox = (\<lambda>_. []), ts_lock = None, ts_phase = Between, ts_log = []\<rparr>"

text \<open>A step that cannot be taken, because a lock is held or it is not its turn, is \<open>None\<close>; one that is
  taken returns or throws.\<close>

type_synonym thread_result = "((exn + unit) \<times> threads) option"

definition in_world :: "unit world_op \<Rightarrow> threads \<Rightarrow> thread_result" where
  "in_world m s = (case m (ts_world s) of (r, w) \<Rightarrow> Some (r, s\<lparr>ts_world := w\<rparr>))"

definition move_to :: "tick_phase \<Rightarrow> threads \<Rightarrow> thread_result" where
  "move_to p s = Some (Inr (), s\<lparr>ts_phase := p\<rparr>)"

definition relink :: "session_id \<Rightarrow> link \<Rightarrow> threads \<Rightarrow> threads" where
  "relink u k s = s\<lparr>ts_link := (ts_link s)(u := k)\<rparr>"

fun mutex_held :: "tick_phase \<Rightarrow> bool" where
  "mutex_held (Departures E us) \<longleftrightarrow> True"
| "mutex_held _ \<longleftrightarrow> False"

definition tick_step :: "global_executor command_map \<Rightarrow> threads \<Rightarrow> thread_result" where
  "tick_step G s = (case ts_phase s of
     Between \<Rightarrow> None
   | Departures E [] \<Rightarrow> move_to (Departed E) (s\<lparr>ts_registry := (ts_registry s)\<lparr>g_closed := []\<rparr>\<rparr>)
   | Departures E (u # us) \<Rightarrow> in_world (process_disconnect (o_game E) u)
       (s\<lparr>ts_phase := Departures E us, ts_log := ts_log s @ [Departure u]\<rparr>)
   | Departed E \<Rightarrow> if ts_lock s \<noteq> None then None else move_to (Packets E (g_clients (ts_registry s))) s
   | Packets E [] \<Rightarrow> move_to (Games E (rooms (ts_world s))) s
   | Packets E (u # us) \<Rightarrow> (case ts_inbox s u of
         [] \<Rightarrow> move_to (Packets E us) s
       | (E', text) # rest \<Rightarrow> in_world (process_packet G E' u text)
           (s\<lparr>ts_inbox := (ts_inbox s)(u := rest), ts_log := ts_log s @ [Packet_of u]\<rparr>))
   | Games E [] \<Rightarrow> move_to Between s
   | Games E (ref # refs) \<Rightarrow> in_world (at_room ref (update_game (o_game E))) (s\<lparr>ts_phase := Games E refs\<rparr>))"

datatype thread_event =
    Register session_id
  | Greet session_id
  | Admit outside session_id
  | Arrive session_id outside string
  | Begin_close session_id
  | Push_close session_id
  | End_close session_id
  | Begin_tick outside
  | Tick_step

fun thread_step :: "global_executor command_map \<Rightarrow> thread_event \<Rightarrow> threads \<Rightarrow> thread_result" where
  "thread_step G (Register u) s =
     (if ts_link s u \<noteq> Unknown \<or> ts_lock s \<noteq> None then None
      else Some (Inr (), relink u Registered (s\<lparr>ts_registry := registry_accept u (ts_registry s)\<rparr>)))"
| "thread_step G (Greet u) s =
     (if ts_link s u \<noteq> Registered then None else in_world (greet_user u) (relink u Greeted s))"
| "thread_step G (Admit E u) s =
     (if ts_link s u \<noteq> Greeted then None
      else in_world (sseq (make_user (o_print_uuid E) u) (manager_add_user u)) (relink u Live s))"
| "thread_step G (Arrive u E text) s =
     (if ts_link s u \<noteq> Live then None
      else Some (Inr (), s\<lparr>ts_inbox := (ts_inbox s)(u := ts_inbox s u @ [(E, text)])\<rparr>))"
| "thread_step G (Begin_close u) s =
     (if ts_link s u \<noteq> Live \<or> ts_lock s \<noteq> None then None
      else Some (Inr (), relink u Locking (s\<lparr>ts_lock := Some u\<rparr>)))"
| "thread_step G (Push_close u) s =
     (if ts_link s u \<noteq> Locking \<or> mutex_held (ts_phase s) then None
      else Some (Inr (), relink u Closing (s\<lparr>ts_registry := (ts_registry s)\<lparr>g_closed := g_closed (ts_registry s) @ [u]\<rparr>\<rparr>)))"
| "thread_step G (End_close u) s =
     (if ts_link s u \<noteq> Closing then None
      else Some (Inr (), relink u Gone (s\<lparr>ts_lock := None,
        ts_registry := (ts_registry s)\<lparr>g_clients := filter (\<lambda>v. v \<noteq> u) (g_clients (ts_registry s))\<rparr>\<rparr>)))"
| "thread_step G (Begin_tick E) s =
     (if ts_phase s \<noteq> Between then None else move_to (Departures E (g_closed (ts_registry s))) s)"
| "thread_step G Tick_step s = tick_step G s"

fun thread_run :: "global_executor command_map \<Rightarrow> thread_event list \<Rightarrow> threads \<Rightarrow> thread_result" where
  "thread_run G [] s = Some (Inr (), s)"
| "thread_run G (e # es) s = (case thread_step G e s of
     None \<Rightarrow> None
   | Some (r, s') \<Rightarrow> (case r of Inl x \<Rightarrow> Some (Inl x, s') | Inr _ \<Rightarrow> thread_run G es s'))"

text \<open>The three steps of a close together are \<open>disconnect\<close>.\<close>

lemma close_is_disconnect:
  assumes "ts_link s u = Live" and "u \<in> set (g_clients (ts_registry s))" and "ts_lock s = None"
    and "\<not> mutex_held (ts_phase s)"
  shows "thread_run G [Begin_close u, Push_close u, End_close u] s =
    Some (Inr (), relink u Gone (s\<lparr>ts_registry := disconnect u (ts_registry s)\<rparr>))"
  using assms by (simp add: disconnect_def relink_def)

text \<open>What every step keeps, every run keeps.\<close>

lemma thread_run_keeps:
  assumes "\<And>e s r s'. I s \<Longrightarrow> thread_step G e s = Some (r, s') \<Longrightarrow> I s'"
  shows "I s \<Longrightarrow> thread_run G es s = Some (r, s') \<Longrightarrow> I s'"
proof (induction es arbitrary: s)
  case (Cons e es)
  then show ?case using assms [of s e] by (auto split: option.splits sum.splits)
qed simp

lemma thread_run_append:
  "thread_run G (es @ es') s = (case thread_run G es s of
     None \<Rightarrow> None
   | Some (r, s') \<Rightarrow> (case r of Inl x \<Rightarrow> Some (Inl x, s') | Inr _ \<Rightarrow> thread_run G es' s'))"
  by (induction es arbitrary: s) (auto split: option.split sum.split)

subsection \<open>Departures and packets\<close>

definition departures :: "mark list \<Rightarrow> session_id list" where
  "departures l = concat (map (\<lambda>m. case m of Departure u \<Rightarrow> [u] | Packet_of _ \<Rightarrow> []) l)"

text \<open>Who has departed sends nothing any more.\<close>

fun quiet_after :: "mark list \<Rightarrow> bool" where
  "quiet_after [] \<longleftrightarrow> True"
| "quiet_after (Departure u # l) \<longleftrightarrow> Packet_of u \<notin> set l \<and> quiet_after l"
| "quiet_after (Packet_of u # l) \<longleftrightarrow> quiet_after l"

text \<open>Those who are disconnected and not worked off yet.\<close>

definition waiting_departures :: "threads \<Rightarrow> session_id list" where
  "waiting_departures s = (case ts_phase s of Departures E us \<Rightarrow> us | _ \<Rightarrow> g_closed (ts_registry s))"

lemma departures_simps [simp]:
  "departures [] = []" "departures (l @ l') = departures l @ departures l'"
  "departures [Departure u] = [u]" "departures [Packet_of u] = []"
  by (simp_all add: departures_def)

lemma departures_set: "u \<in> set (departures l) \<longleftrightarrow> Departure u \<in> set l"
  by (auto simp: departures_def split: mark.splits)

lemma quiet_after_append [simp]:
  "quiet_after (l @ [Departure u]) = quiet_after l"
  "quiet_after (l @ [Packet_of u]) \<longleftrightarrow> quiet_after l \<and> u \<notin> set (departures l)"
  unfolding departures_set by (induction l rule: quiet_after.induct) auto

definition in_map :: "link set" where
  "in_map = {Registered, Greeted, Live, Locking, Closing}"

text \<open>The links of the clients and where their ids are.\<close>

definition orderly :: "threads \<Rightarrow> bool" where
  "orderly s \<longleftrightarrow> (\<forall>u. u \<in> set (g_clients (ts_registry s)) \<longleftrightarrow> ts_link s u \<in> in_map) \<and>
     (\<forall>u. ts_lock s = Some u \<longleftrightarrow> ts_link s u \<in> {Locking, Closing}) \<and>
     distinct (departures (ts_log s) @ waiting_departures s) \<and>
     (\<forall>u. u \<in> set (departures (ts_log s) @ waiting_departures s) \<longleftrightarrow> ts_link s u \<in> {Closing, Gone}) \<and>
     (\<forall>E us. ts_phase s = Packets E us \<longrightarrow> set us \<inter> set (departures (ts_log s)) = {}) \<and>
     quiet_after (ts_log s)"

lemma orderlyI:
  assumes "\<And>u. u \<in> set (g_clients (ts_registry s)) \<longleftrightarrow> ts_link s u \<in> in_map"
    and "\<And>u. ts_lock s = Some u \<longleftrightarrow> ts_link s u \<in> {Locking, Closing}"
    and "distinct (departures (ts_log s) @ waiting_departures s)"
    and "\<And>u. u \<in> set (departures (ts_log s) @ waiting_departures s) \<longleftrightarrow> ts_link s u \<in> {Closing, Gone}"
    and "\<And>E us. ts_phase s = Packets E us \<Longrightarrow> set us \<inter> set (departures (ts_log s)) = {}"
    and "quiet_after (ts_log s)"
  shows "orderly s"
  unfolding orderly_def using assms by blast

lemma orderly_world: "orderly (s\<lparr>ts_world := w\<rparr>) = orderly s"
  by (simp add: orderly_def waiting_departures_def cong: tick_phase.case_cong)

lemma orderlyD:
  assumes "orderly s"
  shows "u \<in> set (g_clients (ts_registry s)) \<longleftrightarrow> ts_link s u \<in> in_map"
    and "ts_lock s = Some u \<longleftrightarrow> ts_link s u \<in> {Locking, Closing}"
    and "distinct (departures (ts_log s) @ waiting_departures s)"
    and "u \<in> set (departures (ts_log s) @ waiting_departures s) \<longleftrightarrow> ts_link s u \<in> {Closing, Gone}"
    and "ts_phase s = Packets E us \<Longrightarrow> set us \<inter> set (departures (ts_log s)) = {}"
    and "quiet_after (ts_log s)"
  using assms unfolding orderly_def by blast+

lemma orderly_tick:
  assumes "orderly s" and "tick_step G s = Some (r, s')"
  shows "orderly s'"
proof (cases "ts_phase s")
  case Between
  then show ?thesis using assms by (simp add: tick_step_def)
next
  case (Departures E us)
  show ?thesis
    using assms Departures
    by (cases us) (auto simp: tick_step_def move_to_def in_world_def orderly_def waiting_departures_def split: prod.splits)
next
  case (Departed E)
  have "u \<in> set (departures (ts_log s)) \<Longrightarrow> u \<in> set (g_clients (ts_registry s)) \<Longrightarrow> ts_lock s = None \<Longrightarrow> False" for u
    using orderlyD(1,2,4) [OF assms(1), of u] by (auto simp: in_map_def)
  then show ?thesis
    using assms Departed
    by (auto simp: tick_step_def move_to_def orderly_def waiting_departures_def split: if_splits)
next
  case (Packets E us)
  show ?thesis
    using assms Packets
    by (cases us) (auto simp: tick_step_def move_to_def in_world_def orderly_def waiting_departures_def
        split: prod.splits list.splits)
next
  case (Games E refs)
  show ?thesis
    using assms Games
    by (cases refs) (auto simp: tick_step_def move_to_def in_world_def orderly_def waiting_departures_def
        split: prod.splits)
qed

text \<open>A client moves on to another link.\<close>

lemma orderly_relink:
  assumes "orderly s" and "ts_link s u \<in> in_map - {Locking, Closing}" and "k \<in> in_map - {Locking, Closing}"
  shows "orderly (relink u k s)"
proof (rule orderlyI)
  fix v
  note o = orderlyD(1,2,4) [OF assms(1), of v]
  show "v \<in> set (g_clients (ts_registry (relink u k s))) \<longleftrightarrow> ts_link (relink u k s) v \<in> in_map"
    "ts_lock (relink u k s) = Some v \<longleftrightarrow> ts_link (relink u k s) v \<in> {Locking, Closing}"
    "v \<in> set (departures (ts_log (relink u k s)) @ waiting_departures (relink u k s)) \<longleftrightarrow>
       ts_link (relink u k s) v \<in> {Closing, Gone}"
    using o assms(2,3)
    by (auto simp: relink_def in_map_def waiting_departures_def cong: tick_phase.case_cong)
qed (use orderlyD(3,5,6) [OF assms(1)] in \<open>auto simp: relink_def waiting_departures_def cong: tick_phase.case_cong\<close>)

lemma in_world_run: "in_world m s = Some (r, s') \<Longrightarrow> \<exists>w. m (ts_world s) = (r, w) \<and> s' = s\<lparr>ts_world := w\<rparr>"
  by (simp add: in_world_def split: prod.splits)

lemma orderly_step:
  assumes s: "orderly s" and "thread_step G e s = Some (r, s')"
  shows "orderly s'"
proof (cases e)
  case (Register u)
  then have "ts_link s u = Unknown" "s' = relink u Registered (s\<lparr>ts_registry := registry_accept u (ts_registry s)\<rparr>)"
    using assms(2) by (auto split: if_splits)
  moreover have "set (g_clients (registry_accept u g)) = insert u (set (g_clients g))"
    "g_closed (registry_accept u g) = g_closed g" for g
    by (auto simp: registry_accept_def)
  ultimately show ?thesis
    using orderlyD(1,2,4) [OF s] orderlyD(3,5,6) [OF s]
    by (intro orderlyI) (auto simp: relink_def in_map_def waiting_departures_def cong: tick_phase.case_cong)
next
  case (Greet u)
  then have "ts_link s u = Registered" and w: "in_world (greet_user u) (relink u Greeted s) = Some (r, s')"
    using assms(2) by (auto split: if_splits)
  then have "orderly (relink u Greeted s)" by (intro orderly_relink s) (auto simp: in_map_def)
  then show ?thesis using in_world_run [OF w] by (auto simp: orderly_world)
next
  case (Admit E u)
  let ?m = "sseq (make_user (o_print_uuid E) u) (manager_add_user u)"
  have "ts_link s u = Greeted" and w: "in_world ?m (relink u Live s) = Some (r, s')"
    using assms(2) Admit by (auto split: if_splits)
  then have "orderly (relink u Live s)" by (intro orderly_relink s) (auto simp: in_map_def)
  then show ?thesis using in_world_run [OF w] by (auto simp: orderly_world)
next
  case (Arrive u E msg)
  then show ?thesis
    using assms by (auto simp: orderly_def waiting_departures_def split: if_splits cong: tick_phase.case_cong)
next
  case (Begin_close u)
  then have "ts_link s u = Live" "ts_lock s = None" and s': "s' = relink u Locking (s\<lparr>ts_lock := Some u\<rparr>)"
    using assms(2) by (auto split: if_splits)
  then show ?thesis
    using orderlyD(1,2,4) [OF s] orderlyD(3,5,6) [OF s]
    by (intro orderlyI) (auto simp: relink_def in_map_def waiting_departures_def cong: tick_phase.case_cong)
next
  case (Push_close u)
  then have "ts_link s u = Locking" "\<not> mutex_held (ts_phase s)"
    and s': "s' = relink u Closing (s\<lparr>ts_registry := (ts_registry s)\<lparr>g_closed := g_closed (ts_registry s) @ [u]\<rparr>\<rparr>)"
    using assms(2) by (auto split: if_splits)
  moreover from this have "waiting_departures s' = waiting_departures s @ [u]"
    by (cases "ts_phase s") (simp_all add: waiting_departures_def relink_def)
  moreover have "u \<notin> set (departures (ts_log s)) \<union> set (waiting_departures s)"
    using orderlyD(4) [OF s, of u] \<open>ts_link s u = Locking\<close> by auto
  ultimately show ?thesis
    using orderlyD(1,2,4) [OF s] orderlyD(3,5,6) [OF s]
    by (intro orderlyI) (auto simp: relink_def in_map_def)
next
  case (End_close u)
  then have "ts_link s u = Closing"
    and s': "s' = relink u Gone (s\<lparr>ts_lock := None,
        ts_registry := (ts_registry s)\<lparr>g_clients := filter (\<lambda>v. v \<noteq> u) (g_clients (ts_registry s))\<rparr>\<rparr>)"
    using assms(2) by (auto split: if_splits)
  moreover from this have "waiting_departures s' = waiting_departures s"
    by (simp add: waiting_departures_def relink_def cong: tick_phase.case_cong)
  moreover have "ts_link s v \<in> {Locking, Closing} \<longleftrightarrow> v = u" for v
    using orderlyD(2) [OF s, of v] orderlyD(2) [OF s, of u] \<open>ts_link s u = Closing\<close> by auto
  ultimately show ?thesis
    using orderlyD(1,4) [OF s] orderlyD(3,5,6) [OF s]
    by (intro orderlyI) (auto simp: relink_def in_map_def)
next
  case (Begin_tick E)
  then show ?thesis
    using assms by (auto simp: move_to_def orderly_def waiting_departures_def split: if_splits)
next
  case Tick_step
  then show ?thesis using orderly_tick [OF s] assms(2) by simp
qed

lemma orderly_new: "orderly (new_threads w)"
  by (simp add: orderly_def new_threads_def waiting_departures_def in_map_def)

lemma orderly_run: "thread_run G es (new_threads w) = Some (r, s) \<Longrightarrow> orderly s"
  by (rule thread_run_keeps [where I = orderly, OF orderly_step orderly_new])

subsection \<open>Users\<close>

definition admitted :: "threads \<Rightarrow> session_id set" where
  "admitted s = {u. ts_link s u \<in> {Live, Locking, Closing, Gone}}"

definition peopled :: "threads \<Rightarrow> bool" where
  "peopled s \<longleftrightarrow> knows (admitted s) (ts_world s) \<and> (\<forall>u. ts_inbox s u \<noteq> [] \<longrightarrow> u \<in> admitted s)"

lemma known_disconnect: "preserves (knows U) (process_disconnect K u)"
  unfolding process_disconnect_def manager_remove_user_def
  by (auto intro!: known_rules known_intros split: prod.split)

lemma peopled_world:
  assumes "peopled s" and "preserves (knows (admitted s)) m" and "in_world m s0 = Some (r, s')"
    and "ts_world s0 = ts_world s" and "ts_link s0 = ts_link s" and "\<And>u. ts_inbox s0 u \<noteq> [] \<Longrightarrow> ts_inbox s u \<noteq> []"
  shows "peopled s'"
proof -
  obtain w where w: "m (ts_world s) = (r, w)" "s' = s0\<lparr>ts_world := w\<rparr>" using in_world_run [OF assms(3)] assms(4) by auto
  have "admitted s' = admitted s" using assms(5) w(2) by (simp add: admitted_def)
  moreover have "knows (admitted s) w" using preservesD' [OF assms(2) _ w(1)] assms(1) by (simp add: peopled_def)
  ultimately show ?thesis using assms(1,6) w(2) by (simp add: peopled_def)
qed

lemma peopled_same:
  "peopled s \<Longrightarrow> ts_world s' = ts_world s \<Longrightarrow> ts_link s' = ts_link s \<Longrightarrow> ts_inbox s' = ts_inbox s \<Longrightarrow> peopled s'"
  by (simp add: peopled_def admitted_def)

lemma peopled_tick:
  assumes s: "peopled s" and step: "tick_step G s = Some (r, s')"
  shows "peopled s'"
proof (cases "ts_phase s")
  case (Departures E us)
  show ?thesis
  proof (cases us)
    case (Cons u vs)
    then have "in_world (process_disconnect (o_game E) u)
        (s\<lparr>ts_phase := Departures E vs, ts_log := ts_log s @ [Departure u]\<rparr>) = Some (r, s')"
      using step Departures by (simp add: tick_step_def)
    then show ?thesis by (rule peopled_world [OF s known_disconnect]) simp_all
  qed (use peopled_same [OF s] step Departures in \<open>auto simp: tick_step_def move_to_def\<close>)
next
  case (Packets E us)
  show ?thesis
  proof (cases us)
    case (Cons u vs)
    show ?thesis
    proof (cases "ts_inbox s u")
      case Nil
      then show ?thesis using peopled_same [OF s] step Packets Cons by (auto simp: tick_step_def move_to_def)
    next
      case (Cons p rest)
      obtain E' msg where p: "p = (E', msg)" by fastforce
      have "in_world (process_packet G E' u msg)
          (s\<lparr>ts_inbox := (ts_inbox s)(u := rest), ts_log := ts_log s @ [Packet_of u]\<rparr>) = Some (r, s')"
        using step Packets \<open>us = u # vs\<close> Cons p by (simp add: tick_step_def)
      then show ?thesis by (rule peopled_world [OF s known_packet]) (use Cons in \<open>auto split: if_splits\<close>)
    qed
  qed (use peopled_same [OF s] step Packets in \<open>auto simp: tick_step_def move_to_def\<close>)
next
  case (Games E refs)
  show ?thesis
  proof (cases refs)
    case (Cons ref refs')
    then have "in_world (at_room ref (update_game (o_game E))) (s\<lparr>ts_phase := Games E refs'\<rparr>) = Some (r, s')"
      using step Games by (simp add: tick_step_def)
    then show ?thesis by (rule peopled_world [OF s known_base(5)]) simp_all
  qed (use peopled_same [OF s] step Games in \<open>auto simp: tick_step_def move_to_def\<close>)
qed (use peopled_same [OF s] step in \<open>auto simp: tick_step_def move_to_def split: if_splits\<close>)

lemma peopled_step:
  assumes s: "peopled s" and step: "thread_step G e s = Some (r, s')" and "r = Inr ()" and o: "orderly s"
  shows "peopled s'"
proof (cases e)
  case (Greet u)
  then have l: "ts_link s u = Registered" and w: "in_world (say u ''Welcome to the server. /create or /join a room to get started!'')
      (relink u Greeted s) = Some (r, s')"
    using step by (auto simp: greet_user_def split: if_splits)
  obtain w' where "s' = relink u Greeted s\<lparr>ts_world := w'\<rparr>" and "w_known w' = w_known (ts_world s)"
    using in_world_run [OF w] by (auto simp: say_def act_simps relink_def)
  moreover have "admitted (relink u Greeted s) = admitted s" using l by (auto simp: admitted_def relink_def)
  ultimately show ?thesis using s l by (auto simp: peopled_def admitted_def knows_def relink_def)
next
  case (Admit E u)
  let ?m = "sseq (make_user (o_print_uuid E) u) (manager_add_user u)"
  have l: "ts_link s u = Greeted" and w: "in_world ?m (relink u Live s) = Some (r, s')"
    using step Admit by (auto split: if_splits)
  obtain w' where w': "?m (ts_world s) = (r, w')" "s' = relink u Live s\<lparr>ts_world := w'\<rparr>"
    using in_world_run [OF w] by (auto simp: relink_def)
  have "preserves (knows (admitted s)) ?m"
    unfolding make_user_def by (auto intro!: known_rules split: sum.split)
  from preservesD [OF this, of "ts_world s"] have "knows (admitted s) w'" using s w'(1) by (simp add: peopled_def)
  moreover have "w_known w' u \<noteq> None"
    using w'(1) assms(3) by (auto simp: manager_add_user_def act_simps split: prod.splits sum.splits option.splits)
  ultimately have "knows (insert u (admitted s)) w'" by (auto simp: knows_def)
  moreover have "admitted s' = insert u (admitted s)" using w'(2) by (auto simp: admitted_def relink_def)
  ultimately show ?thesis using s w'(2) by (auto simp: peopled_def relink_def)
next
  case (End_close u)
  then have "ts_link s u = Closing" using step orderlyD(2) [OF o, of u] by (auto split: if_splits)
  then have "admitted s' = admitted s" "ts_world s' = ts_world s" "ts_inbox s' = ts_inbox s"
    using step End_close by (auto simp: admitted_def relink_def split: if_splits)
  then show ?thesis using s by (simp add: peopled_def)
next
  case Tick_step
  then show ?thesis using peopled_tick [OF s] step by simp
qed (use s step in \<open>auto simp: peopled_def admitted_def relink_def move_to_def knows_def split: if_splits\<close>)

lemma peopled_run:
  "peopled s \<Longrightarrow> orderly s \<Longrightarrow> thread_run G es s = Some (Inr (), s') \<Longrightarrow> peopled s'"
proof (induction es arbitrary: s)
  case (Cons e es)
  then show ?case using peopled_step [of s G e] orderly_step [of s G e] by (auto split: option.splits sum.splits)
qed simp

lemma peopled_new: "peopled (new_threads (new_world us rs))"
  by (simp add: peopled_def admitted_def new_threads_def knows_def new_world_def)

subsection \<open>The invariants of the rooms\<close>

text \<open>Freshness in the sense of the room invariant, for every packet that is taken.\<close>

definition step_fresh :: "thread_event \<Rightarrow> threads \<Rightarrow> bool" where
  "step_fresh e s \<longleftrightarrow> (case e of
     Tick_step \<Rightarrow> (case ts_phase s of
         Packets E (u # us) \<Rightarrow> (case ts_inbox s u of
             (E', text) # rest \<Rightarrow> event_fresh (Packet E' u text) (ts_world s)
           | [] \<Rightarrow> True)
       | _ \<Rightarrow> True)
   | _ \<Rightarrow> True)"

fun run_fresh :: "global_executor command_map \<Rightarrow> thread_event list \<Rightarrow> threads \<Rightarrow> bool" where
  "run_fresh G [] s \<longleftrightarrow> True"
| "run_fresh G (e # es) s \<longleftrightarrow> step_fresh e s \<and>
     (case thread_step G e s of Some (Inr _, s') \<Rightarrow> run_fresh G es s' | _ \<Rightarrow> True)"

definition sound :: "(exn + unit) \<Rightarrow> threads \<Rightarrow> bool" where
  "sound r s \<longleftrightarrow> rooms_ok (ts_world s) \<and> ((\<exists>x. r = Inl (Undefined x)) \<or> seated (ts_world s))"

lemma sound_event:
  assumes "consistent (ts_world s0)" and "event_fresh e (ts_world s0)" and "in_world (server_step G e) s0 = Some (r, s')"
  shows "sound r s'"
proof -
  obtain w where w: "server_step G e (ts_world s0) = (r, w)" "s' = s0\<lparr>ts_world := w\<rparr>" using in_world_run [OF assms(3)] by auto
  have "rooms_ok w" using server_step_ok [of "ts_world s0" e G] assms(1,2) w by simp
  moreover have "(\<exists>x. r = Inl (Undefined x)) \<or> seated w"
    using server_step_seats [OF assms(1,2), of G] w by simp
  ultimately show ?thesis using w by (simp add: sound_def)
qed

lemma sound_keep:
  assumes "consistent (ts_world s0)" and "preserves rooms_ok m" and "preserves seated m" and "in_world m s0 = Some (r, s')"
  shows "sound r s'"
proof -
  obtain w where w: "m (ts_world s0) = (r, w)" "s' = s0\<lparr>ts_world := w\<rparr>" using in_world_run [OF assms(4)] by auto
  then show ?thesis
    using preservesD [OF assms(2), of "ts_world s0"] preservesD [OF assms(3), of "ts_world s0"] assms(1)
    by (simp add: sound_def)
qed

lemma sound_step:
  assumes c: "consistent (ts_world s)" and fresh: "step_fresh e s" and step: "thread_step G e s = Some (r, s')"
  shows "sound r s'"
proof (cases e)
  case (Greet u)
  then have "in_world (greet_user u) (relink u Greeted s) = Some (r, s')" using step by (auto split: if_splits)
  then show ?thesis
    by (rule sound_keep [rotated 3])
      (use c in \<open>auto simp: relink_def greet_user_def intro!: ok_intros seats_say\<close>)
next
  case (Admit E u)
  let ?m = "sseq (make_user (o_print_uuid E) u) (manager_add_user u)"
  have w: "in_world ?m (relink u Live s) = Some (r, s')" using step Admit by (auto split: if_splits)
  have "preserves seated (manager_add_user u)"
    by (auto simp: manager_add_user_def preserves_def act_simps seated_def split: option.split)
  moreover have "preserves rooms_ok (manager_add_user u)" unfolding manager_add_user_def by (intro ok_intros)
  ultimately have "preserves rooms_ok ?m" "preserves seated ?m"
    unfolding make_user_def by (auto intro!: ok_intros seat_intros split: sum.split)
  then show ?thesis by (rule sound_keep [OF _ _ _ w, rotated 1]) (use c in \<open>simp add: relink_def\<close>)
next
  case Tick_step
  then have step: "tick_step G s = Some (r, s')" using step by simp
  show ?thesis
  proof (cases "ts_phase s")
    case (Departures E us)
    show ?thesis
    proof (cases us)
      case (Cons u vs)
      then have "in_world (server_step G (Disconnected E u))
          (s\<lparr>ts_phase := Departures E vs, ts_log := ts_log s @ [Departure u]\<rparr>) = Some (r, s')"
        using step Departures by (simp add: tick_step_def)
      then show ?thesis by (rule sound_event [rotated 2]) (use c in simp_all)
    qed (use c step Departures in \<open>auto simp: tick_step_def move_to_def sound_def\<close>)
  next
    case (Packets E us)
    show ?thesis
    proof (cases us)
      case (Cons u vs)
      show ?thesis
      proof (cases "ts_inbox s u")
        case Nil
        then show ?thesis using c step Packets \<open>us = u # vs\<close> by (auto simp: tick_step_def move_to_def sound_def)
      next
        case (Cons p rest)
        obtain E' msg where p: "p = (E', msg)" by fastforce
        have "in_world (server_step G (Packet E' u msg))
            (s\<lparr>ts_inbox := (ts_inbox s)(u := rest), ts_log := ts_log s @ [Packet_of u]\<rparr>) = Some (r, s')"
          using step Packets \<open>us = u # vs\<close> Cons p by (simp add: tick_step_def)
        then show ?thesis
          by (rule sound_event [rotated 2])
            (use c fresh Tick_step Packets \<open>us = u # vs\<close> Cons p in \<open>simp_all add: step_fresh_def\<close>)
      qed
    qed (use c step Packets in \<open>auto simp: tick_step_def move_to_def sound_def\<close>)
  next
    case (Games E refs)
    show ?thesis
    proof (cases refs)
      case (Cons ref refs')
      then have "in_world (at_room ref (update_game (o_game E))) (s\<lparr>ts_phase := Games E refs'\<rparr>) = Some (r, s')"
        using step Games by (simp add: tick_step_def)
      then show ?thesis
        by (rule sound_keep [rotated 3]) (use c in \<open>simp_all add: seats_room_ops at_room_keeps simon.update_game_inv\<close>)
    qed (use c step Games in \<open>auto simp: tick_step_def move_to_def sound_def\<close>)
  qed (use c step in \<open>auto simp: tick_step_def move_to_def sound_def split: if_splits\<close>)
qed (use c step in \<open>auto simp: sound_def relink_def move_to_def split: if_splits\<close>)

lemma sound_run:
  "consistent (ts_world s) \<Longrightarrow> run_fresh G es s \<Longrightarrow> thread_run G es s = Some (r, s') \<Longrightarrow> sound r s'"
proof (induction es arbitrary: s)
  case (Cons e es)
  obtain r1 s1 where step: "thread_step G e s = Some (r1, s1)" using Cons.prems(3) by (auto split: option.splits)
  have ok: "sound r1 s1" using sound_step [OF Cons.prems(1) _ step] Cons.prems(2) by simp
  show ?case using Cons.IH [of s1] Cons.prems ok step by (cases r1) (auto simp: sound_def)
qed (simp add: sound_def)

subsection \<open>Ticks end\<close>

text \<open>\<open>ends G s\<close>: enough steps of the tick alone lead to its end, or to an exception.\<close>

definition ends :: "global_executor command_map \<Rightarrow> threads \<Rightarrow> bool" where
  "ends G s \<longleftrightarrow> (\<exists>n r s'. thread_run G (replicate n Tick_step) s = Some (r, s') \<and> (r = Inr () \<longrightarrow> ts_phase s' = Between))"

lemma ends_done: "ts_phase s = Between \<Longrightarrow> ends G s"
  unfolding ends_def by (rule exI [of _ 0]) simp

lemma ends_step:
  assumes "tick_step G s = Some (r, s1)" and "r = Inr () \<Longrightarrow> ends G s1"
  shows "ends G s"
proof (cases r)
  case (Inl x)
  then show ?thesis using assms(1) unfolding ends_def by (intro exI [of _ 1]) simp
next
  case (Inr u)
  then obtain n r' s' where "thread_run G (replicate n Tick_step) s1 = Some (r', s')" "r' = Inr () \<longrightarrow> ts_phase s' = Between"
    using assms(2) by (auto simp: ends_def)
  then show ?thesis using assms(1) Inr unfolding ends_def by (intro exI [of _ "Suc n"]) simp
qed

lemma ends_games: "ts_phase s = Games E refs \<Longrightarrow> ends G s"
proof (induction refs arbitrary: s)
  case Nil
  then have "tick_step G s = Some (Inr (), s\<lparr>ts_phase := Between\<rparr>)" by (simp add: tick_step_def move_to_def)
  then show ?case by (rule ends_step) (simp add: ends_done)
next
  case (Cons ref refs)
  obtain r w where "at_room ref (update_game (o_game E)) (ts_world s) = (r, w)" by fastforce
  then have "tick_step G s = Some (r, s\<lparr>ts_phase := Games E refs, ts_world := w\<rparr>)"
    using Cons.prems by (simp add: tick_step_def in_world_def)
  then show ?case by (rule ends_step) (simp add: Cons.IH)
qed

lemma ends_packets: "ts_phase s = Packets E us \<Longrightarrow> ends G s"
proof (induction us arbitrary: s)
  case Nil
  then have "tick_step G s = Some (Inr (), s\<lparr>ts_phase := Games E (rooms (ts_world s))\<rparr>)"
    by (simp add: tick_step_def move_to_def)
  then show ?case by (rule ends_step) (simp add: ends_games)
next
  case (Cons u us)
  show ?case
    using Cons.prems
  proof (induction "ts_inbox s u" arbitrary: s)
    case Nil
    then have "tick_step G s = Some (Inr (), s\<lparr>ts_phase := Packets E us\<rparr>)"
      using \<open>[] = ts_inbox s u\<close> [symmetric] by (simp add: tick_step_def move_to_def)
    then show ?case by (rule ends_step) (simp add: Cons.IH)
  next
    case (Cons p rest)
    obtain E' msg r w where p: "p = (E', msg)" and "process_packet G E' u msg (ts_world s) = (r, w)"
      by (metis surj_pair)
    then have "tick_step G s = Some (r, s\<lparr>ts_inbox := (ts_inbox s)(u := rest), ts_log := ts_log s @ [Packet_of u], ts_world := w\<rparr>)"
      using Cons.prems \<open>p # rest = ts_inbox s u\<close> [symmetric] by (simp add: tick_step_def in_world_def)
    then show ?case by (rule ends_step) (rule Cons.hyps(1), simp_all add: Cons.prems)
  qed
qed

lemma ends_departed:
  assumes "ts_phase s = Departed E" and "ts_lock s = None"
  shows "ends G s"
proof -
  have "tick_step G s = Some (Inr (), s\<lparr>ts_phase := Packets E (g_clients (ts_registry s))\<rparr>)"
    using assms by (simp add: tick_step_def move_to_def)
  then show ?thesis by (rule ends_step) (simp add: ends_packets)
qed

lemma ends_departures: "ts_phase s = Departures E us \<Longrightarrow> ts_lock s = None \<Longrightarrow> ends G s"
proof (induction us arbitrary: s)
  case Nil
  then have "tick_step G s = Some (Inr (), s\<lparr>ts_registry := (ts_registry s)\<lparr>g_closed := []\<rparr>, ts_phase := Departed E\<rparr>)"
    by (simp add: tick_step_def move_to_def)
  then show ?case by (rule ends_step) (rule ends_departed, simp_all add: Nil)
next
  case (Cons u us)
  obtain r w where "process_disconnect (o_game E) u (ts_world s) = (r, w)" by fastforce
  then have "tick_step G s = Some (r, s\<lparr>ts_phase := Departures E us, ts_log := ts_log s @ [Departure u], ts_world := w\<rparr>)"
    using Cons.prems by (simp add: tick_step_def in_world_def)
  then show ?case by (rule ends_step) (rule Cons.IH, simp_all add: Cons.prems)
qed

lemma ends_unlocked: "ts_lock s = None \<Longrightarrow> ends G s"
  by (cases "ts_phase s") (auto intro: ends_done ends_departures ends_departed ends_packets ends_games)

text \<open>The tick gives the mutex back without anyone's help.\<close>

lemma departures_drained:
  "\<exists>n r s'. thread_run G (replicate n Tick_step) s = Some (r, s') \<and>
    (r = Inr () \<longrightarrow> \<not> mutex_held (ts_phase s') \<and> ts_link s' = ts_link s \<and> ts_lock s' = ts_lock s)"
  (is "\<exists>n. ?P n s")
proof (cases "ts_phase s")
  case (Departures E us)
  then show ?thesis
  proof (induction us arbitrary: s)
    case Nil
    then have "tick_step G s = Some (Inr (), s\<lparr>ts_registry := (ts_registry s)\<lparr>g_closed := []\<rparr>, ts_phase := Departed E\<rparr>)"
      by (simp add: tick_step_def move_to_def)
    then show ?case by (intro exI [of _ 1]) simp
  next
    case (Cons u us)
    obtain r w where r: "process_disconnect (o_game E) u (ts_world s) = (r, w)" by fastforce
    let ?s = "s\<lparr>ts_phase := Departures E us, ts_log := ts_log s @ [Departure u], ts_world := w\<rparr>"
    have step: "tick_step G s = Some (r, ?s)" using Cons.prems r by (simp add: tick_step_def in_world_def)
    obtain n where n: "?P n ?s" using Cons.IH [of ?s] by auto
    show ?case
    proof (cases r)
      case (Inl x)
      then show ?thesis using step by (intro exI [of _ 1]) simp
    next
      case (Inr i)
      then show ?thesis using step n by (intro exI [of _ "Suc n"]) auto
    qed
  qed
qed (rule exI [of _ 0], simp)+

lemma close_finishes:
  assumes "\<And>u. ts_lock s = Some u \<longleftrightarrow> ts_link s u \<in> {Locking, Closing}" and "\<not> mutex_held (ts_phase s)"
  shows "\<exists>closing s'. thread_run G closing s = Some (Inr (), s') \<and> ts_lock s' = None \<and>
    (\<exists>u. closing \<in> {[], [End_close u], [Push_close u, End_close u]})"
proof (cases "ts_lock s")
  case None
  then show ?thesis by (intro exI [of _ "[]"]) simp
next
  case (Some u)
  then consider "ts_link s u = Locking" | "ts_link s u = Closing" using assms(1) [of u] by auto
  then show ?thesis
  proof cases
    case 1
    then show ?thesis using assms(2) by (intro exI [of _ "[Push_close u, End_close u]"]) (simp add: relink_def)
  next
    case 2
    then show ?thesis by (intro exI [of _ "[End_close u]"]) (simp add: relink_def)
  qed
qed

subsection \<open>Properties\<close>

definition demo_id :: session_id where
  "demo_id = SessionId 1"

definition demo_calls :: outside where
  "demo_calls = demo_outside\<lparr>o_print_uuid := (\<lambda>_. ''id1'')\<rparr>"

definition demo_visit :: "thread_event list" where
  "demo_visit = [Register demo_id, Greet demo_id, Admit demo_calls demo_id, Arrive demo_id demo_calls ''hello'']"

definition demo_farewell :: "thread_event list" where
  "demo_farewell = [Begin_tick demo_calls, Begin_close demo_id, Tick_step, Push_close demo_id, End_close demo_id]"

lemma demo_nickname: "make_nickname ''id1'' = Inr ''id1''"
  by code_simp

lemmas demo_unfold = demo_visit_def demo_farewell_def demo_calls_def demo_id_def new_threads_def demo_world_def new_world_def
  in_world_def move_to_def relink_def tick_step_def greet_user_def make_user_def new_user_def session_id_string_def
  manager_add_user_def say_def modify_user_object_def registry_accept_def act_simps demo_nickname

lemma demo_visit_runs:
  "\<exists>s. thread_run demo_globals demo_visit (new_threads demo_world) = Some (Inr (), s) \<and> ts_inbox s demo_id \<noteq> []"
  by (simp add: demo_unfold)

lemma demo_farewell_runs:
  "\<exists>s. thread_run demo_globals (demo_visit @ demo_farewell) (new_threads demo_world) = Some (Inr (), s) \<and>
    ts_link s demo_id = Gone \<and> ts_log s = []"
  by (simp add: demo_unfold)

lemma demo_closing_runs:
  "\<exists>s. thread_run demo_globals (demo_visit @ [Begin_tick demo_calls, Begin_close demo_id]) (new_threads demo_world) =
    Some (Inr (), s) \<and> ts_lock s = Some demo_id"
  by (simp add: demo_unfold)

text \<open>C6. In every interleaving of the network threads with the ticks, each client whose connection is gone is
  either still on the list of the disconnected or was worked off by a tick, exactly once; and after
  that no packet of it is ever processed, although the packets that it left behind are still in its
  queue.\<close>

theorem departed_clients_send_nothing:
  assumes "thread_run G es (new_threads w) = Some (r, s)"
  shows "quiet_after (ts_log s) \<and> distinct (departures (ts_log s)) \<and>
    (\<forall>u. ts_link s u = Gone \<longrightarrow>
       u \<in> set (departures (ts_log s)) \<and> u \<notin> set (waiting_departures s) \<or>
       u \<notin> set (departures (ts_log s)) \<and> u \<in> set (waiting_departures s))"
proof -
  note o = orderlyD [OF orderly_run [OF assms]]
  have "ts_link s u = Gone \<Longrightarrow> u \<in> set (departures (ts_log s)) \<union> set (waiting_departures s)" for u
    using o(4) [of u] by auto
  then show ?thesis using o(3,6) by auto
qed

theorem departed_clients_send_nothing_witness:
  "\<exists>s. thread_run demo_globals (demo_visit @ demo_farewell) (new_threads demo_world) = Some (Inr (), s) \<and>
    demo_id \<in> set (waiting_departures s)"
  using demo_farewell_runs departed_clients_send_nothing [of demo_globals "demo_visit @ demo_farewell" demo_world "Inr ()"]
  by fastforce

text \<open>C7. In every interleaving, a client whose packets are waiting has a user: the accept handler registers
  the client before it makes the user, so the tick may come across a client without one, but not with
  a packet. So no command of a client meets a null user, whatever the timing.\<close>

theorem packets_find_their_user:
  assumes "thread_run G es (new_threads (new_world us rs)) = Some (Inr (), s)" and "ts_inbox s u \<noteq> []"
  shows "manager_find_user u (ts_world s) = Some u \<and> fst (cmd_whoami u (ts_world s)) = Inr ()"
proof -
  have "peopled s" using peopled_run [OF peopled_new orderly_new assms(1)] .
  then have "w_known (ts_world s) u = Some u" using assms(2) by (simp add: peopled_def knows_def)
  then show ?thesis
    by (simp add: manager_find_user_def find_in_map_def cmd_whoami_def with_user_def say_def act_simps)
qed

theorem packets_find_their_user_witness:
  "\<exists>s. thread_run demo_globals demo_visit (new_threads demo_world) = Some (Inr (), s) \<and>
    manager_find_user demo_id (ts_world s) = Some demo_id"
  using demo_visit_runs packets_find_their_user [of demo_globals demo_visit demo_users "\<lambda>_. new_room 0 False (\<lambda>_. 0) []"]
  unfolding demo_world_def by blast

text \<open>C8. The two locks cannot deadlock, although a closing connection waits for the mutex of the tick while it
  holds the lock that the tick needs next, and a tick in which nothing new arrives ends: from every
  state that can be reached, some steps of the tick alone, then the remaining steps of the connection
  that is just closing (if any), then steps of the tick alone lead to the end of the tick or to an
  exception.\<close>

theorem quiet_ticks_end:
  assumes "thread_run G es (new_threads w) = Some (r0, s)"
  shows "\<exists>m closing n r s'. thread_run G (replicate m Tick_step @ closing @ replicate n Tick_step) s = Some (r, s') \<and>
    (\<exists>u. closing \<in> {[], [End_close u], [Push_close u, End_close u]}) \<and> (r = Inr () \<longrightarrow> ts_phase s' = Between)"
proof -
  obtain m r s1 where m: "thread_run G (replicate m Tick_step) s = Some (r, s1)"
    and s1: "r = Inr () \<longrightarrow> \<not> mutex_held (ts_phase s1) \<and> ts_link s1 = ts_link s \<and> ts_lock s1 = ts_lock s"
    using departures_drained [of G s] by blast
  show ?thesis
  proof (cases r)
    case (Inl x)
    then show ?thesis using m by (intro exI [of _ m] exI [of _ "[]"] exI [of _ 0]) auto
  next
    case (Inr i)
    have "ts_lock s1 = Some u \<longleftrightarrow> ts_link s1 u \<in> {Locking, Closing}" for u
      using orderlyD(2) [OF orderly_run [OF assms]] s1 Inr by simp
    from close_finishes [OF this, of G] obtain closing s2 where c: "thread_run G closing s1 = Some (Inr (), s2)"
      "ts_lock s2 = None" "\<exists>u. closing \<in> {[], [End_close u], [Push_close u, End_close u]}"
      using s1 Inr by auto
    obtain n r' s' where "thread_run G (replicate n Tick_step) s2 = Some (r', s')" "r' = Inr () \<longrightarrow> ts_phase s' = Between"
      using ends_unlocked [OF c(2), of G] by (auto simp: ends_def)
    then show ?thesis
      using m c Inr by (intro exI [of _ m] exI [of _ closing] exI [of _ n]) (auto simp: thread_run_append)
  qed
qed

theorem quiet_ticks_end_witness:
  "\<exists>s m closing n r s'.
    thread_run demo_globals (demo_visit @ [Begin_tick demo_calls, Begin_close demo_id]) (new_threads demo_world) = Some (Inr (), s) \<and>
    ts_lock s = Some demo_id \<and>
    thread_run demo_globals (replicate m Tick_step @ closing @ replicate n Tick_step) s = Some (r, s') \<and>
    (r = Inr () \<longrightarrow> ts_phase s' = Between)"
proof -
  obtain s where s: "thread_run demo_globals (demo_visit @ [Begin_tick demo_calls, Begin_close demo_id]) (new_threads demo_world) =
      Some (Inr (), s)" "ts_lock s = Some demo_id"
    using demo_closing_runs by blast
  from quiet_ticks_end [OF s(1)] show ?thesis using s by blast
qed

text \<open>A tick does not end while a client sends at least as fast as its packets are processed: the loop over
  the packets of one client has no bound, and the other clients and the games wait.\<close>

lemma busy_client_step:
  assumes "ts_phase s = Packets E (u # us)" and "ts_link s u = Live"
  shows "\<exists>r s'. thread_run G [Arrive u E' msg, Tick_step] s = Some (r, s') \<and> ts_phase s' = Packets E (u # us) \<and> ts_link s' u = Live"
  using assms by (cases "ts_inbox s u") (auto simp: tick_step_def in_world_def split: prod.split sum.split)

theorem busy_client_holds_tick:
  assumes "ts_phase s = Packets E (u # us)" and "ts_link s u = Live"
  shows "\<exists>r s'. thread_run G (concat (replicate n [Arrive u E' msg, Tick_step])) s = Some (r, s') \<and>
    ts_phase s' = Packets E (u # us)"
  using assms
proof (induction n arbitrary: s)
  case (Suc n)
  obtain r s1 where s1: "thread_run G [Arrive u E' msg, Tick_step] s = Some (r, s1)"
    "ts_phase s1 = Packets E (u # us)" "ts_link s1 u = Live"
    using busy_client_step [OF Suc.prems] by blast
  have "thread_run G (concat (replicate (Suc n) [Arrive u E' msg, Tick_step])) s =
    (case r of Inl x \<Rightarrow> Some (Inl x, s1) | Inr _ \<Rightarrow> thread_run G (concat (replicate n [Arrive u E' msg, Tick_step])) s1)"
    using thread_run_append [of G "[Arrive u E' msg, Tick_step]" "concat (replicate n [Arrive u E' msg, Tick_step])" s] s1(1)
    by simp
  then show ?case using Suc.IH [OF s1(2,3)] s1 by (cases r) auto
qed simp

text \<open>The invariants of the server hold between the threads as well.\<close>

theorem interleaved_rooms_sound:
  assumes "run_fresh G es (new_threads (new_world us (\<lambda>_. new_room now False sig code)))"
    and "thread_run G es (new_threads (new_world us (\<lambda>_. new_room now False sig code))) = Some (r, s)"
  shows "rooms_ok (ts_world s) \<and> ((\<exists>x. r = Inl (Undefined x)) \<or> seated (ts_world s))"
proof -
  let ?w = "new_world us (\<lambda>_. new_room now False sig code)"
  have "consistent (ts_world (new_threads ?w))"
    using empty_world_seats by (simp add: new_threads_def rooms_ok_def new_world_def room_inv_new)
  from sound_run [OF this assms] show ?thesis by (simp add: sound_def)
qed

end
