(* ===== verification/Simon_Rounds.thy ===== *)
theory Simon_Rounds
  imports Simon_Game
begin

section \<open>The rules of Simon, and that the code plays by them\<close>

text \<open>
  An abstract game of Simon: who plays, who is out, who is Simon, what has to be repeated and by whom,
  and the games that were won. \<open>Room::process_message\<close> with \<open>EXAMPLE\_Simon\<close> is shown to refine it, for
  every sequence of messages, without an exception. Sets of ids stand for the members and the cached
  sets of the room, and for \<open>\_incomplete\<close>.
\<close>

record round =
  rd_players :: "session_id set"
  rd_out :: "session_id set"
  rd_simon :: session_id
  rd_word :: string
  rd_pending :: "session_id set"
  rd_running :: bool
  rd_wins :: "session_id \<Rightarrow> 32 word"

definition alive :: "round \<Rightarrow> session_id set" where
  "alive d = rd_players d - rd_out d"

text \<open>Simon alone is left: the game is over. Simon and one player are left: this player wins.\<close>

definition judge :: "round \<Rightarrow> round" where
  "judge d = (if card (alive d) = 1 then d\<lparr>rd_out := {}, rd_running := False\<rparr>
     else if card (alive d) = 2 then d\<lparr>rd_wins := (\<lambda>u. if u \<in> alive d - {rd_simon d} then rd_wins d u + 1 else rd_wins d u)\<rparr>
     else d)"

text \<open>Simon speaks: who has not answered is out; the others have to repeat it.\<close>

definition simon_says :: "string \<Rightarrow> round \<Rightarrow> round" where
  "simon_says msg d = (let e = judge (d\<lparr>rd_out := rd_out d \<union> rd_pending d\<rparr>) in
     if rd_running e then e\<lparr>rd_word := msg, rd_pending := alive e - {rd_simon e}\<rparr> else e)"

text \<open>A player who has to answer does.\<close>

definition player_answers :: "session_id \<Rightarrow> string \<Rightarrow> round \<Rightarrow> round" where
  "player_answers u msg d = (let e = (if msg = rd_word d then d else judge (d\<lparr>rd_out := insert u (rd_out d)\<rparr>)) in
     e\<lparr>rd_pending := rd_pending e - {u}\<rparr>)"

text \<open>Everything else is talk.\<close>

definition message_said :: "session_id \<Rightarrow> string \<Rightarrow> round \<Rightarrow> round" where
  "message_said u msg d = (if \<not> rd_running d \<or> u \<notin> alive d then d
     else if u = rd_simon d then simon_says msg d
     else if u \<in> rd_pending d then player_answers u msg d
     else d)"

text \<open>Between the messages of a running game.\<close>

definition fair :: "round \<Rightarrow> bool" where
  "fair d \<longleftrightarrow> (rd_running d \<longrightarrow> rd_simon d \<in> alive d \<and> rd_pending d \<subseteq> alive d - {rd_simon d})"

subsection \<open>What the code stands for\<close>

definition view :: "simon ctx \<Rightarrow> round" where
  "view s = (let r = c_room s; g = the (r_game r) in \<lparr>
     rd_players = {u. \<exists>m. find_member u r = Some m \<and> is_player m},
     rd_out = {u. \<exists>m. find_member u r = Some m \<and> is_disqualified m},
     rd_simon = sm_simon g, rd_word = sm_message g, rd_pending = fst ` set (sm_incomplete g),
     rd_running = is_game_active r, rd_wins = (\<lambda>u. ps_wins (u_stats (c_users s u)))\<rparr>)"

definition board_ok :: "simon ctx \<Rightarrow> bool" where
  "board_ok s \<longleftrightarrow> room_inv (c_room s) \<and> length (r_members (c_room s)) < 2 ^ 64 \<and>
     (\<exists>g. r_game (c_room s) = Some g \<and> om_ok (sm_incomplete g))"

lemma alive_view:
  "room_inv (c_room s) \<Longrightarrow> alive (view s) = snd ` set (r_players (c_room s))"
proof -
  assume inv: "room_inv (c_room s)"
  then have core: "room_core (c_room s)" and set: "set (r_players (c_room s)) = entries playing (r_members (c_room s))"
    by (simp_all add: room_inv_def room_core_def cache_ok_def)
  have "u \<in> alive (view s) \<longleftrightarrow> (\<exists>m. find_member u (c_room s) = Some m \<and> playing m)" for u
    by (cases "find_member u (c_room s)") (simp_all add: alive_def view_def Let_def)
  then have "u \<in> alive (view s) \<longleftrightarrow> (\<exists>m. (u, m) \<in> set (r_members (c_room s)) \<and> playing m)" for u
    using find_member_core [OF core, of u] by simp
  then show "alive (view s) = snd ` set (r_players (c_room s))"
    unfolding set by (force simp: entries_def image_iff)
qed

lemma card_alive:
  assumes "board_ok s"
  shows "active_player_count (c_room s) = of_nat (card (alive (view s)))" and "card (alive (view s)) < 2 ^ 64"
    and "length (r_players (c_room s)) = card (alive (view s))"
proof -
  have inv: "room_inv (c_room s)" and bound: "length (r_members (c_room s)) < 2 ^ 64"
    using assms by (simp_all add: board_ok_def)
  have d: "distinct (map snd (r_players (c_room s)))" using core_players_distinct inv by (auto simp: room_inv_def)
  have card: "card (alive (view s)) = length (r_players (c_room s))"
    using distinct_card [OF d] alive_view [OF inv] by simp
  have "set (map snd (r_players (c_room s))) \<subseteq> set (map fst (r_members (c_room s)))"
    using core_players_members [of "c_room s"] inv unfolding find_member_keys by (auto simp: room_inv_def)
  then have "card (alive (view s)) \<le> length (map fst (r_members (c_room s)))"
    using alive_view [OF inv] card_mono [OF finite_set] card_length order_trans
    by (metis (no_types, lifting) list.set_map)
  then show "card (alive (view s)) < 2 ^ 64" using bound by simp
  show "active_player_count (c_room s) = of_nat (card (alive (view s)))" by (simp add: active_player_count_def card)
  show "length (r_players (c_room s)) = card (alive (view s))" by (simp add: card)
qed

lemma find_player_alive:
  assumes "room_inv (c_room s)" and "u \<in> alive (view s)"
  shows "find_player u (c_room s) = Some u"
proof -
  obtain e where "e \<in> set (r_players (c_room s))" "snd e = u" using assms alive_view [OF assms(1)] by auto
  then obtain x where x: "find_if (r_players (c_room s)) (\<lambda>e. snd e = u) = Some x"
    by (cases "find_if (r_players (c_room s)) (\<lambda>e. snd e = u)") (auto simp: find_if_None)
  then show ?thesis using find_if_Some [OF x] by (simp add: find_player_def)
qed

subsection \<open>Actions on a board\<close>

text \<open>\<open>acts P m f\<close>: where \<open>P\<close> holds of the game, \<open>m\<close> returns, keeps the board in order, and does \<open>f\<close> to
  the game.\<close>

definition acts :: "(round \<Rightarrow> bool) \<Rightarrow> 'a simon_op \<Rightarrow> (round \<Rightarrow> round) \<Rightarrow> bool" where
  "acts P m f \<longleftrightarrow> (\<forall>s. board_ok s \<longrightarrow> P (view s) \<longrightarrow>
     (\<exists>a s'. m s = (Inr a, s') \<and> board_ok s' \<and> view s' = f (view s)))"

named_theorems plays \<open>what the parts of the controller do to the game\<close>

lemma actsD:
  assumes "acts P m f" and "board_ok s" and "P (view s)"
  obtains a s' where "m s = (Inr a, s')" "board_ok s'" "view s' = f (view s)"
  using assms unfolding acts_def by blast

lemma acts_weaken: "acts P m f \<Longrightarrow> (\<And>d. Q d \<Longrightarrow> P d) \<Longrightarrow> (\<And>d. Q d \<Longrightarrow> f d = g d) \<Longrightarrow> acts Q m g"
  unfolding acts_def by metis

lemma acts_return [plays]: "acts P (sreturn a) (\<lambda>d. d)"
  by (simp add: acts_def act_simps)

lemma acts_seq:
  assumes "acts P m f" and "acts Q n g" and "\<And>d. P d \<Longrightarrow> Q (f d)"
  shows "acts P (sseq m n) (\<lambda>d. g (f d))"
  unfolding acts_def
proof (intro allI impI)
  fix s
  assume s: "board_ok s" "P (view s)"
  obtain a s1 where m: "m s = (Inr a, s1)" "board_ok s1" "view s1 = f (view s)" using actsD [OF assms(1) s] .
  have "Q (view s1)" using assms(3) [OF s(2)] m(3) by simp
  from actsD [OF assms(2) m(2) this] obtain b s2 where "n s1 = (Inr b, s2)" "board_ok s2" "view s2 = g (view s1)" .
  then show "\<exists>b s2. sseq m n s = (Inr b, s2) \<and> board_ok s2 \<and> view s2 = g (f (view s))"
    using m by (simp add: act_simps)
qed

lemma acts_read:
  assumes "\<And>s. board_ok s \<Longrightarrow> P (view s) \<Longrightarrow> acts (\<lambda>d. d = view s) (k (h (c_room s))) f"
  shows "acts P (sbind (read_room h) k) f"
  using assms unfolding acts_def by (fastforce simp: read_room_def act_simps)

lemma acts_game:
  assumes "\<And>g. acts (\<lambda>d. P d \<and> rd_simon d = sm_simon g \<and> rd_word d = sm_message g \<and>
    rd_pending d = fst ` set (sm_incomplete g) \<and> om_ok (sm_incomplete g)) (k g) f"
  shows "acts P (sbind get_simon k) f"
  unfolding acts_def
proof (intro allI impI)
  fix s
  assume s: "board_ok s" "P (view s)"
  then obtain g where g: "r_game (c_room s) = Some g" "om_ok (sm_incomplete g)" by (auto simp: board_ok_def)
  then have "sbind get_simon k s = k g s" by (simp add: get_simon_def read_room_def act_simps)
  moreover have "rd_simon (view s) = sm_simon g" "rd_word (view s) = sm_message g"
    "rd_pending (view s) = fst ` set (sm_incomplete g)"
    using g(1) by (simp_all add: view_def Let_def)
  ultimately show "\<exists>a s'. sbind get_simon k s = (Inr a, s') \<and> board_ok s' \<and> view s' = f (view s)"
    using assms [of g, unfolded acts_def] s g(2) by simp
qed

lemma acts_say [plays]: "acts P (broadcast_message msg) (\<lambda>d. d)"
  by (auto simp: acts_def board_ok_def room_inv_def broadcast_run view_def)

lemma acts_send [plays]: "acts P (send_message u msg) (\<lambda>d. d)"
  by (auto simp: acts_def send_message_def act_simps board_ok_def view_def)

lemma acts_user_name: "(\<And>n. acts P (k n) f) \<Longrightarrow> acts P (sbind (user_name u) k) f"
  by (simp add: acts_def user_name_def act_simps)

lemma acts_simon_name:
  assumes "\<And>n. acts P (k n) f" and "\<And>d. P d \<Longrightarrow> rd_simon d \<in> alive d"
  shows "acts P (sbind simon_name k) f"
  unfolding acts_def
proof (intro allI impI)
  fix s
  assume s: "board_ok s" "P (view s)"
  then obtain g where g: "r_game (c_room s) = Some g" by (auto simp: board_ok_def)
  have "sm_simon g \<in> alive (view s)" using assms(2) [OF s(2)] g by (simp add: view_def Let_def)
  then have "find_player (sm_simon g) (c_room s) = Some (sm_simon g)"
    using s(1) by (simp add: board_ok_def find_player_alive)
  then have "sbind simon_name k s = k (u_name (c_users s (sm_simon g))) s"
    using g by (simp add: simon_name_def get_simon_def name_of_ptr_def user_name_def read_room_def act_simps)
  then show "\<exists>a s'. sbind simon_name k s = (Inr a, s') \<and> board_ok s' \<and> view s' = f (view s)"
    using assms(1) s unfolding acts_def by fastforce
qed

lemma acts_modify_game:
  assumes "\<And>g. om_ok (sm_incomplete g) \<Longrightarrow> om_ok (sm_incomplete (h g))"
    and "\<And>g d. P d \<Longrightarrow> rd_simon d = sm_simon g \<Longrightarrow> rd_word d = sm_message g \<Longrightarrow> rd_pending d = fst ` set (sm_incomplete g) \<Longrightarrow>
      f d = d\<lparr>rd_simon := sm_simon (h g), rd_word := sm_message (h g), rd_pending := fst ` set (sm_incomplete (h g))\<rparr>"
  shows "acts P (modify_simon h) f"
  unfolding acts_def
proof (intro allI impI)
  fix s
  assume s: "board_ok s" "P (view s)"
  then obtain g where g: "r_game (c_room s) = Some g" "om_ok (sm_incomplete g)" by (auto simp: board_ok_def)
  let ?s = "s\<lparr>c_room := (c_room s)\<lparr>r_game := Some (h g)\<rparr>\<rparr>"
  have "modify_simon h s = (Inr (), ?s)" using g(1) by (simp add: modify_simon_def modify_room_def act_simps)
  moreover have "board_ok ?s"
    using s(1) assms(1) [OF g(2)] room_inv_set_game [of "c_room s" "h g"] by (simp add: board_ok_def)
  moreover have "view ?s = f (view s)"
    using assms(2) [OF s(2), of g] g(1) by (simp add: view_def Let_def find_member_def is_game_active_def)
  ultimately show "\<exists>a s'. modify_simon h s = (Inr a, s') \<and> board_ok s' \<and> view s' = f (view s)" by simp
qed

lemma frame_length: "room_frame r' = room_frame r \<Longrightarrow> length (r_members r') = length (r_members r)"
  by (drule arg_cong [where f = "\<lambda>F. length (fst (snd F))"]) (simp add: room_frame_def)

lemma board_room:
  assumes "board_ok s" and "room_inv (f (c_room s))" and "room_frame (f (c_room s)) = room_frame (c_room s)"
    and "r_game (f (c_room s)) = r_game (c_room s)"
  shows "board_ok (s\<lparr>c_room := f (c_room s)\<rparr>)"
  using assms frame_length [OF assms(3)] by (simp add: board_ok_def)

lemma find_disqualified:
  "find_member v (disqualify_player u r) =
     (if v = u then map_option (\<lambda>m. if is_player m then m\<lparr>m_disqualified := True\<rparr> else m) (find_member u r) else find_member v r)"
proof (cases "find_member u r")
  case (Some m)
  then show ?thesis
    by (simp add: disqualify_player_def) (simp add: find_member_def guarded_members om_map_of_modify)
qed (simp add: disqualify_player_def)

lemma disqualify_game [simp]: "r_game (disqualify_player u r) = r_game r"
  by (simp add: disqualify_player_def split: option.split)

lemma acts_disqualify:
  assumes "\<And>d. P d \<Longrightarrow> u \<in> rd_players d"
  shows "acts P (modify_room (disqualify_player u)) (\<lambda>d. d\<lparr>rd_out := insert u (rd_out d)\<rparr>)"
  unfolding acts_def
proof (intro allI impI)
  fix s
  assume s: "board_ok s" "P (view s)"
  let ?s = "s\<lparr>c_room := disqualify_player u (c_room s)\<rparr>"
  obtain m where "find_member u (c_room s) = Some m" "is_player m"
    using assms [OF s(2)] by (auto simp: view_def Let_def)
  then have "view ?s = (view s)\<lparr>rd_out := insert u (rd_out (view s))\<rparr>"
    by (auto simp: view_def Let_def find_disqualified is_game_active_def member_kinds)
  moreover have "board_ok ?s"
    using s(1) room_core_disqualify [of "c_room s" u] room_inv_disqualify [of "c_room s" u]
    by (intro board_room) (auto simp: board_ok_def room_inv_def)
  ultimately show "\<exists>a s'. modify_room (disqualify_player u) s = (Inr a, s') \<and> board_ok s' \<and>
      view s' = (view s)\<lparr>rd_out := insert u (rd_out (view s))\<rparr>"
    by (simp add: modify_room_def act_simps)
qed

lemma not_disqualified: "\<not> m_disqualified m \<Longrightarrow> m\<lparr>m_disqualified := False\<rparr> = m"
  by (cases m) simp

lemma find_reset_one:
  "find_member v (reset_player u r) =
     (if v = u then map_option (\<lambda>m. m\<lparr>m_disqualified := False\<rparr>) (find_member u r) else find_member v r)"
proof (cases "find_member u r")
  case (Some m)
  then show ?thesis
    by (simp add: reset_player_def not_disqualified) (simp add: find_member_def guarded_members om_map_of_modify)
qed (simp add: reset_player_def)

lemma find_reset_fold:
  "find_member v (fold reset_player us r) =
     (if v \<in> set us then map_option (\<lambda>m. m\<lparr>m_disqualified := False\<rparr>) (find_member v r) else find_member v r)"
  by (induction us arbitrary: r) (auto simp: find_reset_one option.map_comp comp_def)

lemma reset_fold_game [simp]: "r_game (fold reset_player us r) = r_game r"
  by (induction us arbitrary: r) (simp_all add: reset_player_def split: option.split)

lemma find_ended: "find_member v (end_game r) = map_option (\<lambda>m. m\<lparr>m_disqualified := False\<rparr>) (find_member v r)"
proof -
  have "find_member v (end_game r) = find_member v (reset_players r)" by (simp add: end_game_def find_member_def)
  then show ?thesis
    using find_member_keys [of v r] by (auto simp: reset_players_def find_reset_fold)
qed

lemma acts_end: "acts P (modify_room end_game) (\<lambda>d. d\<lparr>rd_out := {}, rd_running := False\<rparr>)"
  unfolding acts_def
proof (intro allI impI)
  fix s
  assume s: "board_ok s" "P (view s)"
  let ?s = "s\<lparr>c_room := end_game (c_room s)\<rparr>"
  have game: "r_game (end_game (c_room s)) = r_game (c_room s)" "r_started (end_game (c_room s)) = False"
    by (simp_all add: end_game_def reset_players_def)
  have "view ?s = (view s)\<lparr>rd_out := {}, rd_running := False\<rparr>"
    by (auto simp: view_def Let_def find_ended game is_game_active_def member_kinds)
  moreover have "board_ok ?s"
    using s(1) room_core_end_game [of "c_room s"] room_inv_end_game [of "c_room s"] game
    by (intro board_room) (auto simp: board_ok_def room_inv_def)
  ultimately show "\<exists>a s'. modify_room end_game s = (Inr a, s') \<and> board_ok s' \<and>
      view s' = (view s)\<lparr>rd_out := {}, rd_running := False\<rparr>"
    by (simp add: modify_room_def act_simps)
qed

lemma acts_win:
  "acts P (modify_user u (\<lambda>x. x\<lparr>u_stats := increment_wins (u_stats x)\<rparr>))
     (\<lambda>d. d\<lparr>rd_wins := (rd_wins d)(u := rd_wins d u + 1)\<rparr>)"
  by (auto simp: acts_def modify_user_def act_simps board_ok_def view_def Let_def increment_wins_def)

subsection \<open>The parts of the controller\<close>

lemma others_of_two:
  assumes "card A = 2" and "a \<in> A" and "b \<in> A" and "b \<noteq> a"
  shows "A - {a} = {b}"
proof -
  have "card (A - {a}) = 1" using assms(1,2) card_Diff_singleton [of a A] by simp
  then obtain c where "A - {a} = {c}" by (auto simp: card_1_singleton_iff)
  moreover have "b \<in> A - {a}" using assms(3,4) by simp
  ultimately show ?thesis by simp
qed

lemma count_word: "n < 2 ^ 64 \<Longrightarrow> k < 2 ^ 64 \<Longrightarrow> (of_nat n = (of_nat k :: 64 word)) \<longleftrightarrow> n = k"
  by (simp add: word_of_nat_eq_iff take_bit_nat_eq_self)


lemma acts_winner:
  "acts (\<lambda>d. rd_simon d \<in> alive d \<and> card (alive d) = 2)
     (sbind get_simon (\<lambda>g. sbind (read_room r_players) (\<lambda>ps.
         case find_if ps (\<lambda>e. snd e \<noteq> sm_simon g) of
           None \<Rightarrow> undefined_behaviour Out_of_bounds
         | Some e \<Rightarrow> sbind (user_name (snd e)) (\<lambda>name. sseqs [
             broadcast_message (''[SIMON]: Game over! '' @ name @ '' wins!''),
             modify_user (snd e) (\<lambda>u. u\<lparr>u_stats := increment_wins (u_stats u)\<rparr>)]))))
     (\<lambda>d. d\<lparr>rd_wins := (\<lambda>u. if u \<in> alive d - {rd_simon d} then rd_wins d u + 1 else rd_wins d u)\<rparr>)"
  (is "acts ?P _ ?f")
proof (rule acts_game, rule acts_read, elim conjE)
  fix g s
  assume s: "board_ok s" "rd_simon (view s) \<in> alive (view s)" "card (alive (view s)) = 2" "rd_simon (view s) = sm_simon g"
  let ?ps = "r_players (c_room s)" and ?other = "\<lambda>e :: int \<times> session_id. snd e \<noteq> sm_simon g"
  have alive: "alive (view s) = snd ` set ?ps" using s(1) alive_view by (simp add: board_ok_def)
  have "card (alive (view s) - {sm_simon g}) = 1" using s by simp
  then obtain v where "v \<in> alive (view s)" "v \<noteq> sm_simon g" by (auto simp: card_1_singleton_iff)
  then have "find_if ?ps ?other \<noteq> None" unfolding find_if_None alive by auto
  then obtain e where e: "find_if ?ps ?other = Some e" by blast
  then have "snd e \<in> alive (view s)" "snd e \<noteq> sm_simon g" using find_if_Some [OF e] unfolding alive by auto
  then have "alive (view s) - {sm_simon g} = {snd e}" using others_of_two s by metis
  then have wins: "?f (view s) = (view s)\<lparr>rd_wins := (rd_wins (view s))(snd e := rd_wins (view s) (snd e) + 1)\<rparr>"
    using s(4) by (auto simp: fun_eq_iff intro!: arg_cong [where f = "\<lambda>w. (view s)\<lparr>rd_wins := w\<rparr>"])
  show "acts (\<lambda>d. d = view s) (case find_if ?ps ?other of
           None \<Rightarrow> undefined_behaviour Out_of_bounds
         | Some e \<Rightarrow> sbind (user_name (snd e)) (\<lambda>name. sseqs [
             broadcast_message (''[SIMON]: Game over! '' @ name @ '' wins!''),
             modify_user (snd e) (\<lambda>u. u\<lparr>u_stats := increment_wins (u_stats u)\<rparr>)])) ?f"
    unfolding e option.case sseqs.simps
    by (rule acts_weaken [OF acts_user_name [OF acts_seq [OF acts_say acts_seq [OF acts_win acts_return]]]])
      (use wins in auto)
qed

lemma acts_check_win: "acts (\<lambda>d. rd_simon d \<in> alive d) check_win judge"
  unfolding check_win_def
proof (rule acts_read)
  fix s
  assume s: "board_ok s" "rd_simon (view s) \<in> alive (view s)"
  note n = card_alive(1) [OF s(1)] and bound = card_alive(2) [OF s(1)]
  have word: "active_player_count (c_room s) = 1 \<longleftrightarrow> card (alive (view s)) = 1"
    "active_player_count (c_room s) = 2 \<longleftrightarrow> card (alive (view s)) = 2"
    using count_word [OF bound, of 1] count_word [OF bound, of 2] n by simp_all
  have over: "acts (\<lambda>d. d = view s) (sbind simon_name (\<lambda>name. sseqs [
      broadcast_message (''[SIMON]: Game over! Nobody could keep up with '' @ name), modify_room end_game]))
      (\<lambda>d. d\<lparr>rd_out := {}, rd_running := False\<rparr>)"
    unfolding sseqs.simps
    by (rule acts_weaken [OF acts_simon_name [where P = "\<lambda>d. d = view s", OF acts_seq [OF acts_say acts_seq [OF acts_end acts_return]]]])
      (use s(2) in auto)
  consider "card (alive (view s)) = 1" | "card (alive (view s)) = 2" | "card (alive (view s)) \<notin> {1, 2}" by blast
  then show "acts (\<lambda>d. d = view s) (if active_player_count (c_room s) = 1 then
       sbind simon_name (\<lambda>name. sseqs [
         broadcast_message (''[SIMON]: Game over! Nobody could keep up with '' @ name),
         modify_room end_game])
     else if active_player_count (c_room s) = 2 then
       sbind get_simon (\<lambda>g. sbind (read_room r_players) (\<lambda>ps.
         case find_if ps (\<lambda>e. snd e \<noteq> sm_simon g) of
           None \<Rightarrow> undefined_behaviour Out_of_bounds
         | Some e \<Rightarrow> sbind (user_name (snd e)) (\<lambda>name. sseqs [
             broadcast_message (''[SIMON]: Game over! '' @ name @ '' wins!''),
             modify_user (snd e) (\<lambda>u. u\<lparr>u_stats := increment_wins (u_stats u)\<rparr>)])))
     else sreturn ()) judge"
  proof cases
    case 1
    show ?thesis unfolding word if_P [OF 1] by (rule acts_weaken [OF over]) (use 1 in \<open>auto simp: judge_def\<close>)
  next
    case 2
    then have ne: "card (alive (view s)) \<noteq> 1" by simp
    show ?thesis unfolding word if_not_P [OF ne] if_P [OF 2]
      by (rule acts_weaken [OF acts_winner]) (use 2 s(2) in \<open>auto simp: judge_def\<close>)
  next
    case 3
    then have ne: "card (alive (view s)) \<noteq> 1" "card (alive (view s)) \<noteq> 2" by auto
    show ?thesis unfolding word if_not_P [OF ne(1)] if_not_P [OF ne(2)]
      by (rule acts_weaken [OF acts_return]) (use ne in \<open>auto simp: judge_def\<close>)
  qed
qed

lemma alive_update [simp]:
  "alive (d\<lparr>rd_wins := w\<rparr>) = alive d" "alive (d\<lparr>rd_running := b\<rparr>) = alive d" "alive (d\<lparr>rd_out := O'\<rparr>) = rd_players d - O'"
  "alive (d\<lparr>rd_simon := x\<rparr>) = alive d" "alive (d\<lparr>rd_word := m\<rparr>) = alive d" "alive (d\<lparr>rd_pending := p\<rparr>) = alive d"
  by (simp_all add: alive_def)

text \<open>Who has not answered is disqualified, one after the other.\<close>

lemma acts_disqualify_all:
  "distinct (map fst ps) \<Longrightarrow>
   acts (\<lambda>d. fst ` set ps \<subseteq> alive d)
     (sfor ps (\<lambda>fail. sbind (read_room (find_player (fst fail))) (\<lambda>player.
        sbind (name_of_ptr player) (\<lambda>name. sseqs [
          broadcast_message (''[SIMON]: '' @ name @ '' is disqualified! They couldn't keep up.''),
          modify_room (disqualify_player (fst fail))]))))
     (\<lambda>d. d\<lparr>rd_out := rd_out d \<union> fst ` set ps\<rparr>)"
proof (induction ps)
  case Nil
  show ?case by (auto intro!: acts_weaken [OF acts_return])
next
  case (Cons p ps)
  let ?u = "fst p"
  let ?body = "\<lambda>fail. sbind (read_room (find_player (fst fail))) (\<lambda>player.
        sbind (name_of_ptr player) (\<lambda>name. sseqs [
          broadcast_message (''[SIMON]: '' @ name @ '' is disqualified! They couldn't keep up.''),
          modify_room (disqualify_player (fst fail))]))"
  have one: "acts (\<lambda>d. ?u \<in> alive d) (?body p) (\<lambda>d. d\<lparr>rd_out := insert ?u (rd_out d)\<rparr>)"
  proof (rule acts_read)
    fix s
    assume s: "board_ok s" "?u \<in> alive (view s)"
    then have found: "find_player ?u (c_room s) = Some ?u" by (simp add: board_ok_def find_player_alive)
    have dq: "acts (\<lambda>d. d = view s) (modify_room (disqualify_player ?u)) (\<lambda>d. d\<lparr>rd_out := insert ?u (rd_out d)\<rparr>)"
      using s(2) by (intro acts_disqualify) (auto simp: alive_def)
    show "acts (\<lambda>d. d = view s) (sbind (name_of_ptr (find_player ?u (c_room s))) (\<lambda>name. sseqs [
          broadcast_message (''[SIMON]: '' @ name @ '' is disqualified! They couldn't keep up.''),
          modify_room (disqualify_player ?u)])) (\<lambda>d. d\<lparr>rd_out := insert ?u (rd_out d)\<rparr>)"
      unfolding found name_of_ptr_def option.case sseqs.simps
      by (rule acts_user_name, rule acts_seq [where P = "\<lambda>d. d = view s", OF acts_say acts_seq [OF dq acts_return], THEN acts_weaken]) auto
  qed
  have first: "acts (\<lambda>d. fst ` set (p # ps) \<subseteq> alive d) (?body p) (\<lambda>d. d\<lparr>rd_out := insert ?u (rd_out d)\<rparr>)"
    by (rule acts_weaken [OF one]) auto
  have rest: "acts (\<lambda>d. fst ` set ps \<subseteq> alive d) (sfor ps ?body) (\<lambda>d. d\<lparr>rd_out := rd_out d \<union> fst ` set ps\<rparr>)"
    using Cons.prems by (intro Cons.IH) simp
  show ?case
    unfolding sfor.simps
    by (rule acts_weaken [OF acts_seq [OF first rest]]) (use Cons.prems in \<open>auto simp: alive_def image_iff\<close>)
qed

subsection \<open>Messages\<close>

lemma acts_end_round:
  "acts (\<lambda>d. rd_simon d \<in> alive d \<and> rd_pending d \<subseteq> alive d - {rd_simon d}) end_round
     (\<lambda>d. judge (d\<lparr>rd_out := rd_out d \<union> rd_pending d\<rparr>))"
proof -
  have "acts (\<lambda>d. rd_simon d \<in> alive d \<and> rd_pending d \<subseteq> alive d - {rd_simon d})
      (sbind get_simon (\<lambda>g. sfor (sm_incomplete g) (\<lambda>fail.
        sbind (read_room (find_player (fst fail))) (\<lambda>player.
        sbind (name_of_ptr player) (\<lambda>name. sseqs [
          broadcast_message (''[SIMON]: '' @ name @ '' is disqualified! They couldn't keep up.''),
          modify_room (disqualify_player (fst fail))])))))
      (\<lambda>d. d\<lparr>rd_out := rd_out d \<union> rd_pending d\<rparr>)"
  proof (rule acts_game)
    fix g
    show "acts (\<lambda>d. (rd_simon d \<in> alive d \<and> rd_pending d \<subseteq> alive d - {rd_simon d}) \<and> rd_simon d = sm_simon g \<and>
        rd_word d = sm_message g \<and> rd_pending d = fst ` set (sm_incomplete g) \<and> om_ok (sm_incomplete g))
        (sfor (sm_incomplete g) (\<lambda>fail.
        sbind (read_room (find_player (fst fail))) (\<lambda>player.
        sbind (name_of_ptr player) (\<lambda>name. sseqs [
          broadcast_message (''[SIMON]: '' @ name @ '' is disqualified! They couldn't keep up.''),
          modify_room (disqualify_player (fst fail))]))))
        (\<lambda>d. d\<lparr>rd_out := rd_out d \<union> rd_pending d\<rparr>)"
    proof (cases "om_ok (sm_incomplete g)")
      case True
      show ?thesis
        by (rule acts_weaken [OF acts_disqualify_all [OF om_ok_distinct [OF True]]]) auto
    qed (simp add: acts_def)
  qed
  then show ?thesis
    unfolding end_round_def
    by (rule acts_seq [OF _ acts_check_win]) (auto simp: alive_def)
qed

text \<open>The loop of \<open>next\_round\<close>.\<close>

lemma acts_pending_loop:
  "acts (\<lambda>d. True) (sfor ps (\<lambda>e. swhen (snd e \<noteq> x)
      (modify_simon (\<lambda>g. g\<lparr>sm_incomplete := om_insert (snd e) () (sm_incomplete g)\<rparr>))))
    (\<lambda>d. d\<lparr>rd_pending := rd_pending d \<union> (snd ` set ps - {x})\<rparr>)"
proof (induction ps)
  case Nil
  show ?case by (auto intro!: acts_weaken [OF acts_return])
next
  case (Cons e ps)
  have "acts (\<lambda>d. True) (swhen (snd e \<noteq> x)
      (modify_simon (\<lambda>g. g\<lparr>sm_incomplete := om_insert (snd e) () (sm_incomplete g)\<rparr>)))
      (\<lambda>d. d\<lparr>rd_pending := rd_pending d \<union> ({snd e} - {x})\<rparr>)"
  proof (cases "snd e = x")
    case True
    then have "swhen (snd e \<noteq> x) m = sreturn ()" for m :: "unit simon_op" by (simp add: swhen_def)
    then show ?thesis using True by (simp only:) (rule acts_weaken [OF acts_return], simp_all)
  next
    case False
    then have eq: "swhen (snd e \<noteq> x) m = m" for m :: "unit simon_op" by (simp add: swhen_def)
    show ?thesis
      unfolding eq
    proof (rule acts_modify_game)
      fix g :: simon and d :: round
      assume "rd_simon d = sm_simon g" "rd_word d = sm_message g" "rd_pending d = fst ` set (sm_incomplete g)"
      moreover have "{snd e} - {x} = {snd e}" using False by auto
      ultimately show "d\<lparr>rd_pending := rd_pending d \<union> ({snd e} - {x})\<rparr> =
          d\<lparr>rd_simon := sm_simon (g\<lparr>sm_incomplete := om_insert (snd e) () (sm_incomplete g)\<rparr>),
            rd_word := sm_message (g\<lparr>sm_incomplete := om_insert (snd e) () (sm_incomplete g)\<rparr>),
            rd_pending := fst ` set (sm_incomplete (g\<lparr>sm_incomplete := om_insert (snd e) () (sm_incomplete g)\<rparr>))\<rparr>"
        by (cases d) (simp add: om_keys_insert)
    qed (simp add: om_ok_insert)
  qed
  note first = this
  have eq: "d\<lparr>rd_pending := rd_pending d \<union> ({snd e} - {x}) \<union> (snd ` set ps - {x})\<rparr> =
      d\<lparr>rd_pending := rd_pending d \<union> (insert (snd e) (snd ` set ps) - {x})\<rparr>" for d :: round
    by (rule arg_cong [where f = "\<lambda>p. d\<lparr>rd_pending := p\<rparr>"]) auto
  show ?case
    unfolding sfor.simps
    by (rule acts_weaken [OF acts_seq [OF first Cons.IH]]) (simp_all add: eq)
qed

lemma acts_next_round:
  "acts (\<lambda>d. rd_simon d \<in> alive d) (next_round msg)
     (\<lambda>d. d\<lparr>rd_word := msg, rd_pending := alive d - {rd_simon d}\<rparr>)"
proof -
  have set: "acts (\<lambda>d. rd_simon d \<in> alive d) (modify_simon (\<lambda>g. g\<lparr>sm_message := msg, sm_incomplete := []\<rparr>))
      (\<lambda>d. d\<lparr>rd_word := msg, rd_pending := {}\<rparr>)"
  proof (rule acts_modify_game)
    fix g :: simon and d :: round
    assume "rd_simon d = sm_simon g"
    then show "d\<lparr>rd_word := msg, rd_pending := {}\<rparr> =
        d\<lparr>rd_simon := sm_simon (g\<lparr>sm_message := msg, sm_incomplete := []\<rparr>),
          rd_word := sm_message (g\<lparr>sm_message := msg, sm_incomplete := []\<rparr>),
          rd_pending := fst ` set (sm_incomplete (g\<lparr>sm_message := msg, sm_incomplete := []\<rparr>))\<rparr>"
      by (cases d) simp
  qed simp
  have fill: "acts (\<lambda>d. rd_simon d \<in> alive d \<and> rd_pending d = {}) (sbind get_simon (\<lambda>g. sbind (read_room r_players) (\<lambda>ps.
       sfor ps (\<lambda>e. swhen (snd e \<noteq> sm_simon g)
         (modify_simon (\<lambda>g. g\<lparr>sm_incomplete := om_insert (snd e) () (sm_incomplete g)\<rparr>))))))
      (\<lambda>d. d\<lparr>rd_pending := alive d - {rd_simon d}\<rparr>)"
  proof (rule acts_game, rule acts_read, elim conjE)
    fix g s
    assume s: "board_ok s" "rd_pending (view s) = {}" "rd_simon (view s) = sm_simon g"
    have "alive (view s) = snd ` set (r_players (c_room s))" using s(1) alive_view by (simp add: board_ok_def)
    then show "acts (\<lambda>d. d = view s) (sfor (r_players (c_room s)) (\<lambda>e. swhen (snd e \<noteq> sm_simon g)
         (modify_simon (\<lambda>g. g\<lparr>sm_incomplete := om_insert (snd e) () (sm_incomplete g)\<rparr>))))
        (\<lambda>d. d\<lparr>rd_pending := alive d - {rd_simon d}\<rparr>)"
      by (intro acts_weaken [OF acts_pending_loop]) (use s in auto)
  qed
  have tell: "acts (\<lambda>d. rd_simon d \<in> alive d) (sbind simon_name (\<lambda>name. sbind get_simon (\<lambda>g.
       broadcast_message (''[SIMON]: '' @ name @ '' says: '' @ sm_message g)))) (\<lambda>d. d)"
    by (intro acts_simon_name acts_game acts_say)
  show ?thesis
    unfolding next_round_def sseqs.simps
    by (rule acts_weaken [OF acts_seq [OF set acts_seq [OF fill acts_seq [OF tell acts_return]]]]) auto
qed


lemma acts_message:
  "acts (\<lambda>d. rd_running d \<and> fair d \<and> u \<in> alive d) (simon_player_message trim u msg) (message_said u (trim msg))"
  unfolding simon_player_message_def
proof (rule acts_game)
  fix g
  let ?P = "\<lambda>d. (rd_running d \<and> fair d \<and> u \<in> alive d) \<and> rd_simon d = sm_simon g \<and>
    rd_word d = sm_message g \<and> rd_pending d = fst ` set (sm_incomplete g) \<and> om_ok (sm_incomplete g)"
  let ?erase = "modify_simon (\<lambda>g. g\<lparr>sm_incomplete := om_erase u (sm_incomplete g)\<rparr>)"
  have round: "acts ?P (sseq end_round (sbind (read_room is_game_active) (\<lambda>active.
         sseq (swhen active (next_round (trim msg))) (sreturn INTERCEPTED)))) (simon_says (trim msg))"
  proof -
    have go_on: "acts (\<lambda>d. rd_running d \<longrightarrow> rd_simon d \<in> alive d) (sbind (read_room is_game_active) (\<lambda>active.
         sseq (swhen active (next_round (trim msg))) (sreturn INTERCEPTED)))
        (\<lambda>d. if rd_running d then d\<lparr>rd_word := trim msg, rd_pending := alive d - {rd_simon d}\<rparr> else d)"
    proof (rule acts_read)
      fix s
      assume s: "rd_running (view s) \<longrightarrow> rd_simon (view s) \<in> alive (view s)"
      have a: "is_game_active (c_room s) = rd_running (view s)" by (simp add: view_def Let_def)
      show "acts (\<lambda>d. d = view s) (sseq (swhen (is_game_active (c_room s)) (next_round (trim msg))) (sreturn INTERCEPTED))
          (\<lambda>d. if rd_running d then d\<lparr>rd_word := trim msg, rd_pending := alive d - {rd_simon d}\<rparr> else d)"
      proof (cases "rd_running (view s)")
        case True
        then show ?thesis
          unfolding a swhen_def if_P [OF True]
          by (intro acts_weaken [OF acts_seq [OF acts_next_round acts_return]]) (use s in auto)
      next
        case False
        then show ?thesis
          unfolding a swhen_def if_not_P [OF False]
          by (intro acts_weaken [OF acts_seq [OF acts_return acts_return]]) auto
      qed
    qed
    have keep: "rd_simon (judge (d\<lparr>rd_out := rd_out d \<union> rd_pending d\<rparr>)) \<in> alive (judge (d\<lparr>rd_out := rd_out d \<union> rd_pending d\<rparr>))"
      if "rd_simon d \<in> alive d \<and> rd_pending d \<subseteq> alive d - {rd_simon d}" for d
      using that by (auto simp: judge_def alive_def)
    show ?thesis
      by (rule acts_weaken [OF acts_seq [OF acts_end_round go_on]])
        (use keep in blast, unfold fair_def, blast, simp add: simon_says_def Let_def)
  qed
  have erase: "acts P ?erase (\<lambda>d. d\<lparr>rd_pending := rd_pending d - {u}\<rparr>)" for P
  proof (rule acts_modify_game)
    fix g :: simon and d :: round
    assume "rd_simon d = sm_simon g" "rd_word d = sm_message g" "rd_pending d = fst ` set (sm_incomplete g)"
    then show "d\<lparr>rd_pending := rd_pending d - {u}\<rparr> =
        d\<lparr>rd_simon := sm_simon (g\<lparr>sm_incomplete := om_erase u (sm_incomplete g)\<rparr>),
          rd_word := sm_message (g\<lparr>sm_incomplete := om_erase u (sm_incomplete g)\<rparr>),
          rd_pending := fst ` set (sm_incomplete (g\<lparr>sm_incomplete := om_erase u (sm_incomplete g)\<rparr>))\<rparr>"
      by (cases d) (auto simp: om_set_erase)
  qed (simp add: om_ok_erase)
  have wrong: "acts (\<lambda>d. rd_simon d \<in> alive d \<and> u \<in> alive d \<and> u \<noteq> rd_simon d) (sbind (user_name u) (\<lambda>name. sseqs [
      broadcast_message (''[SIMON]: '' @ name @ '' is disqualified! They said: '' @ msg),
      sbind (read_room (find_player u)) (\<lambda>p. case p of
        None \<Rightarrow> undefined_behaviour Null_deref
      | Some v \<Rightarrow> modify_room (disqualify_player v)),
      check_win])) (\<lambda>d. judge (d\<lparr>rd_out := insert u (rd_out d)\<rparr>))"
  proof -
    have dq: "acts (\<lambda>d. rd_simon d \<in> alive d \<and> u \<in> alive d \<and> u \<noteq> rd_simon d)
        (sbind (read_room (find_player u)) (\<lambda>p. case p of
          None \<Rightarrow> undefined_behaviour Null_deref | Some v \<Rightarrow> modify_room (disqualify_player v)))
        (\<lambda>d. d\<lparr>rd_out := insert u (rd_out d)\<rparr>)"
    proof (rule acts_read, elim conjE)
      fix s
      assume s: "board_ok s" "u \<in> alive (view s)"
      then have found: "find_player u (c_room s) = Some u" by (simp add: board_ok_def find_player_alive)
      show "acts (\<lambda>d. d = view s) (case find_player u (c_room s) of
          None \<Rightarrow> undefined_behaviour Null_deref | Some v \<Rightarrow> modify_room (disqualify_player v))
          (\<lambda>d. d\<lparr>rd_out := insert u (rd_out d)\<rparr>)"
        unfolding found option.case by (rule acts_disqualify) (use s(2) in \<open>auto simp: alive_def\<close>)
    qed
    show ?thesis
      unfolding sseqs.simps
      by (rule acts_user_name,
          rule acts_weaken [OF acts_seq [where P = "\<lambda>d. rd_simon d \<in> alive d \<and> u \<in> alive d \<and> u \<noteq> rd_simon d",
            OF acts_say acts_seq [OF dq acts_seq [OF acts_check_win acts_return]]]])
        (auto simp: alive_def)
  qed
  show "acts ?P (if u = sm_simon g then
       sseq end_round (sbind (read_room is_game_active) (\<lambda>active.
         sseq (swhen active (next_round (trim msg))) (sreturn INTERCEPTED)))
     else if u \<in> fst ` set (sm_incomplete g) then
       sseq (swhen (trim msg \<noteq> sm_message g)
           (sbind (user_name u) (\<lambda>name. sseqs [
              broadcast_message (''[SIMON]: '' @ name @ '' is disqualified! They said: '' @ msg),
              sbind (read_room (find_player u)) (\<lambda>p. case p of
                None \<Rightarrow> undefined_behaviour Null_deref
              | Some v \<Rightarrow> modify_room (disqualify_player v)),
              check_win])))
         (sseq ?erase (sreturn INTERCEPTED))
     else sseq (send_message u ''If you want to speak in the Simon game, use /say'') (sreturn INTERCEPTED))
    (message_said u (trim msg))"
  proof (cases "u = sm_simon g")
    case True
    show ?thesis unfolding if_P [OF True]
      by (rule acts_weaken [OF round]) (use True in \<open>auto simp: message_said_def\<close>)
  next
    case False
    note ns = False
    show ?thesis
    proof (cases "u \<in> fst ` set (sm_incomplete g)")
      case True
      show ?thesis
      proof (cases "trim msg = sm_message g")
        case right: True
        have w: "swhen (trim msg \<noteq> sm_message g) m = sreturn ()" for m :: "unit simon_op"
          using right by (simp add: swhen_def)
        show ?thesis unfolding if_not_P [OF ns] if_P [OF True] w
          by (rule acts_weaken [OF acts_seq [OF acts_return acts_seq [OF erase acts_return]]])
            (use ns True right in \<open>auto simp: message_said_def player_answers_def\<close>)
      next
        case false: False
        have w: "swhen (trim msg \<noteq> sm_message g) m = m" for m :: "unit simon_op"
          using false by (simp add: swhen_def)
        show ?thesis unfolding if_not_P [OF ns] if_P [OF True] w
          by (rule acts_weaken [OF acts_seq [OF wrong acts_seq [OF erase acts_return]]])
            (use ns True false in \<open>auto simp: message_said_def player_answers_def fair_def Let_def\<close>)
      qed
    next
      case False
      show ?thesis unfolding if_not_P [OF ns] if_not_P [OF False]
        by (rule acts_weaken [OF acts_seq [OF acts_send acts_return]])
          (use ns False in \<open>auto simp: message_said_def\<close>)
    qed
  qed
qed


lemma intercepted_seq: "sseq m (sreturn a) s = (Inr b, s') \<Longrightarrow> b = a"
  by (auto simp: act_simps split: prod.splits sum.splits)

lemma simon_intercepts: "simon_player_message trim u msg s = (Inr a, s') \<Longrightarrow> a = INTERCEPTED"
  by (auto simp: simon_player_message_def act_simps split: prod.splits sum.splits if_splits)

lemma acts_process_message:
  "acts fair (process_message (simon_controller trim) u msg) (message_said u (trim msg))"
  unfolding acts_def
proof (intro allI impI)
  fix s
  assume s: "board_ok s" "fair (view s)"
  then obtain g where g: "r_game (c_room s) = Some g" by (auto simp: board_ok_def)
  have core: "room_core (c_room s)" using s(1) by (simp add: board_ok_def room_inv_def)
  have run: "rd_running (view s) = is_game_active (c_room s)" by (simp add: view_def Let_def)
  show "\<exists>a s'. process_message (simon_controller trim) u msg s = (Inr a, s') \<and> board_ok s' \<and>
      view s' = message_said u (trim msg) (view s)"
  proof (cases "find_member u (c_room s)")
    case None
    then show ?thesis
      using s(1) by (intro exI [of _ False] exI [of _ s])
        (simp add: process_message_def read_room_def act_simps message_said_def alive_def view_def Let_def)
  next
    case (Some m)
    then have al: "u \<in> alive (view s) \<longleftrightarrow> playing m" by (simp add: alive_def view_def Let_def)
    show ?thesis
    proof (cases "is_game_active (c_room s) \<and> playing m")
      case True
      then have "rd_running (view s) \<and> fair (view s) \<and> u \<in> alive (view s)" using s(2) run al by simp
      from actsD [OF acts_message s(1) this] obtain a s' where a:
        "simon_player_message trim u msg s = (Inr a, s')" "board_ok s'" "view s' = message_said u (trim msg) (view s)" .
      then have "process_message (simon_controller trim) u msg s = (Inr True, s')"
        using Some True g simon_intercepts [OF a(1)]
        by (simp add: process_message_def read_room_def act_simps on_game_def simon_controller_def)
      then show ?thesis using a by blast
    next
      case False
      then have same: "message_said u (trim msg) (view s) = view s" using run al by (auto simp: message_said_def)
      obtain out where "process_message (simon_controller trim) u msg s = sseq (broadcast_message out) (sreturn True) s"
        using Some False g
        by (cases "is_game_active (c_room s)"; cases "is_player m")
          (simp_all add: process_message_def read_room_def act_simps on_game_def simon_controller_def
            default_spectator_message_def Let_def)
      moreover obtain a s' where "sseq (broadcast_message out) (sreturn True) s = (Inr a, s')" "board_ok s'" "view s' = view s"
        using actsD [OF acts_seq [OF acts_say [where P = fair] acts_return, of "\<lambda>_. True" out True] s] by auto
      ultimately show ?thesis using same by auto
    qed
  qed
qed

lemma fair_said:
  assumes "fair d"
  shows "fair (message_said u msg d)"
proof -
  have judged: "alive (judge e) = alive e \<and> rd_running (judge e) = rd_running e \<or> \<not> rd_running (judge e)"
    "rd_simon (judge e) = rd_simon e" "rd_pending (judge e) = rd_pending e" for e
    by (simp_all add: judge_def)
  show ?thesis
  proof (cases "u = rd_simon d")
    case True
    then show ?thesis
      using assms judged [of "d\<lparr>rd_out := rd_out d \<union> rd_pending d\<rparr>"]
      by (auto simp: fair_def message_said_def simon_says_def Let_def alive_def)
  next
    case False
    then show ?thesis
      using assms judged [of "d\<lparr>rd_out := insert u (rd_out d)\<rparr>"]
      by (auto simp: fair_def message_said_def player_answers_def Let_def alive_def)
  qed
qed


text \<open>Messages to the room, from anybody, one after the other.\<close>

definition room_messages :: "(string \<Rightarrow> string) \<Rightarrow> (session_id \<times> string) list \<Rightarrow> unit simon_op" where
  "room_messages trim ms = sfor ms (\<lambda>(u, msg). sseq (process_message (simon_controller trim) u msg) (sreturn ()))"

definition messages_said :: "(string \<Rightarrow> string) \<Rightarrow> (session_id \<times> string) list \<Rightarrow> round \<Rightarrow> round" where
  "messages_said trim ms d = fold (\<lambda>(u, msg). message_said u (trim msg)) ms d"

lemma fair_messages: "fair d \<Longrightarrow> fair (messages_said trim ms d)"
  by (induction ms arbitrary: d) (auto simp: messages_said_def fair_said)

lemma acts_messages: "acts fair (room_messages trim ms) (messages_said trim ms)"
proof (induction ms)
  case Nil
  show ?case unfolding room_messages_def by (simp add: messages_said_def) (rule acts_return)
next
  case (Cons p ms)
  obtain u msg where p: "p = (u, msg)" by fastforce
  have "acts fair (sseq (process_message (simon_controller trim) u msg) (sreturn ())) (message_said u (trim msg))"
    by (rule acts_weaken [OF acts_seq [OF acts_process_message acts_return]]) auto
  from acts_weaken [OF acts_seq [OF this Cons.IH]] show ?case
    using p by (simp add: room_messages_def messages_said_def fair_said)
qed

subsection \<open>Starting\<close>

lemma find_reset: "find_member v (reset_players r) = map_option (\<lambda>m. m\<lparr>m_disqualified := False\<rparr>) (find_member v r)"
  using find_ended [of v r] by (simp add: end_game_def find_member_def)

lemma reset_game [simp]: "r_game (reset_players r) = r_game r"
  by (simp add: reset_players_def)

lemma start_is_fair:
  assumes s: "board_ok s" and run: "start_game (simon_controller trim) s = (Inr (), s')"
  shows "board_ok s' \<and> fair (view s') \<and> rd_running (view s') \<and> rd_out (view s') = {} \<and> rd_pending (view s') = {} \<and>
    rd_players (view s') = rd_players (view s)"
proof -
  obtain g where g: "r_game (c_room s) = Some g" using s by (auto simp: board_ok_def)
  let ?r = "reset_players (c_room s)"
  let ?s = "s\<lparr>c_users := credited (map snd (r_players ?r)) (c_users s), c_room := ?r\<lparr>r_started := True\<rparr>\<rparr>"
  have core: "room_core ?r" using s room_core_reset by (auto simp: board_ok_def room_inv_def)
  have start: "simon_start ?s = (Inr (), s')"
    using run g by (simp add: start_game_def read_room_def modify_room_def on_game_def act_simps is_game_loaded_def
      credit_loop [OF core_players_distinct [OF core]] simon_controller_def split: prod.splits sum.splits)
  have "room_inv ?r" using s room_inv_reset [of "c_room s"] by (simp add: board_ok_def)
  then have "room_inv (?r\<lparr>r_started := True\<rparr>)"
    using g by (simp add: room_inv_def room_core_def owner_ok_def is_game_active_def is_game_loaded_def cong: option.case_cong)
  moreover have "length (r_members ?r) = length (r_members (c_room s))"
    using s room_core_reset [of "c_room s"] by (intro frame_length) (simp add: board_ok_def room_inv_def)
  ultimately have ok: "board_ok ?s" using s g by (simp add: board_ok_def)
  have v: "rd_players (view ?s) = rd_players (view s)" "rd_out (view ?s) = {}" "rd_running (view ?s)" "rd_simon (view ?s) = sm_simon g"
    using g by (auto simp: view_def Let_def find_member_def find_reset [unfolded find_member_def] is_game_active_def member_kinds)
  have count: "\<not> player_count (c_room ?s) < 3"
    using start by (auto simp: simon_start_def read_room_def act_simps)
  obtain x where found: "find_player (sm_simon g) (c_room ?s) = Some x"
    using start g by (auto simp: simon_start_def get_simon_def read_room_def act_simps
      split: if_splits option.splits prod.splits sum.splits)
  from this obtain e where "find_if (r_players (c_room ?s)) (\<lambda>e. snd e = sm_simon g) = Some e" by (auto simp: find_player_def)
  then have "sm_simon g \<in> snd ` set (r_players (c_room ?s))" by (force dest: find_if_Some)
  moreover have "alive (view ?s) = snd ` set (r_players (c_room ?s))"
    by (rule alive_view) (use ok in \<open>simp add: board_ok_def\<close>)
  ultimately have simon: "sm_simon g \<in> alive (view ?s)" by simp
  have reset: "acts (\<lambda>d. rd_simon d \<in> alive d) (modify_simon (\<lambda>g. g\<lparr>sm_incomplete := [], sm_message := []\<rparr>))
      (\<lambda>d. d\<lparr>rd_word := [], rd_pending := {}\<rparr>)"
  proof (rule acts_modify_game)
    fix g :: simon and d :: round
    assume "rd_simon d = sm_simon g"
    then show "d\<lparr>rd_word := [], rd_pending := {}\<rparr> =
        d\<lparr>rd_simon := sm_simon (g\<lparr>sm_incomplete := [], sm_message := []\<rparr>),
          rd_word := sm_message (g\<lparr>sm_incomplete := [], sm_message := []\<rparr>),
          rd_pending := fst ` set (sm_incomplete (g\<lparr>sm_incomplete := [], sm_message := []\<rparr>))\<rparr>"
      by (cases d) simp
  qed simp
  have "acts (\<lambda>d. rd_simon d \<in> alive d) (sbind simon_name (\<lambda>name. sseqs [
            broadcast_message (''[SIMON]: Simon is '' @ name),
            broadcast_message ''[SIMON]: Good luck!''])) (\<lambda>d. d)"
    unfolding sseqs.simps by (intro acts_simon_name acts_weaken [OF acts_seq [OF acts_say acts_seq [OF acts_say acts_return]]]) auto
  from acts_weaken [OF acts_seq [OF reset this], of "\<lambda>d. rd_simon d \<in> alive d"]
  have game: "acts (\<lambda>d. rd_simon d \<in> alive d) (sseq (modify_simon (\<lambda>g. g\<lparr>sm_incomplete := [], sm_message := []\<rparr>))
      (sbind simon_name (\<lambda>name. sseqs [
            broadcast_message (''[SIMON]: Simon is '' @ name),
            broadcast_message ''[SIMON]: Good luck!'']))) (\<lambda>d. d\<lparr>rd_word := [], rd_pending := {}\<rparr>)"
    by (auto simp del: sseqs.simps)
  have "rd_simon (view ?s) \<in> alive (view ?s)" using simon v(4) by simp
  from actsD [OF game ok this] obtain a s2 where s2: "sseq (modify_simon (\<lambda>g. g\<lparr>sm_incomplete := [], sm_message := []\<rparr>))
      (sbind simon_name (\<lambda>name. sseqs [
            broadcast_message (''[SIMON]: Simon is '' @ name),
            broadcast_message ''[SIMON]: Good luck!''])) ?s = (Inr a, s2)"
    "board_ok s2" "view s2 = (view ?s)\<lparr>rd_word := [], rd_pending := {}\<rparr>" .
  have "simon_start ?s = sseq (modify_simon (\<lambda>g. g\<lparr>sm_incomplete := [], sm_message := []\<rparr>))
      (sbind simon_name (\<lambda>name. sseqs [
            broadcast_message (''[SIMON]: Simon is '' @ name),
            broadcast_message ''[SIMON]: Good luck!''])) ?s"
    using g found count
    by (simp add: simon_start_def get_simon_def read_room_def sbind_run sread_run sreturn_run del: sseqs.simps)
  then have "s2 = s'" using start s2(1) by simp
  then show ?thesis using s2 v simon by (auto simp: fair_def)
qed


subsection \<open>Properties\<close>

text \<open>C4. The code plays Simon by the rules: in a room in order, for every sequence of messages from
  anybody, members or not, \<open>process_message\<close> never throws and never runs into undefined behaviour, and
  what it does to the players, the disqualified, the pending, the wins and the end of the game is what
  the abstract game does. (Nobody joins or leaves in between; a pending player who quits breaks it.)\<close>

theorem simon_follows_rules:
  assumes "board_ok s" and "fair (view s)"
  shows "case room_messages trim ms s of (r, s') \<Rightarrow>
    r = Inr () \<and> board_ok s' \<and> fair (view s') \<and> view s' = messages_said trim ms (view s)"
proof -
  from actsD [OF acts_messages [of trim ms] assms] obtain a s' where
    "room_messages trim ms s = (Inr a, s')" "board_ok s'" "view s' = messages_said trim ms (view s)" .
  then show ?thesis using fair_messages [OF assms(2), of trim ms] by simp
qed

definition demo_board :: "simon ctx" where
  "demo_board = (let s = room_run demo_simon [Add 1 (SessionId 1) AS_PLAYER, Add 2 (SessionId 2) AS_PLAYER] demo_room in
     s\<lparr>c_room := (c_room s)\<lparr>r_game := Some \<lparr>sm_simon = SessionId 1, sm_message = ''a'', sm_incomplete = [(SessionId 2, ())]\<rparr>,
       r_started := True\<rparr>\<rparr>)"

lemma demo_board_ok: "board_ok demo_board"
proof -
  let ?es = "[Add 1 (SessionId 1) AS_PLAYER, Add 2 (SessionId 2) AS_PLAYER]"
  have f: "clocks_fresh demo_simon ?es demo_room" "length (r_members (c_room demo_board)) = 2" by code_simp+
  have "on_room room_inv demo_room" by (simp add: demo_room_def on_room_def new_ctx_def room_inv_new)
  from simon.room_run_inv [OF this f(1)] have "room_inv (c_room demo_board)"
    by (simp add: demo_board_def Let_def on_room_def room_inv_def room_core_def owner_ok_def is_game_active_def
      is_game_loaded_def cong: option.case_cong)
  then show ?thesis using f(2) by (simp add: board_ok_def demo_board_def Let_def)
qed

lemma demo_board_fair: "fair (view demo_board)"
proof -
  have "map snd (r_players (c_room demo_board)) = [SessionId 1, SessionId 2]" by code_simp
  then have "alive (view demo_board) = {SessionId 1, SessionId 2}"
    using alive_view [of demo_board] demo_board_ok unfolding board_ok_def by (metis list.set(1,2) list.set_map)
  moreover have "rd_simon (view demo_board) = SessionId 1" "rd_pending (view demo_board) = {SessionId 2}"
    by (simp_all add: view_def demo_board_def Let_def)
  ultimately show ?thesis by (simp add: fair_def)
qed

theorem simon_follows_rules_witness:
  "fst (room_messages (\<lambda>m. m) [(SessionId 2, ''a''), (SessionId 1, ''b''), (SessionId 3, ''x'')] demo_board) = Inr () \<and>
   view (snd (room_messages (\<lambda>m. m) [(SessionId 2, ''a''), (SessionId 1, ''b''), (SessionId 3, ''x'')] demo_board)) =
     messages_said (\<lambda>m. m) [(SessionId 2, ''a''), (SessionId 1, ''b''), (SessionId 3, ''x'')] (view demo_board)"
  using simon_follows_rules [OF demo_board_ok demo_board_fair, of "\<lambda>m. m" "[(SessionId 2, ''a''), (SessionId 1, ''b''), (SessionId 3, ''x'')]"]
  by (simp split: prod.splits)

text \<open>And a game that starts, starts in order.\<close>

theorem started_game_is_fair:
  assumes "board_ok s" and "start_game (simon_controller trim) s = (Inr (), s')"
  shows "fair (view s') \<and> rd_running (view s') \<and>
    (case room_messages trim ms s' of (r, s2) \<Rightarrow> r = Inr () \<and> view s2 = messages_said trim ms (view s'))"
proof -
  have s': "board_ok s'" "fair (view s')" "rd_running (view s')" using start_is_fair [OF assms] by simp_all
  from actsD [OF acts_messages [of trim ms] s'(1,2)] obtain a s2 where
    "room_messages trim ms s' = (Inr a, s2)" "view s2 = messages_said trim ms (view s')" .
  then show ?thesis using s' by simp
qed

subsection \<open>What the rules say\<close>

text \<open>Nobody who is out comes back while the game runs, and only players get out.\<close>

lemma said_out: "rd_running (message_said u msg d) \<Longrightarrow> rd_out d \<subseteq> rd_out (message_said u msg d)"
  by (auto simp: message_said_def simon_says_def player_answers_def judge_def Let_def split: if_splits)

lemma winner_round:
  assumes "rd_running d" and "alive d = {rd_simon d, v}" and "v \<noteq> rd_simon d" and "rd_pending d = {}"
  shows "messages_said trim [(rd_simon d, msg), (v, msg)] d =
    d\<lparr>rd_word := trim msg, rd_pending := {}, rd_wins := (rd_wins d)(v := rd_wins d v + 1)\<rparr>"
proof -
  have card: "card (alive d) = 2" using assms(2,3) by simp
  have others: "alive d - {rd_simon d} = {v}" using assms(2,3) by auto
  have d: "d\<lparr>rd_out := rd_out d \<union> rd_pending d\<rparr> = d" using assms(4) by (cases d) simp
  have w: "(\<lambda>u. if u \<in> {v} then rd_wins d u + 1 else rd_wins d u) = (rd_wins d)(v := rd_wins d v + 1)" by auto
  have j: "judge d = d\<lparr>rd_wins := (rd_wins d)(v := rd_wins d v + 1)\<rparr>"
    unfolding judge_def others w using card by simp
  let ?e = "d\<lparr>rd_wins := (rd_wins d)(v := rd_wins d v + 1), rd_word := trim msg, rd_pending := {v}\<rparr>"
  have one: "message_said (rd_simon d) (trim msg) d = ?e"
    using assms(1,2) others by (simp add: message_said_def simon_says_def d j)
  have two: "message_said v (trim msg) ?e = ?e\<lparr>rd_pending := {}\<rparr>"
    using assms(1-3) by (simp add: message_said_def player_answers_def)
  show ?thesis by (simp add: messages_said_def one two)
qed

text \<open>C10. A last player is announced as the winner, but the game is not ended. In a room in order where
  Simon and one other player are left and nobody is pending, the game is still active after any number of rounds in
  which Simon says something and the other player repeats it, and every one of these rounds counts as one more win.\<close>

theorem winner_keeps_winning:
  assumes "board_ok s" and "is_game_active (c_room s)" and "alive (view s) = {rd_simon (view s), v}"
    and "v \<noteq> rd_simon (view s)" and "rd_pending (view s) = {}"
  shows "case room_messages trim (concat (replicate n [(rd_simon (view s), msg), (v, msg)])) s of (r, s') \<Rightarrow>
    r = Inr () \<and> is_game_active (c_room s') \<and>
    ps_wins (u_stats (c_users s' v)) = ps_wins (u_stats (c_users s v)) + of_nat n"
proof -
  let ?d = "view s"
  have run: "rd_running ?d" using assms(2) by (simp add: view_def Let_def)
  have "rd_running d \<Longrightarrow> alive d = {rd_simon d, v} \<Longrightarrow> v \<noteq> rd_simon d \<Longrightarrow> rd_pending d = {} \<Longrightarrow>
      rd_running (messages_said trim (concat (replicate n [(rd_simon d, msg), (v, msg)])) d) \<and>
      rd_wins (messages_said trim (concat (replicate n [(rd_simon d, msg), (v, msg)])) d) v = rd_wins d v + of_nat n" for d
  proof (induction n arbitrary: d)
    case 0
    then show ?case by (simp add: messages_said_def)
  next
    case (Suc n)
    let ?e = "d\<lparr>rd_word := trim msg, rd_pending := {}, rd_wins := (rd_wins d)(v := rd_wins d v + 1)\<rparr>"
    have "messages_said trim (concat (replicate (Suc n) [(rd_simon d, msg), (v, msg)])) d =
        messages_said trim (concat (replicate n [(rd_simon ?e, msg), (v, msg)])) ?e"
      using winner_round [OF Suc.prems, of trim msg] by (simp add: messages_said_def)
    then show ?case using Suc.IH [of ?e] Suc.prems by (simp add: algebra_simps)
  qed
  note wins = this [OF run assms(3-5)]
  have "fair ?d" using assms(3-5) by (simp add: fair_def)
  from actsD [OF acts_messages assms(1) this] obtain a s' where
    "room_messages trim (concat (replicate n [(rd_simon ?d, msg), (v, msg)])) s = (Inr a, s')"
    "view s' = messages_said trim (concat (replicate n [(rd_simon ?d, msg), (v, msg)])) ?d" .
  moreover have "is_game_active (c_room x) = rd_running (view x)" "ps_wins (u_stats (c_users x v)) = rd_wins (view x) v" for x
    by (simp_all add: view_def Let_def)
  ultimately show ?thesis using wins by simp
qed

definition demo_final :: "simon ctx" where
  "demo_final = demo_board\<lparr>c_room := (c_room demo_board)\<lparr>r_game :=
     Some \<lparr>sm_simon = SessionId 1, sm_message = ''a'', sm_incomplete = []\<rparr>\<rparr>\<rparr>"

theorem winner_keeps_winning_witness:
  "case room_messages (\<lambda>m. m) (concat (replicate 3 [(SessionId 1, ''b''), (SessionId 2, ''b'')])) demo_final of (r, s') \<Rightarrow>
    r = Inr () \<and> is_game_active (c_room s') \<and> ps_wins (u_stats (c_users s' (SessionId 2))) = 3"
proof -
  have ok: "board_ok demo_final"
    using demo_board_ok room_inv_set_game [of "c_room demo_board"] by (simp add: board_ok_def demo_final_def)
  have active: "is_game_active (c_room demo_final)" by (simp add: demo_final_def demo_board_def Let_def is_game_active_def)
  have "map snd (r_players (c_room demo_final)) = [SessionId 1, SessionId 2]" by code_simp
  then have alive: "alive (view demo_final) = {SessionId 1, SessionId 2}"
    using alive_view [of demo_final] ok unfolding board_ok_def by (metis list.set(1,2) list.set_map)
  have simon: "rd_simon (view demo_final) = SessionId 1" "rd_pending (view demo_final) = {}"
    by (simp_all add: view_def demo_final_def Let_def)
  have wins: "ps_wins (u_stats (c_users demo_final (SessionId 2))) = 0" by code_simp
  show ?thesis
    using winner_keeps_winning [where s = demo_final and v = "SessionId 2" and trim = "\<lambda>m. m" and n = 3 and msg = "''b''"] ok active alive simon wins
    by (simp add: case_prod_unfold)
qed

end
