(* ===== verification/Chat_Client.thy ===== *)
theory Chat_Client
  imports Server_Daemon
begin

section \<open>The terminal client (module removeme\_chatclient)\<close>

text \<open>
  \<open>Client.cpp\<close>, the main loop of \<open>chatclient.cpp\<close> and the calls that \<open>ChatWindow.cpp\<close> makes to curses.
  The asynchronous operations that are outstanding are kept in a list (\<open>cl_work\<close>); \<open>poll\<close> runs the
  completions that are ready, which the environment chooses. Boost.Asio documents that an
  \<open>io\_service\<close> that runs out of work is stopped, and that \<open>poll\<close> on a stopped one returns at once
  (\<open>cl_stopped\<close>; the client never calls \<open>reset\<close>). Boost.Beast documents that a websocket has at most one write
  and at most one close outstanding; as in \<open>Sockets\<close>, starting a second one is a failed assertion. Curses and its form driver are outside: what the
  entry field holds and where its cursor is comes with each key.
\<close>

datatype work = Connecting | Handshaking | Reading | Writing string | Closing_down

record chat_client =
  cl_closed :: bool
  cl_stopped :: bool
  cl_work :: "work list"
  cl_read_buffer :: string
  cl_incoming :: string
  cl_write_buffer :: "string list"

definition begin_work :: "work \<Rightarrow> chat_client \<Rightarrow> chat_client" where
  "begin_work k c = c\<lparr>cl_work := cl_work c @ [k]\<rparr>"

definition client_connect :: "chat_client \<Rightarrow> chat_client" where
  "client_connect c = begin_work Connecting c"

definition client_handshake :: "chat_client \<Rightarrow> chat_client" where
  "client_handshake c = begin_work Handshaking c"

definition read_message :: "chat_client \<Rightarrow> chat_client" where
  "read_message c = begin_work Reading c"

definition client_disconnect :: "(chat_client, unit) op" where
  "client_disconnect = sseq (smodify (\<lambda>c. c\<lparr>cl_closed := True\<rparr>))
     (sbind (sread (\<lambda>c. Closing_down \<in> set (cl_work c))) (\<lambda>closing.
        if closing then undefined_behaviour Failed_assertion else smodify (begin_work Closing_down)))"

text \<open>The constructor connects; the address may fail to resolve.\<close>

definition new_chat_client :: "exn + unit \<Rightarrow> exn + chat_client" where
  "new_chat_client resolved = (case resolved of
     Inl e \<Rightarrow> Inl e
   | Inr _ \<Rightarrow> Inr (client_connect \<lparr>cl_closed = False, cl_stopped = False, cl_work = [], cl_read_buffer = [],
       cl_incoming = [], cl_write_buffer = []\<rparr>))"

subsection \<open>Completion handlers\<close>

definition on_connected :: "bool \<Rightarrow> chat_client \<Rightarrow> chat_client" where
  "on_connected ok c = (if ok then client_handshake c else c)"

definition on_handshaken :: "bool \<Rightarrow> chat_client \<Rightarrow> chat_client" where
  "on_handshaken ok c = (if ok then read_message c else c)"

text \<open>\<open>data\<close> are the bytes that this read appended to the buffer.\<close>

definition on_message_read :: "bool \<Rightarrow> string \<Rightarrow> (chat_client, unit) op" where
  "on_message_read ok data = sseq (smodify (\<lambda>c. c\<lparr>cl_read_buffer := cl_read_buffer c @ data\<rparr>))
     (if ok then
        if data \<noteq> [] then smodify (\<lambda>c. read_message (c\<lparr>cl_incoming := cl_incoming c @ cl_read_buffer c, cl_read_buffer := []\<rparr>))
        else sreturn ()
      else client_disconnect)"

definition on_written :: "bool \<Rightarrow> (chat_client, unit) op" where
  "on_written ok =
     (if ok then sbind (sread cl_write_buffer) (\<lambda>b. case b of
          [] \<Rightarrow> undefined_behaviour Out_of_bounds
        | _ # b' \<Rightarrow> smodify (\<lambda>c. c\<lparr>cl_write_buffer := b'\<rparr>))
      else client_disconnect)"

datatype completion = Connected bool | Handshaken bool | Message_read bool string | Written bool | Shut_down bool

fun finishes :: "completion \<Rightarrow> work \<Rightarrow> bool" where
  "finishes (Connected _) k \<longleftrightarrow> k = Connecting"
| "finishes (Handshaken _) k \<longleftrightarrow> k = Handshaking"
| "finishes (Message_read _ _) k \<longleftrightarrow> k = Reading"
| "finishes (Written _) k \<longleftrightarrow> (case k of Writing _ \<Rightarrow> True | _ \<Rightarrow> False)"
| "finishes (Shut_down _) k \<longleftrightarrow> k = Closing_down"

fun run_completion :: "completion \<Rightarrow> (chat_client, unit) op" where
  "run_completion (Connected ok) = smodify (on_connected ok)"
| "run_completion (Handshaken ok) = smodify (on_handshaken ok)"
| "run_completion (Message_read ok data) = on_message_read ok data"
| "run_completion (Written ok) = on_written ok"
| "run_completion (Shut_down _) = sreturn ()"

text \<open>A completion belongs to the first outstanding operation of its kind; one without such an
  operation does not happen.\<close>

fun drop_work :: "completion \<Rightarrow> work list \<Rightarrow> work list option" where
  "drop_work e [] = None"
| "drop_work e (k # ks) = (if finishes e k then Some ks else map_option (Cons k) (drop_work e ks))"

definition complete :: "completion \<Rightarrow> (chat_client, unit) op" where
  "complete e = sbind (sread (\<lambda>c. drop_work e (cl_work c))) (\<lambda>ks. case ks of
     None \<Rightarrow> sreturn ()
   | Some ks \<Rightarrow> sseq (smodify (\<lambda>c. c\<lparr>cl_work := ks\<rparr>)) (run_completion e))"

subsection \<open>The interface of the client\<close>

definition client_update :: "completion list \<Rightarrow> (chat_client, unit) op" where
  "client_update es = sbind (sread cl_stopped) (\<lambda>stopped.
     if stopped then sreturn ()
     else sseq (sfor es complete) (smodify (\<lambda>c. c\<lparr>cl_stopped := (cl_work c = [])\<rparr>)))"

definition client_receive :: "(chat_client, string) op" where
  "client_receive = sbind (sread cl_incoming) (\<lambda>result.
     sseq (smodify (\<lambda>c. c\<lparr>cl_incoming := []\<rparr>)) (sreturn result))"

fun is_writing :: "work \<Rightarrow> bool" where
  "is_writing (Writing _) \<longleftrightarrow> True"
| "is_writing _ \<longleftrightarrow> False"

definition client_send :: "string \<Rightarrow> (chat_client, unit) op" where
  "client_send message = (if message = [] then sreturn ()
     else sseq (smodify (\<lambda>c. c\<lparr>cl_write_buffer := cl_write_buffer c @ [message]\<rparr>))
       (sbind (sread (\<lambda>c. \<exists>k \<in> set (cl_work c). is_writing k)) (\<lambda>writing.
          if writing then undefined_behaviour Failed_assertion else smodify (begin_work (Writing message)))))"

subsection \<open>The window\<close>

text \<open>The calls of curses that show or erase something, and the requests to the form. The entry field
  keeps the width it was created with; \<open>parentX\<close> follows the terminal.\<close>

datatype form_request = Validation | Delete_previous | Delete_char | Insert int

datatype curses_call =
    Print string | Erase_screen | Draw_border | Resize_windows int int | Clear_screen | Request form_request
  | Empty_field | Refresh_screen | Refresh_windows

record window =
  wd_parent_x :: int
  wd_parent_y :: int
  wd_calls :: "curses_call list"

definition new_window :: "int \<Rightarrow> int \<Rightarrow> window" where
  "new_window y x = \<lparr>wd_parent_x = x, wd_parent_y = y, wd_calls = []\<rparr>"

definition call :: "curses_call list \<Rightarrow> (window, unit) op" where
  "call cs = smodify (\<lambda>w. w\<lparr>wd_calls := wd_calls w @ cs\<rparr>)"

text \<open>\<open>c\_str()\<close> ends the text at its first null character.\<close>

definition display_text :: "string \<Rightarrow> (window, unit) op" where
  "display_text text = call [Print (takeWhile (\<lambda>c. c \<noteq> CHR 0x00) text)]"

text \<open>The erased window is \<open>stdscr\<close>, not the one the messages are printed to.\<close>

definition chat_window_clear :: "(window, unit) op" where
  "chat_window_clear = call [Erase_screen, Draw_border]"

definition resize_on_shape_change :: "int \<Rightarrow> int \<Rightarrow> (window, unit) op" where
  "resize_on_shape_change y x = sbind (sread (\<lambda>w. y \<noteq> wd_parent_y w \<or> x \<noteq> wd_parent_x w)) (\<lambda>changed.
     swhen changed (sseq (smodify (\<lambda>w. w\<lparr>wd_parent_x := x, wd_parent_y := y\<rparr>))
       (call [Resize_windows y x, Clear_screen, Draw_border])))"

record form =
  fm_buffer :: string
  fm_cursor_y :: nat
  fm_cursor_x :: nat

definition get_field_size :: "form \<Rightarrow> window \<Rightarrow> nat" where
  "get_field_size f w = (fm_cursor_y f * nat (wd_parent_x w) + fm_cursor_x f) mod 2 ^ 64"

text \<open>The string is made of \<open>size\<close> characters from the start of the buffer, which ends with a null
  character.\<close>

definition get_field_string :: "form \<Rightarrow> (window, string) op" where
  "get_field_string f = sbind (sread (get_field_size f)) (\<lambda>size.
     if size > length (fm_buffer f) + 1 then undefined_behaviour Out_of_bounds
     else sreturn (take size (fm_buffer f @ [CHR 0x00])))"

datatype key = Key_enter | Newline | Key_backspace | Ascii_delete | Key_dc | No_key | Other_key int

definition process_input :: "key \<Rightarrow> form \<Rightarrow> (window, string option) op" where
  "process_input k f = (case k of
     No_key \<Rightarrow> sreturn None
   | Key_backspace \<Rightarrow> sseq (call [Request Delete_previous]) (sreturn None)
   | Ascii_delete \<Rightarrow> sseq (call [Request Delete_previous]) (sreturn None)
   | Key_dc \<Rightarrow> sseq (call [Request Delete_char]) (sreturn None)
   | Other_key n \<Rightarrow> sseq (call [Request (Insert n)]) (sreturn None)
   | _ \<Rightarrow> sseq (call [Request Validation]) (sbind (get_field_string f) (\<lambda>text.
            sseq (call [Empty_field, Refresh_screen]) (sreturn (Some text)))))"

subsection \<open>The main loop\<close>

datatype message_type = COMMAND | GAME_CONFIG | NORMAL

text \<open>\<open>message[0]\<close> of an empty string is a null character.\<close>

definition get_message_type :: "string \<Rightarrow> message_type" where
  "get_message_type message = (case message of c # _ \<Rightarrow> if c = CHR ''/'' then COMMAND else NORMAL | [] \<Rightarrow> NORMAL)"

definition is_space :: "char \<Rightarrow> bool" where
  "is_space c \<longleftrightarrow> c \<in> {CHR '' '', CHR 0x09, CHR 0x0A, CHR 0x0B, CHR 0x0C, CHR 0x0D}"

text \<open>The words that an \<open>istream\_iterator\<close> reads.\<close>

fun words_from :: "string \<Rightarrow> string \<Rightarrow> string list" where
  "words_from w [] = (if w = [] then [] else [w])"
| "words_from w (c # s) =
     (if \<not> is_space c then words_from (w @ [c]) s else if w = [] then words_from [] s else w # words_from [] s)"

definition parse_command_and_collect_response :: "string \<Rightarrow> string list" where
  "parse_command_and_collect_response message = words_from [] message"

definition show_message :: "string \<Rightarrow> (window, unit) op" where
  "show_message message = (case get_message_type message of
     COMMAND \<Rightarrow> (case parse_command_and_collect_response message of
         [] \<Rightarrow> undefined_behaviour Out_of_bounds
       | t # _ \<Rightarrow> swhen (t = ''/clear'') chat_window_clear)
   | NORMAL \<Rightarrow> display_text message
   | GAME_CONFIG \<Rightarrow> sreturn ())"

record terminal =
  tm_client :: chat_client
  tm_window :: window
  tm_done :: bool

definition on_client :: "(chat_client, 'a) op \<Rightarrow> (terminal, 'a) op" where
  "on_client m = (\<lambda>t. case m (tm_client t) of (r, c) \<Rightarrow> (r, t\<lparr>tm_client := c\<rparr>))"

definition on_window :: "(window, 'a) op \<Rightarrow> (terminal, 'a) op" where
  "on_window m = (\<lambda>t. case m (tm_window t) of (r, w) \<Rightarrow> (r, t\<lparr>tm_window := w\<rparr>))"

definition on_text_entry :: "string \<Rightarrow> (terminal, unit) op" where
  "on_text_entry text =
     (if text = ''exit'' \<or> text = ''quit'' then smodify (\<lambda>t. t\<lparr>tm_done := True\<rparr>)
      else on_client (client_send text))"

text \<open>What a turn gets from outside: the completions that are ready, the size of the terminal, the key
  and the entry field, and the messages of standard exceptions. No completion handler throws one
  (\<open>complete_outcome\<close>). The callback of the window is run after the calls of curses that follow it in
  \<open>processInput\<close>; it touches the client only.\<close>

record turn =
  tn_completions :: "completion list"
  tn_rows :: int
  tn_columns :: int
  tn_key :: key
  tn_form :: form
  tn_what :: "exn \<Rightarrow> string"

definition update_caught :: "turn \<Rightarrow> (terminal, unit) op" where
  "update_caught n = scatch (on_client (client_update (tn_completions n))) (\<lambda>e.
     if is_ub e then sthrow e
     else sseqs [
       on_window (display_text ''Exception from Client update:''),
       on_window (display_text (tn_what n e)),
       smodify (\<lambda>t. t\<lparr>tm_done := True\<rparr>)])"

definition terminal_turn :: "turn \<Rightarrow> (terminal, unit) op" where
  "terminal_turn n = sseqs [
     update_caught n,
     sbind (on_client client_receive) (\<lambda>response. swhen (response \<noteq> []) (on_window (show_message response))),
     on_window (resize_on_shape_change (tn_rows n) (tn_columns n)),
     sbind (on_window (process_input (tn_key n) (tn_form n))) (\<lambda>text. case text of
       None \<Rightarrow> sreturn () | Some text \<Rightarrow> on_text_entry text),
     on_window (call [Refresh_windows])]"

fun terminal_loop :: "turn list \<Rightarrow> (terminal, unit) op" where
  "terminal_loop [] = sreturn ()"
| "terminal_loop (n # ns) = sbind (sread (\<lambda>t. tm_done t \<or> cl_closed (tm_client t))) (\<lambda>over.
     if over then sreturn () else sseq (terminal_turn n) (terminal_loop ns))"

subsection \<open>Texts stay in the buffer while they are written\<close>

fun writings :: "work list \<Rightarrow> string list" where
  "writings [] = []"
| "writings (Writing m # ks) = m # writings ks"
| "writings (_ # ks) = writings ks"

text \<open>Boost writes from the text that \<open>writeBuffer\<close> holds, so the text must not be popped before its write
  has ended.\<close>

definition texts_held :: "chat_client \<Rightarrow> bool" where
  "texts_held c \<longleftrightarrow> (\<exists>before. cl_write_buffer c = before @ writings (cl_work c))"

lemma writings_append [simp]: "writings (ks @ ks') = writings ks @ writings ks'"
  by (induction ks rule: writings.induct) simp_all

lemma drop_work_writings:
  "drop_work e ks = Some ks' \<Longrightarrow>
     (case e of Written _ \<Rightarrow> \<exists>m. writings ks = m # writings ks' | _ \<Rightarrow> writings ks = writings ks')"
proof (induction ks arbitrary: ks')
  case (Cons k ks)
  show ?case
  proof (cases "finishes e k")
    case True
    then show ?thesis using Cons.prems by (cases e; cases k) auto
  next
    case False
    then obtain ks1 where ks1: "drop_work e ks = Some ks1" "ks' = k # ks1" using Cons.prems by auto
    then show ?thesis using Cons.IH [OF ks1(1)] False by (cases e; cases k) auto
  qed
qed simp

text \<open>At most one text is being written.\<close>

definition held :: "chat_client \<Rightarrow> bool" where
  "held c \<longleftrightarrow> texts_held c \<and> length (writings (cl_work c)) \<le> 1"

definition closings :: "chat_client \<Rightarrow> nat" where
  "closings c = length (filter (\<lambda>k. k = Closing_down) (cl_work c))"

fun fails :: "completion \<Rightarrow> bool" where
  "fails (Message_read ok _) \<longleftrightarrow> \<not> ok"
| "fails (Written ok) \<longleftrightarrow> \<not> ok"
| "fails _ \<longleftrightarrow> False"

lemma drop_work_filter: "drop_work e ks = Some ks' \<Longrightarrow> length (filter P ks') \<le> length (filter P ks)"
proof (induction ks arbitrary: ks')
  case (Cons k ks)
  show ?case
  proof (cases "finishes e k")
    case False
    then obtain ks1 where "drop_work e ks = Some ks1" "ks' = k # ks1" using Cons.prems by auto
    then show ?thesis using Cons.IH by simp
  qed (use Cons.prems in simp)
qed simp

lemma writings_empty: "writings ks = [] \<longleftrightarrow> (\<forall>k \<in> set ks. \<not> is_writing k)"
  by (induction ks rule: writings.induct) auto

lemma closings_none: "closings c = 0 \<longleftrightarrow> Closing_down \<notin> set (cl_work c)"
  by (auto simp: closings_def filter_empty_conv)

lemmas handler_defs = on_connected_def on_handshaken_def on_message_read_def client_handshake_def read_message_def
  client_disconnect_def begin_work_def

lemma disconnect_outcome:
  assumes "held c" and "closings c \<le> n"
  shows "(\<exists>c'. client_disconnect c = (Inr (), c') \<and> held c' \<and> closings c' \<le> n + 1) \<or>
    (0 < closings c \<and> fst (client_disconnect c) = Inl (Undefined Failed_assertion))"
proof (cases "Closing_down \<in> set (cl_work c)")
  case True
  then have "0 < closings c" using closings_none [of c] by simp
  then show ?thesis using True by (simp add: client_disconnect_def act_simps)
next
  case False
  then show ?thesis
    using assms by (simp add: client_disconnect_def begin_work_def act_simps held_def texts_held_def closings_def)
qed

text \<open>What a completion can do: it goes wrong only when it starts a second close.\<close>

lemma complete_outcome:
  assumes "held c"
  shows "(\<exists>c'. complete e c = (Inr (), c') \<and> held c' \<and> closings c' \<le> closings c + (if fails e then 1 else 0)) \<or>
    (fails e \<and> 0 < closings c \<and> fst (complete e c) = Inl (Undefined Failed_assertion))"
proof (cases "drop_work e (cl_work c)")
  case None
  then show ?thesis using assms by (simp add: complete_def act_simps)
next
  case (Some ks)
  then have run: "complete e c = run_completion e (c\<lparr>cl_work := ks\<rparr>)" by (simp add: complete_def act_simps)
  note writes = drop_work_writings [OF Some]
  have cl: "closings (c\<lparr>cl_work := ks\<rparr>) \<le> closings c" using drop_work_filter [OF Some] by (simp add: closings_def)
  obtain before where b: "cl_write_buffer c = before @ writings (cl_work c)" "length (writings (cl_work c)) \<le> 1"
    using assms by (auto simp: held_def texts_held_def)
  have ks: "\<exists>before. cl_write_buffer c = before @ writings ks" "length (writings ks) \<le> 1"
    using b writes by (cases e; fastforce)+
  have fewer: "held (c\<lparr>cl_work := ks, cl_read_buffer := r\<rparr>)" for r
    using ks by (simp add: held_def texts_held_def)
  have disc: "(\<exists>c'. client_disconnect (c\<lparr>cl_work := ks, cl_read_buffer := r\<rparr>) = (Inr (), c') \<and> held c' \<and> closings c' \<le> closings c + 1) \<or>
    (0 < closings c \<and> fst (client_disconnect (c\<lparr>cl_work := ks, cl_read_buffer := r\<rparr>)) = Inl (Undefined Failed_assertion))" for r
    using disconnect_outcome [OF fewer, of r "closings c"] cl by (auto simp: closings_def)
  show ?thesis
  proof (cases e)
    case (Written ok)
    then obtain m where m: "writings (cl_work c) = m # writings ks" using writes by auto
    then have none: "writings ks = []" using b(2) by simp
    obtain x b' where x: "cl_write_buffer c = x # b'" using b(1) m by (cases before) simp_all
    have "held (c\<lparr>cl_work := ks, cl_write_buffer := b'\<rparr>)" using none by (simp add: held_def texts_held_def)
    then show ?thesis
      using run Written x cl disc [of "cl_read_buffer c"] by (cases ok) (auto simp: on_written_def act_simps closings_def)
  next
    case (Message_read ok data)
    show ?thesis
    proof (cases ok)
      case True
      then show ?thesis
        using run Message_read ks cl
        by (cases "data = []") (auto simp: on_message_read_def read_message_def begin_work_def act_simps closings_def held_def texts_held_def)
    next
      case False
      then show ?thesis
        using run Message_read disc [of "cl_read_buffer c @ data"] by (simp add: on_message_read_def act_simps)
    qed
  next
    case (Connected ok)
    then show ?thesis
      using run ks cl by (cases ok)
        (simp_all add: on_connected_def client_handshake_def begin_work_def act_simps closings_def held_def texts_held_def)
  next
    case (Handshaken ok)
    then show ?thesis
      using run ks cl by (cases ok)
        (simp_all add: on_handshaken_def read_message_def begin_work_def act_simps closings_def held_def texts_held_def)
  next
    case (Shut_down ok)
    then show ?thesis using run ks cl by (simp add: act_simps held_def texts_held_def)
  qed
qed

lemma completions_outcome:
  "held c \<Longrightarrow> (\<exists>c'. sfor es complete c = (Inr (), c') \<and> held c') \<or>
    (1 < closings c + length (filter fails es) \<and> fst (sfor es complete c) = Inl (Undefined Failed_assertion))"
proof (induction es arbitrary: c)
  case (Cons e es)
  from complete_outcome [OF Cons.prems, of e] show ?case
  proof (elim disjE exE conjE)
    fix c'
    assume c': "complete e c = (Inr (), c')" "held c'" "closings c' \<le> closings c + (if fails e then 1 else 0)"
    then show ?thesis using Cons.IH [OF c'(2)] by (auto simp: act_simps split: if_splits)
  next
    assume "fails e" "0 < closings c" "fst (complete e c) = Inl (Undefined Failed_assertion)"
    then show ?thesis by (auto simp: act_simps split: prod.split)
  qed
qed (simp add: act_simps)

datatype client_call = Call_update "completion list" | Call_receive | Call_send string

fun client_step :: "client_call \<Rightarrow> (chat_client, unit) op" where
  "client_step (Call_update es) = client_update es"
| "client_step Call_receive = sbind client_receive (\<lambda>_. sreturn ())"
| "client_step (Call_send m) = client_send m"

text \<open>What Beast asks for: nothing is sent while a write is outstanding, and no second operation fails once
  the client is closing.\<close>

fun may_call :: "client_call \<Rightarrow> chat_client \<Rightarrow> bool" where
  "may_call (Call_update es) c \<longleftrightarrow> closings c + length (filter fails es) \<le> 1"
| "may_call Call_receive c \<longleftrightarrow> True"
| "may_call (Call_send m) c \<longleftrightarrow> m = [] \<or> writings (cl_work c) = []"

fun well_spaced :: "client_call list \<Rightarrow> chat_client \<Rightarrow> bool" where
  "well_spaced [] c \<longleftrightarrow> True"
| "well_spaced (x # xs) c \<longleftrightarrow> may_call x c \<and> well_spaced xs (snd (client_step x c))"

lemma step_outcome:
  assumes "held c"
  shows "(\<exists>c'. client_step x c = (Inr (), c') \<and> held c') \<or>
    (\<not> may_call x c \<and> fst (client_step x c) = Inl (Undefined Failed_assertion))"
proof (cases x)
  case (Call_update es)
  have "held (c'\<lparr>cl_stopped := b\<rparr>)" if "held c'" for c' b using that by (simp add: held_def texts_held_def)
  then show ?thesis
    using completions_outcome [OF assms, of es] Call_update assms
    by (auto simp: client_update_def act_simps split: prod.splits)
next
  case Call_receive
  then show ?thesis using assms by (simp add: client_receive_def act_simps held_def texts_held_def)
next
  case (Call_send m)
  then show ?thesis
    using assms writings_empty [of "cl_work c"]
    by (auto simp: client_send_def act_simps held_def texts_held_def begin_work_def)
qed

lemma run_outcome:
  "held c \<Longrightarrow> (\<exists>c'. sfor xs client_step c = (Inr (), c') \<and> held c') \<or>
    (\<not> well_spaced xs c \<and> fst (sfor xs client_step c) = Inl (Undefined Failed_assertion))"
proof (induction xs arbitrary: c)
  case (Cons x xs)
  from step_outcome [OF Cons.prems, of x] show ?case
  proof (elim disjE exE conjE)
    fix c'
    assume c': "client_step x c = (Inr (), c')" "held c'"
    then show ?thesis using Cons.IH [OF c'(2)] by (auto simp: act_simps)
  next
    assume "\<not> may_call x c" "fst (client_step x c) = Inl (Undefined Failed_assertion)"
    then show ?thesis by (auto simp: act_simps split: prod.split)
  qed
qed (simp add: act_simps)

text \<open>C13. The terminal client and its write buffer. Whatever is called and whatever completes, failed or not, either
  the calls return, at most one text is being written, and this text is still in the write buffer, at its
  end; or Beast's rule is broken, that a websocket has at most one write and one close outstanding. The
  write buffer is never popped when it is empty. The rule is kept, and no call goes wrong, when nothing is sent while a text is
  being written and no second operation fails once the client is closing. The client itself does
  nothing for this: two texts in a row break the rule.\<close>

theorem client_texts_held:
  assumes "new_chat_client resolved = Inr c"
  shows "case sfor xs client_step c of (r, c') \<Rightarrow>
    (r = Inr () \<and> length (writings (cl_work c')) \<le> 1 \<and> (\<exists>before. cl_write_buffer c' = before @ writings (cl_work c')) \<or>
     r = Inl (Undefined Failed_assertion)) \<and>
    (well_spaced xs c \<longrightarrow> r = Inr ()) \<and>
    (\<forall>m m'. r = Inr () \<longrightarrow> m \<noteq> [] \<longrightarrow> m' \<noteq> [] \<longrightarrow>
       fst (sfor [Call_send m, Call_send m'] client_step c') = Inl (Undefined Failed_assertion))"
proof -
  have "held c"
    using assms by (auto simp: new_chat_client_def held_def texts_held_def client_connect_def begin_work_def split: sum.splits)
  moreover have "fst (sfor [Call_send m, Call_send m'] client_step d) = Inl (Undefined Failed_assertion)"
    if "m \<noteq> []" "m' \<noteq> []" for m m' d
    using that by (simp add: client_send_def begin_work_def act_simps)
  ultimately show ?thesis
    using run_outcome [of c xs] by (auto simp: held_def texts_held_def split: prod.splits)
qed

definition demo_client :: chat_client where
  "demo_client = \<lparr>cl_closed = False, cl_stopped = False, cl_work = [Connecting], cl_read_buffer = [], cl_incoming = [],
     cl_write_buffer = []\<rparr>"

lemma demo_client_new: "new_chat_client (Inr ()) = Inr demo_client"
  by (simp add: new_chat_client_def demo_client_def client_connect_def begin_work_def)

text \<open>The first text fails, so that it stays in the buffer, the second one is written.\<close>

definition demo_calls :: "client_call list" where
  "demo_calls = [Call_update [Connected True, Handshaken True], Call_send ''a'', Call_update [Written False], Call_send ''b'']"

theorem client_texts_held_witness:
  "\<exists>c'. sfor demo_calls client_step demo_client = (Inr (), c') \<and>
    writings (cl_work c') = [''b''] \<and> cl_write_buffer c' = [''a'', ''b''] \<and>
    fst (sfor [Call_send ''c'', Call_send ''d''] client_step c') = Inl (Undefined Failed_assertion)"
proof -
  have "well_spaced demo_calls demo_client" "writings (cl_work (snd (sfor demo_calls client_step demo_client))) = [''b'']"
    "cl_write_buffer (snd (sfor demo_calls client_step demo_client)) = [''a'', ''b'']"
    by code_simp+
  then show ?thesis using client_texts_held [OF demo_client_new, of demo_calls] by (auto split: prod.splits)
qed

subsection \<open>An empty message\<close>

text \<open>No message can arrive any more: nothing is being read, and nothing that would start reading is
  outstanding.\<close>

definition deaf :: "chat_client \<Rightarrow> bool" where
  "deaf c \<longleftrightarrow> {Connecting, Handshaking, Reading} \<inter> set (cl_work c) = {} \<and> cl_incoming c = []"

lemma drop_work_set: "drop_work e ks = Some ks' \<Longrightarrow> set ks' \<subseteq> set ks \<and> (\<exists>k \<in> set ks. finishes e k)"
  by (induction ks arbitrary: ks') (auto split: if_splits)

lemma deaf_complete: "preserves deaf (complete e)"
proof (rule preservesI)
  fix c
  assume c: "deaf c"
  show "deaf (snd (complete e c))"
  proof (cases "drop_work e (cl_work c)")
    case None
    then show ?thesis using c by (simp add: complete_def act_simps)
  next
    case (Some ks)
    then have run: "complete e c = run_completion e (c\<lparr>cl_work := ks\<rparr>)" by (simp add: complete_def act_simps)
    have ks: "deaf (c\<lparr>cl_work := ks\<rparr>)" "\<exists>k \<in> set (cl_work c). finishes e k"
      using drop_work_set [OF Some] c by (auto simp: deaf_def)
    show ?thesis
    proof (cases e)
      case (Written ok)
      show ?thesis
        using ks(1) unfolding run unfolding Written
        by (cases "cl_write_buffer c")
          (auto simp: on_written_def act_simps deaf_def handler_defs)
    next
      case (Shut_down ok)
      then show ?thesis using ks(1) run by (simp add: act_simps)
    qed (use c ks(2) in \<open>auto simp: deaf_def\<close>)
  qed
qed

lemma deaf_step: "preserves deaf (client_step x)"
proof (cases x)
  case (Call_update es)
  have "preserves deaf (client_update es)"
    unfolding client_update_def
    by (auto intro!: pres_intros deaf_complete simp: deaf_def)
  then show ?thesis using Call_update by simp
next
  case Call_receive
  then show ?thesis by (auto simp: client_receive_def deaf_def intro!: pres_intros)
next
  case (Call_send m)
  then show ?thesis by (auto simp: preserves_def client_send_def deaf_def begin_work_def act_simps)
qed

lemma deaf_run: "deaf c \<Longrightarrow> sfor xs client_step c = (r, c') \<Longrightarrow> deaf c'"
  using preservesD' [OF preserves_for [of deaf client_step, OF deaf_step]] by blast

text \<open>C31. A message of length zero ends the reading for good: whatever happens afterwards, \<open>receive\<close> has
  nothing to return and the window shows nothing, while the client does not count as disconnected as
  long as no operation fails.\<close>

theorem empty_message_deafens:
  assumes "cl_work c = before @ Reading # after" and "{Connecting, Handshaking, Reading} \<inter> set (before @ after) = {}"
    and "cl_incoming c = []" and "cl_read_buffer c = []" and "\<not> cl_stopped c"
  shows "\<exists>c1. client_update [Message_read True []] c = (Inr (), c1) \<and> cl_closed c1 = cl_closed c \<and>
    (case sfor xs client_step c1 of (r, c2) \<Rightarrow>
       cl_incoming c2 = [] \<and> Reading \<notin> set (cl_work c2) \<and> fst (client_receive c2) = Inr [])"
proof -
  have "drop_work (Message_read True []) (ks @ Reading # after) = Some (ks @ after)"
    if "Reading \<notin> set ks" for ks
    using that by (induction ks) auto
  then have drop: "drop_work (Message_read True []) (cl_work c) = Some (before @ after)"
    using assms(1,2) by simp
  let ?c1 = "c\<lparr>cl_work := before @ after, cl_read_buffer := [], cl_stopped := (before @ after = [])\<rparr>"
  have "client_update [Message_read True []] c = (Inr (), ?c1)"
    using drop assms(4,5) by (simp add: client_update_def complete_def on_message_read_def Let_def act_simps)
  moreover have "deaf ?c1" using assms(2,3) by (auto simp: deaf_def)
  moreover have "case sfor xs client_step ?c1 of (r, c2) \<Rightarrow>
       cl_incoming c2 = [] \<and> Reading \<notin> set (cl_work c2) \<and> fst (client_receive c2) = Inr []"
    using deaf_run [OF \<open>deaf ?c1\<close>, of xs]
    by (auto simp: deaf_def client_receive_def act_simps split: prod.split)
  ultimately show ?thesis by auto
qed

theorem empty_message_deafens_witness:
  "\<exists>c1. client_update [Message_read True []] (demo_client\<lparr>cl_work := [Writing ''hi'', Reading], cl_write_buffer := [''hi'']\<rparr>) = (Inr (), c1) \<and>
    cl_closed c1 = False \<and>
    (case sfor [Call_update [Written True, Message_read True ''welcome''], Call_send ''x''] client_step c1 of (r, c2) \<Rightarrow>
       cl_incoming c2 = [] \<and> Reading \<notin> set (cl_work c2) \<and> fst (client_receive c2) = Inr [])"
  using empty_message_deafens [where c = "demo_client\<lparr>cl_work := [Writing ''hi'', Reading], cl_write_buffer := [''hi'']\<rparr>" and before = "[Writing ''hi'']"
      and after = "[]" and xs = "[Call_update [Written True, Message_read True ''welcome''], Call_send ''x'']"]
  by (simp add: demo_client_def del: sfor.simps)

text \<open>A connection that cannot be made is not reported either: no work is left, so the \<open>io\_service\<close> stops
  and no completion is ever run again, yet the client does not count as disconnected.\<close>

lemma failed_connect_is_silent:
  assumes "new_chat_client resolved = Inr c"
  shows "\<exists>c1. client_update [Connected False] c = (Inr (), c1) \<and> cl_stopped c1 \<and> \<not> cl_closed c1 \<and>
    (\<forall>es. client_update es c1 = (Inr (), c1))"
  using assms
  by (auto simp: new_chat_client_def client_connect_def begin_work_def client_update_def complete_def on_connected_def
      act_simps split: sum.splits)

subsection \<open>What the window shows\<close>

definition shown :: "string \<Rightarrow> curses_call list" where
  "shown text = (if text = [] then []
     else if hd text \<noteq> CHR ''/'' then [Print (takeWhile (\<lambda>c. c \<noteq> CHR 0x00) text)]
     else if hd (words_from [] text) = ''/clear'' then [Erase_screen, Draw_border] else [])"

lemma words_from_nonempty: "w \<noteq> [] \<Longrightarrow> words_from w s \<noteq> []"
  by (induction w s rule: words_from.induct) auto

lemma show_message_run:
  "message \<noteq> [] \<Longrightarrow> show_message message w = (Inr (), w\<lparr>wd_calls := wd_calls w @ shown message\<rparr>)"
proof (cases message)
  case (Cons c s)
  show ?thesis
  proof (cases "c = CHR ''/''")
    case True
    then have "words_from [] message = words_from ''/'' s" by (simp add: Cons is_space_def)
    moreover obtain t ts where "words_from ''/'' s = t # ts"
      using words_from_nonempty [of "''/''" s] by (cases "words_from ''/'' s") auto
    ultimately show ?thesis
      using Cons True
      by (simp add: show_message_def get_message_type_def parse_command_and_collect_response_def shown_def
        chat_window_clear_def call_def act_simps)
  next
    case False
    then show ?thesis
      by (simp add: Cons show_message_def get_message_type_def shown_def display_text_def call_def act_simps)
  qed
qed simp

lemma reads_run:
  assumes "\<forall>m \<in> set ms. m \<noteq> []" and "Reading \<in> set (cl_work c)" and "cl_read_buffer c = []"
  shows "\<exists>c'. sfor (map (Message_read True) ms) complete c = (Inr (), c') \<and> cl_incoming c' = cl_incoming c @ concat ms \<and>
    Reading \<in> set (cl_work c') \<and> cl_read_buffer c' = [] \<and> cl_closed c' = cl_closed c"
  using assms
proof (induction ms arbitrary: c)
  case (Cons m ms)
  have "drop_work (Message_read ok data) ks \<noteq> None \<longleftrightarrow> Reading \<in> set ks" for ok data ks
    by (induction ks) auto
  then obtain ks where ks: "drop_work (Message_read True m) (cl_work c) = Some ks" using Cons.prems(2) by blast
  let ?c1 = "c\<lparr>cl_work := ks @ [Reading], cl_incoming := cl_incoming c @ m\<rparr>"
  have one: "complete (Message_read True m) c = (Inr (), ?c1)"
    using Cons.prems ks by (simp add: complete_def on_message_read_def read_message_def begin_work_def Let_def act_simps)
  show ?case using Cons.IH [of ?c1] Cons.prems one by (auto simp: act_simps)
qed (simp add: act_simps)

lemma sseqs_step: "m s = (Inr (), s') \<Longrightarrow> sseqs (m # ms) s = sseqs ms s'"
  by (simp add: sseq_run)

text \<open>C39. In a turn without a key, in which the messages \<open>ms\<close> arrive and no operation fails, the window is
  sent their concatenation, as one text: it is printed up to a null character, unless it starts with a
  slash. Then it is not shown at all, and the screen is cleared if the first word of the concatenation
  is \<open>/clear\<close>. Reading goes on.\<close>

theorem turn_shows_concatenation:
  assumes "\<forall>m \<in> set ms. m \<noteq> []" and "Reading \<in> set (cl_work (tm_client t))" and "\<not> cl_stopped (tm_client t)"
    and "cl_read_buffer (tm_client t) = []" and "cl_incoming (tm_client t) = []"
    and "tn_completions n = map (Message_read True) ms" and "tn_key n = No_key"
    and "tn_rows n = wd_parent_y (tm_window t)" and "tn_columns n = wd_parent_x (tm_window t)"
  shows "\<exists>c'. terminal_turn n t = (Inr (), t\<lparr>tm_client := c',
      tm_window := (tm_window t)\<lparr>wd_calls := wd_calls (tm_window t) @ shown (concat ms) @ [Refresh_windows]\<rparr>\<rparr>) \<and>
    Reading \<in> set (cl_work c') \<and> \<not> cl_stopped c' \<and> cl_read_buffer c' = [] \<and> cl_incoming c' = [] \<and>
    cl_closed c' = cl_closed (tm_client t)"
proof -
  obtain c' where c': "sfor (map (Message_read True) ms) complete (tm_client t) = (Inr (), c')"
    "cl_incoming c' = concat ms" "Reading \<in> set (cl_work c')" "cl_read_buffer c' = []"
    "cl_closed c' = cl_closed (tm_client t)"
    using reads_run [OF assms(1,2,4)] assms(5) by auto
  let ?c1 = "c'\<lparr>cl_stopped := False\<rparr>" and ?c2 = "c'\<lparr>cl_stopped := False, cl_incoming := []\<rparr>"
  have "cl_work c' \<noteq> []" using c'(3) by auto
  then have update: "update_caught n t = (Inr (), t\<lparr>tm_client := ?c1\<rparr>)"
    using assms(3,6) c'(1) by (simp add: update_caught_def scatch_def on_client_def client_update_def act_simps)
  have receive: "on_client client_receive (t\<lparr>tm_client := ?c1\<rparr>) = (Inr (concat ms), t\<lparr>tm_client := ?c2\<rparr>)"
    using c'(2) by (simp add: on_client_def client_receive_def act_simps)
  let ?w = "(tm_window t)\<lparr>wd_calls := wd_calls (tm_window t) @ shown (concat ms)\<rparr>"
  have seen: "swhen (concat ms \<noteq> []) (on_window (show_message (concat ms))) (t\<lparr>tm_client := ?c2\<rparr>) =
      (Inr (), t\<lparr>tm_client := ?c2, tm_window := ?w\<rparr>)"
    by (simp add: on_window_def show_message_run act_simps) (simp add: shown_def)
  have rest: "sseqs [on_window (resize_on_shape_change (tn_rows n) (tn_columns n)),
     sbind (on_window (process_input (tn_key n) (tn_form n))) (\<lambda>text. case text of
       None \<Rightarrow> sreturn () | Some text \<Rightarrow> on_text_entry text),
     on_window (call [Refresh_windows])] (t\<lparr>tm_client := ?c2, tm_window := ?w\<rparr>) =
     (Inr (), t\<lparr>tm_client := ?c2, tm_window := ?w\<lparr>wd_calls := wd_calls ?w @ [Refresh_windows]\<rparr>\<rparr>)"
    using assms(7,8,9)
    by (simp add: on_window_def resize_on_shape_change_def process_input_def call_def act_simps)
  have said: "sbind (on_client client_receive) (\<lambda>response. swhen (response \<noteq> []) (on_window (show_message response)))
      (t\<lparr>tm_client := ?c1\<rparr>) = (Inr (), t\<lparr>tm_client := ?c2, tm_window := ?w\<rparr>)"
    using receive seen by (simp add: sbind_def)
  have "terminal_turn n t = (Inr (), t\<lparr>tm_client := ?c2, tm_window := ?w\<lparr>wd_calls := wd_calls ?w @ [Refresh_windows]\<rparr>\<rparr>)"
    unfolding terminal_turn_def
      sseqs_step [of "update_caught n", OF update]
      sseqs_step [of "sbind (on_client client_receive) f" for f, OF said]
    by (rule rest)
  then show ?thesis using c' by (intro exI [of _ ?c2]) simp
qed

definition demo_turn :: "string list \<Rightarrow> turn" where
  "demo_turn ms = \<lparr>tn_completions = map (Message_read True) ms, tn_rows = 24, tn_columns = 80, tn_key = No_key,
     tn_form = \<lparr>fm_buffer = replicate 160 (CHR '' ''), fm_cursor_y = 0, fm_cursor_x = 0\<rparr>,
     tn_what = (\<lambda>_. [])\<rparr>"

definition demo_terminal :: terminal where
  "demo_terminal = \<lparr>tm_client = demo_client\<lparr>cl_work := [Reading]\<rparr>, tm_window = new_window 24 80, tm_done = False\<rparr>"

theorem turn_shows_concatenation_witness:
  "wd_calls (tm_window (snd (terminal_turn (demo_turn [''Hello '', ''there'']) demo_terminal))) =
     [Print ''Hello there'', Refresh_windows]"
proof -
  have "shown (concat [''Hello '', ''there'']) = [Print ''Hello there'']" by (simp add: shown_def)
  then show ?thesis
    using turn_shows_concatenation [of "[''Hello '', ''there'']" demo_terminal "demo_turn [''Hello '', ''there'']"]
    by (auto simp: demo_turn_def demo_terminal_def demo_client_def new_window_def)
qed

text \<open>The server answers \<open>/clear\<close> and \<open>/ping\<close> with a message each. If the client reads both in one turn,
  it neither clears the screen nor shows the answer; one after the other it does both.\<close>

theorem clear_swallows_reply:
  "w_sent (snd (sseq (exec_global E Global_clear u []) (exec_global E Global_ping u []) w)) =
     w_sent w @ [(u, ''/clear''), (u, ''Pong.'')] \<and>
   wd_calls (tm_window (snd (terminal_turn (demo_turn [''/clear'', ''Pong.'']) demo_terminal))) = [Refresh_windows] \<and>
   wd_calls (tm_window (snd (terminal_loop [demo_turn [''/clear''], demo_turn [''Pong.'']] demo_terminal))) =
     [Erase_screen, Draw_border, Refresh_windows, Print ''Pong.'', Refresh_windows]"
proof (intro conjI)
  show "w_sent (snd (sseq (exec_global E Global_clear u []) (exec_global E Global_ping u []) w)) =
     w_sent w @ [(u, ''/clear''), (u, ''Pong.'')]"
    by (simp add: say_def act_simps)
  show "wd_calls (tm_window (snd (terminal_turn (demo_turn [''/clear'', ''Pong.'']) demo_terminal))) = [Refresh_windows]"
    by code_simp
  show "wd_calls (tm_window (snd (terminal_loop [demo_turn [''/clear''], demo_turn [''Pong.'']] demo_terminal))) =
     [Erase_screen, Draw_border, Refresh_windows, Print ''Pong.'', Refresh_windows]"
    by code_simp
qed

subsection \<open>The entry field\<close>

text \<open>The text that is entered is what stands before the cursor, as long as the terminal keeps its width.
  Once the terminal is wider than the field, a cursor in the second row lies, by the count of the
  client, beyond the end of the field's buffer.\<close>

lemma enter_sends_text:
  assumes "fm_cursor_y f * nat (wd_parent_x w) + fm_cursor_x f = length text" and "length text < 2 ^ 64"
    and "fm_buffer f = text @ blanks"
  shows "fst (process_input Key_enter f w) = Inr (Some text)"
  using assms by (simp add: process_input_def get_field_string_def get_field_size_def call_def act_simps)

lemma widened_field_overread:
  assumes "length (fm_buffer f) = 2 * nat width" and "fm_cursor_y f = 1" and "2 * width + 1 < x" and "0 \<le> width"
    and "x + int (fm_cursor_x f) < 2 ^ 64" and "x \<noteq> wd_parent_x w"
  shows "fst (sseq (resize_on_shape_change y x) (sbind (process_input Key_enter f) (\<lambda>_. sreturn ())) w) =
    Inl (Undefined Out_of_bounds)"
proof -
  have "nat x + fm_cursor_x f < 2 ^ 64" "nat x + fm_cursor_x f > length (fm_buffer f) + 1"
    using assms by (simp_all add: nat_less_iff)
  then show ?thesis
    using assms(2,6)
    by (simp add: resize_on_shape_change_def process_input_def get_field_string_def get_field_size_def call_def act_simps)
qed

end
