(* ===== verification/Chat_Window.thy ===== *)
theory Chat_Window
  imports Chat_Client
begin

section \<open>The life of the terminal window (module removeme\_chatclient)\<close>

text \<open>
  The constructor and the destructor of \<open>ChatWindowImpl\<close> as the calls of curses and of its form library
  that they make, in order, and \<open>ChatWindow::update\<close>. What the calls return is given: the size of the
  terminal, and whether the field and the form could be created. The window of Chat\_Client is what is
  left when the constructor has returned.
\<close>

datatype curses_window = Standard_screen | View | Entry | Entry_sub

datatype setup_call =
    Init_screen | No_echo | Half_delay int
  | New_window curses_window int int int int | Scroll curses_window | Border curses_window
  | Derived_window curses_window curses_window int int int int
  | New_field int int | Set_field_buffer string | Set_field_options
  | New_form | Set_form_window curses_window | Set_form_sub curses_window | Post_form
  | Refresh_window curses_window
  | Unpost_form | Free_form | Free_field | Delete_window curses_window | End_screen

type_synonym 'a setup_op = "(setup_call list, 'a) op"

definition entry_size :: int where
  "entry_size = 3"

definition setup_calls :: "setup_call list \<Rightarrow> unit setup_op" where
  "setup_calls cs = smodify (\<lambda>t. t @ cs)"

definition assert_that :: "bool \<Rightarrow> unit setup_op" where
  "assert_that b = swhen (\<not> b) (undefined_behaviour Failed_assertion)"

definition open_chat_window :: "int \<Rightarrow> int \<Rightarrow> int \<Rightarrow> bool \<Rightarrow> bool \<Rightarrow> window setup_op" where
  "open_chat_window update_delay y x field_made form_made = sseq (sseqs [
     setup_calls [Init_screen, No_echo, Half_delay update_delay,
       New_window View (y - entry_size) x 0 0, Scroll View,
       New_window Entry entry_size x (y - entry_size) 0, Border Entry,
       Derived_window Entry_sub Entry (entry_size - 1) x 1 0,
       New_field (entry_size - 1) x],
     assert_that field_made,
     setup_calls [Set_field_buffer [], Set_field_options, New_form],
     assert_that form_made,
     setup_calls [Set_form_window Entry, Set_form_sub Entry_sub, Post_form,
       Refresh_window Standard_screen, Refresh_window Entry]])
     (sreturn (new_window y x))"

definition close_chat_window :: "unit setup_op" where
  "close_chat_window = setup_calls [Unpost_form, Free_form, Free_field, Delete_window Entry, Delete_window View, End_screen]"

definition refresh_window :: "(window, unit) op" where
  "refresh_window = call [Refresh_windows]"

text \<open>The text that was entered is returned; the callback gets it.\<close>

definition chat_window_update :: "int \<Rightarrow> int \<Rightarrow> key \<Rightarrow> form \<Rightarrow> (window, string option) op" where
  "chat_window_update y x k f = sseq (resize_on_shape_change y x)
     (sbind (process_input k f) (\<lambda>text. sseq refresh_window (sreturn text)))"

subsection \<open>What is created and what is freed\<close>

definition created :: "setup_call list \<Rightarrow> curses_window list" where
  "created t = concat (map (\<lambda>c. case c of New_window w _ _ _ _ \<Rightarrow> [w] | Derived_window w _ _ _ _ _ \<Rightarrow> [w] | _ \<Rightarrow> []) t)"

definition deleted :: "setup_call list \<Rightarrow> curses_window list" where
  "deleted t = concat (map (\<lambda>c. case c of Delete_window w \<Rightarrow> [w] | _ \<Rightarrow> []) t)"

text \<open>curses wants the windows that are derived from a window deleted before it.\<close>

fun parents_last :: "curses_window set \<Rightarrow> (curses_window \<times> curses_window) set \<Rightarrow> setup_call list \<Rightarrow> bool" where
  "parents_last ws D [] \<longleftrightarrow> True"
| "parents_last ws D (c # cs) \<longleftrightarrow> (case c of
     Derived_window w p _ _ _ _ \<Rightarrow> parents_last ws (insert (w, p) D) cs
   | Delete_window p \<Rightarrow> (\<forall>(w, q) \<in> D. q = p \<longrightarrow> w \<in> ws) \<and> parents_last (insert p ws) D cs
   | _ \<Rightarrow> parents_last ws D cs)"

definition window_life :: "int \<Rightarrow> int \<Rightarrow> int \<Rightarrow> setup_call list" where
  "window_life d y x = snd (sbind (open_chat_window d y x True True) (\<lambda>_. close_chat_window) [])"

text \<open>The constructor returns exactly when the field and the form were made. A window that is opened and
  closed creates each of its three windows once and deletes none twice, but never deletes the derived
  one, and deletes the entry window while the derived one is there.\<close>

theorem window_lifetime:
  shows "\<exists>t. open_chat_window d y x a b [] = (if a \<and> b then (Inr (new_window y x), t) else (Inl (Undefined Failed_assertion), t))"
    and "created (window_life d y x) = [View, Entry, Entry_sub]" and "deleted (window_life d y x) = [Entry, View]"
    and "\<not> parents_last {} {} (window_life d y x)"
proof -
  show "\<exists>t. open_chat_window d y x a b [] = (if a \<and> b then (Inr (new_window y x), t) else (Inl (Undefined Failed_assertion), t))"
    by (simp add: open_chat_window_def setup_calls_def assert_that_def act_simps)
  have "window_life d y x = [Init_screen, No_echo, Half_delay d,
       New_window View (y - 3) x 0 0, Scroll View, New_window Entry 3 x (y - 3) 0, Border Entry,
       Derived_window Entry_sub Entry 2 x 1 0, New_field 2 x,
       Set_field_buffer [], Set_field_options, New_form,
       Set_form_window Entry, Set_form_sub Entry_sub, Post_form, Refresh_window Standard_screen, Refresh_window Entry,
       Unpost_form, Free_form, Free_field, Delete_window Entry, Delete_window View, End_screen]"
    by (simp add: window_life_def open_chat_window_def close_chat_window_def setup_calls_def assert_that_def entry_size_def act_simps)
  then show "created (window_life d y x) = [View, Entry, Entry_sub]" "deleted (window_life d y x) = [Entry, View]"
    "\<not> parents_last {} {} (window_life d y x)"
    by (simp_all add: created_def deleted_def)
qed

text \<open>A turn of the main loop in which nothing arrives and no text is being written updates the window as \<open>update\<close> does.\<close>

lemma update_run:
  "chat_window_update y x k f w =
     sseq (resize_on_shape_change y x) (sbind (process_input k f) (\<lambda>text. sseq (call [Refresh_windows]) (sreturn text))) w"
  by (simp add: chat_window_update_def refresh_window_def)

lemma client_send_run:
  "\<forall>k \<in> set (cl_work c). \<not> is_writing k \<Longrightarrow> client_send m c = (Inr (), if m = [] then c
     else c\<lparr>cl_write_buffer := cl_write_buffer c @ [m], cl_work := cl_work c @ [Writing m]\<rparr>)"
  by (simp add: client_send_def begin_work_def act_simps)

lemma turn_updates_window:
  assumes "update_caught n t = (Inr (), t)" and "client_receive (tm_client t) = (Inr [], tm_client t)"
    and "\<forall>k \<in> set (cl_work (tm_client t)). \<not> is_writing k"
  shows "case terminal_turn n t of (r, t') \<Rightarrow>
    (case chat_window_update (tn_rows n) (tn_columns n) (tn_key n) (tn_form n) (tm_window t) of (r', w) \<Rightarrow>
       tm_window t' = w \<and> (r = Inr () \<longleftrightarrow> (\<exists>text. r' = Inr text)))"
proof -
  have t: "t\<lparr>tm_client := tm_client t\<rparr> = t" "t\<lparr>tm_window := tm_window t\<rparr> = t" by simp_all
  show ?thesis
    using assms(1,2)
    by (auto simp: client_send_run [OF assms(3)] terminal_turn_def update_run on_client_def on_window_def act_simps on_text_entry_def call_def
      resize_on_shape_change_def split: prod.splits sum.splits option.splits if_splits)
qed

end
