(* ===== verification/Dsl_Text.thy ===== *)
theory Dsl_Text
  imports Game_Spec
begin

section \<open>The text of rule expressions (module game\_manager)\<close>

text \<open>
  The free functions of DSLInterpreter.cpp: they take apart the strings of the rule language, apply
  attributes to expressions, and evaluate conditions. Positions are \<open>size_t\<close> or \<open>int\<close> as in the
  source, with the conversions between them. \<open>lcast\<close> is \<open>boost::lexical_cast<int>\<close>; printing is left out.
\<close>

definition int_to_size :: "int \<Rightarrow> nat" where
  "int_to_size i = nat (i mod 2 ^ 64)"

definition count_unclosed_parenthesis :: "string \<Rightarrow> int" where
  "count_unclosed_parenthesis s =
     foldl (\<lambda>n c. if c = CHR ''('' then n + 1 else if c = CHR '')'' then n - 1 else n) 0 s"

fun dot_tokens :: "int \<Rightarrow> string \<Rightarrow> string list \<Rightarrow> string list" where
  "dot_tokens n temp [] = (if temp = [] then [] else [temp])"
| "dot_tokens n temp (buffer # rest) =
     (let n' = n + count_unclosed_parenthesis buffer in
      if n' = 0 then (temp @ buffer) # dot_tokens n' [] rest
      else dot_tokens n' (temp @ buffer @ ''.'') rest)"

definition tokenize_dot_notation :: "string \<Rightarrow> string list" where
  "tokenize_dot_notation s = dot_tokens 0 [] (getlines (CHR ''.'') s)"

definition ATTRIBUTES :: "string list" where
  "ATTRIBUTES = [''upfrom'', ''size'', ''elements'', ''contains'', ''collect'']"

definition is_attribute :: "string \<Rightarrow> bool" where
  "is_attribute s \<longleftrightarrow> list_ex (\<lambda>a. str_find s a 0 \<noteq> npos) ATTRIBUTES"

definition inside_parenthesis :: "string \<Rightarrow> exn + string" where
  "inside_parenthesis s =
     (let start = int_to_size (size_to_int (size_plus (str_find s ''('' 0) 1));
          close = str_find s '')'' 0
      in case substr s start (size_minus close start) of
           None \<Rightarrow> Inl Out_of_range_exn | Some t \<Rightarrow> Inr t)"

definition is_all_digits :: "string \<Rightarrow> bool" where
  "is_all_digits s \<longleftrightarrow> find_if s (\<lambda>c. \<not> is_digit c) = None"

subsection \<open>Attributes\<close>

text \<open>The handler of \<open>applySizeAttribute\<close> prints and falls off the end of the function.\<close>

definition apply_size :: "expr \<Rightarrow> exn + expr" where
  "apply_size e = (case cast_list e of
     Inl _ \<Rightarrow> Inl (Undefined Missing_return)
   | Inr l \<Rightarrow> Inr (EInt (size_to_int (length l))))"

definition lexical_cast_int :: "(string \<Rightarrow> int option) \<Rightarrow> string \<Rightarrow> exn + int" where
  "lexical_cast_int lcast s = (case lcast s of None \<Rightarrow> Inl Bad_cast_exn | Some i \<Rightarrow> Inr i)"

text \<open>The loop increments past an upper limit of \<open>INT_MAX\<close>.\<close>

definition apply_upfrom :: "(string \<Rightarrow> int option) \<Rightarrow> expr \<Rightarrow> string \<Rightarrow> exn + expr" where
  "apply_upfrom lcast e attr =
     (if which e \<noteq> 2 then Inr (EList [])
      else ebind (inside_parenthesis attr) (\<lambda>t. ebind (lexical_cast_int lcast t) (\<lambda>lower.
           ebind (cast_int e) (\<lambda>upper.
             if lower \<le> upper \<and> upper = int_max then Inl (Undefined Signed_overflow)
             else Inr (EList (map EInt [lower..upper]))))))"

fun contains_int :: "int \<Rightarrow> expr list \<Rightarrow> exn + bool" where
  "contains_int i [] = Inr False"
| "contains_int i (e # es) = ebind (get_int e) (\<lambda>j. if j = i then Inr True else contains_int i es)"

fun contains_str :: "string \<Rightarrow> expr list \<Rightarrow> exn + bool" where
  "contains_str s [] = Inr False"
| "contains_str s (e # es) = ebind (cast_str e) (\<lambda>t. if t = s then Inr True else contains_str s es)"

definition apply_contains :: "(string \<Rightarrow> int option) \<Rightarrow> expr \<Rightarrow> string \<Rightarrow> exn + expr" where
  "apply_contains lcast e attr =
     (if which e \<noteq> 1 then Inr (EBool False)
      else ebind (cast_list e) (\<lambda>l. ebind (inside_parenthesis attr) (\<lambda>p.
        ebind (if is_all_digits p then ebind (lexical_cast_int lcast p) (\<lambda>i. contains_int i l) else contains_str p l)
          (\<lambda>b. Inr (EBool b)))))"

text \<open>\<open>Expression("fakeExpression")\<close>: of the alternatives of the variant, the array converts to
  \<open>bool\<close> by a standard conversion, to \<open>std::string\<close> only by a user-defined one.\<close>

definition apply_collect :: "expr \<Rightarrow> string \<Rightarrow> exn + expr" where
  "apply_collect e attr = Inr (EBool True)"

definition apply_attribute :: "(string \<Rightarrow> int option) \<Rightarrow> expr \<Rightarrow> string \<Rightarrow> exn + expr" where
  "apply_attribute lcast e attr =
     (if str_find attr ''size'' 0 \<noteq> npos then apply_size e
      else if str_find attr ''upfrom'' 0 \<noteq> npos then apply_upfrom lcast e attr
      else if str_find attr ''contains'' 0 \<noteq> npos then apply_contains lcast e attr
      else if str_find attr ''collect'' 0 \<noteq> npos then apply_collect e attr
      else Inr (EInt 0))"

subsection \<open>Conditions\<close>

fun str_less :: "string \<Rightarrow> string \<Rightarrow> bool" where
  "str_less [] t \<longleftrightarrow> t \<noteq> []"
| "str_less (c # s) [] \<longleftrightarrow> False"
| "str_less (c # s) (d # t) \<longleftrightarrow> (of_char c :: nat) < of_char d \<or> c = d \<and> str_less s t"

definition compare_with :: "('v \<Rightarrow> 'v \<Rightarrow> bool) \<Rightarrow> string \<Rightarrow> 'v \<Rightarrow> 'v \<Rightarrow> bool" where
  "compare_with lt cmp a b =
     (if cmp = ''=='' then a = b else if cmp = ''<'' then lt a b
      else if cmp = ''!='' then a \<noteq> b else lt b a)"

definition evaluate_equality :: "expr \<Rightarrow> expr \<Rightarrow> string \<Rightarrow> exn + bool" where
  "evaluate_equality e1 e2 cmp = (case e1 of
     EInt i \<Rightarrow> ebind (cast_int e2) (\<lambda>j. Inr (compare_with (<) cmp i j))
   | EBool b \<Rightarrow> ebind (cast_bool e2) (\<lambda>c. Inr (compare_with (\<lambda>x y. \<not> x \<and> y) cmp b c))
   | _ \<Rightarrow> ebind (cast_str e1) (\<lambda>s. ebind (cast_str e2) (\<lambda>t. Inr (compare_with str_less cmp s t))))"

text \<open>\<open>tokenizer\<close> keeps its positions in \<open>int\<close>s; each round moves the end forward, so as many rounds
  as there are characters, and one for the end, suffice when the symbol is not empty.\<close>

fun tokenizer_loop :: "nat \<Rightarrow> string \<Rightarrow> string \<Rightarrow> int \<Rightarrow> exn + string list" where
  "tokenizer_loop 0 s symb pos = Inl Out_of_fuel"
| "tokenizer_loop (Suc n) s symb pos =
     (let start = size_to_int (str_find_first_not_of s symb (int_to_size pos)) in
      if int_to_size start = npos then Inr []
      else let pos' = size_to_int (str_find s symb (int_to_size start)) in
        case substr s (int_to_size start) (int_to_size (pos' - start)) of
          None \<Rightarrow> Inl Out_of_range_exn
        | Some t \<Rightarrow> ebind (tokenizer_loop n s symb pos') (\<lambda>ts. Inr (t # ts)))"

definition tokenizer :: "string \<Rightarrow> string \<Rightarrow> exn + string list" where
  "tokenizer s symb = tokenizer_loop (length s + 1) s symb 0"

fun eval_list_contains :: "expr list \<Rightarrow> expr \<Rightarrow> expr \<Rightarrow> exn + bool" where
  "eval_list_contains [] attribute other = Inr False"
| "eval_list_contains (e # es) attribute other = ebind (cast_map e) (\<lambda>m. case m of
     [] \<Rightarrow> Inl (Undefined Out_of_bounds)
   | (_, first) # _ \<Rightarrow> ebind (cast_map first) (\<lambda>vars. ebind (cast_str attribute) (\<lambda>a.
       case map_find vars a of
         None \<Rightarrow> eval_list_contains es attribute other
       | Some v \<Rightarrow> ebind (evaluate_equality v other ''=='') (\<lambda>b.
           if b then Inr True else eval_list_contains es attribute other))))"

text \<open>An element without the attribute stands for the map in its first entry.\<close>

definition list_attribute_of :: "string \<Rightarrow> expr \<Rightarrow> exn + expr list" where
  "list_attribute_of a e = ebind (cast_map e) (\<lambda>m.
     ebind (case map_find m a of
        Some _ \<Rightarrow> Inr m
      | None \<Rightarrow> (case m of [] \<Rightarrow> Inl (Undefined Out_of_bounds) | (_, first) # _ \<Rightarrow> cast_map first)) (\<lambda>actual.
       case map_find actual a of None \<Rightarrow> Inr [] | Some v \<Rightarrow> Inr [v]))"

definition get_list_attribute :: "expr list \<Rightarrow> string \<Rightarrow> exn + expr list" where
  "get_list_attribute l a = ebind (emapM (list_attribute_of a) l) (\<lambda>vs. Inr (concat vs))"

text \<open>The search for the comparison operator tests the position found for truth: zero is false,
  \<open>npos\<close> is true.\<close>

fun find_comparison :: "string \<Rightarrow> string list \<Rightarrow> exn + string" where
  "find_comparison s [] = Inr []"
| "find_comparison s (c # cs) =
     (if str_find s c 0 \<noteq> 0
      then (case substr s (str_find_first_of s c 0) (str_find_last_of s c) of
              None \<Rightarrow> Inl Out_of_range_exn | Some t \<Rightarrow> Inr t)
      else find_comparison s cs)"

definition checked_substr :: "string \<Rightarrow> nat \<Rightarrow> nat \<Rightarrow> exn + string" where
  "checked_substr s pos n = (case substr s pos n of None \<Rightarrow> Inl Out_of_range_exn | Some t \<Rightarrow> Inr t)"

fun collect_loop :: "string list \<Rightarrow> string list \<Rightarrow> string \<Rightarrow> emap \<Rightarrow> expr list \<Rightarrow> expr list \<Rightarrow> exn + expr list" where
  "collect_loop lhs rhs cmp vars acc [] = Inr acc"
| "collect_loop lhs rhs cmp vars acc (e # es) = ebind (cast_map e) (\<lambda>m.
     if length lhs < 2 \<or> rhs = [] then Inl (Undefined Out_of_bounds)
     else (case (map_find m (lhs ! 1), map_find vars (rhs ! 0)) of
       (Some a, Some b) \<Rightarrow> ebind (evaluate_equality a b cmp) (\<lambda>holds.
         collect_loop lhs rhs cmp vars (if holds then acc @ [EMap m] else acc) es)
     | _ \<Rightarrow> Inr acc))"

definition get_collect_list :: "expr list \<Rightarrow> string \<Rightarrow> emap \<Rightarrow> exn + expr list" where
  "get_collect_list l condition vars =
     (let comma = str_find condition '','' 0 in
      ebind (checked_substr condition 0 (size_minus comma 1)) (\<lambda>_.
      ebind (find_comparison condition [''<'', ''=='', ''<'', ''!='']) (\<lambda>comparison.
      ebind (checked_substr condition (size_plus comma 1) (size_minus (str_find condition comparison 0) 2)) (\<lambda>lhs.
      ebind (checked_substr condition (size_plus (str_find_last_of condition comparison) 1)
               (size_minus (length condition) 1)) (\<lambda>rhs.
      ebind (tokenizer lhs ''.'') (\<lambda>tl. ebind (tokenizer rhs ''.'') (\<lambda>tr.
        collect_loop tl tr comparison vars [] l)))))))"

definition evaluate_list_exp :: "expr \<Rightarrow> exn + string list" where
  "evaluate_list_exp e = ebind (cast_str e) (\<lambda>s.
     let opening = str_find s ''('' 0 in
     ebind (checked_substr s 0 opening) (\<lambda>before. ebind (tokenizer before ''.'') (\<lambda>ts.
       if length ts < 3 then Inl (Undefined Out_of_bounds)
       else
         let attribute = ts ! 2;
             contains_collect = (if attribute = ''collect'' then ts ! 2 else if length ts > 3 then ts ! 3 else ''none'')
         in ebind (if opening = npos then Inr ''none''
                   else ebind (checked_substr s (size_plus opening 1) (size_minus (length s) 2)) (\<lambda>c.
                     if c = [] then Inl (Undefined Out_of_bounds) else Inr (butlast c))) (\<lambda>condition.
           Inr [ts ! 0, attribute, contains_collect, condition]))))"

text \<open>\<open>interpolateString\<close> drops the first pair of braces; without one the result is empty.\<close>

definition interpolate_string :: "string \<Rightarrow> string" where
  "interpolate_string s =
     (let left = size_to_int (str_find_first_of s ''{'' 0);
          right = size_to_int (str_find_first_of s ''}'' (int_to_size left))
      in if right > left \<and> int_to_size right \<noteq> npos
         then take (nat left) s @ take (nat (right - left - 1)) (drop (nat left + 1) s) @ drop (nat right + 1) s
         else [])"

end
