(* ===== verification/Interpreter.thy ===== *)
theory Interpreter
  imports Dsl_Text
begin

section \<open>The rule interpreter (module game\_manager)\<close>

text \<open>
  \<open>InterpretVisitor\<close> of DSLInterpreter.cpp: name lookup, the evaluation of expressions, and one visit
  per kind of rule, as actions on the game state. \<open>tokenizeDotNotation\<close> of an empty string is empty,
  and a lookup without indices fails the assertion in \<open>getPtr\<close>. Parameters: \<open>lcast\<close>
  (\<open>boost::lexical_cast<int>\<close>), \<open>now\<close> (\<open>time(nullptr)\<close>) and \<open>shuf\<close> (\<open>std::shuffle\<close> with a default
  engine).
\<close>

subsection \<open>Lookups\<close>

fun search_scopes :: "string list \<Rightarrow> emap list \<Rightarrow> nat list \<Rightarrow> exn + (location \<times> expr) option" where
  "search_scopes ks scopes [] = Inr None"
| "search_scopes ks scopes (i # js) = ebind (get_ptr ks (scopes ! i)) (\<lambda>p. case p of
     Some e \<Rightarrow> Inr (Some (In_context i ks, e))
   | None \<Rightarrow> search_scopes ks scopes js)"

definition lookup_local_scope :: "string list \<Rightarrow> game_state \<Rightarrow> exn + (location \<times> expr) option" where
  "lookup_local_scope ks s = search_scopes ks (gs_context s) (rev [0..<length (gs_context s)])"

definition lookup_global_scope :: "string list \<Rightarrow> game_state \<Rightarrow> exn + (location \<times> expr) option" where
  "lookup_global_scope ks s = ebind (get_ptr ks (gs_variables s)) (\<lambda>p. case p of
     Some e \<Rightarrow> Inr (Some (In_variables ks, e))
   | None \<Rightarrow> ebind (get_ptr ks (gs_constants s)) (\<lambda>q. Inr (map_option (Pair (In_constants ks)) q)))"

definition lookup_with_indices :: "string list \<Rightarrow> game_state \<Rightarrow> exn + (location \<times> expr) option" where
  "lookup_with_indices ks s = ebind (lookup_local_scope ks s) (\<lambda>p. case p of
     Some x \<Rightarrow> Inr (Some x) | None \<Rightarrow> lookup_global_scope ks s)"

definition lookup_name :: "string \<Rightarrow> game_state \<Rightarrow> exn + (location \<times> expr) option" where
  "lookup_name name s = lookup_with_indices (tokenize_dot_notation name) s"

definition get_expression_ptr :: "expr \<Rightarrow> game_state \<Rightarrow> exn + (location \<times> expr) option" where
  "get_expression_ptr name s = ebind (cast_str name) (\<lambda>n. lookup_name n s)"

subsection \<open>Evaluation\<close>

fun apply_attributes :: "(string \<Rightarrow> int option) \<Rightarrow> string list \<Rightarrow> expr \<Rightarrow> exn + expr" where
  "apply_attributes lcast [] e = Inr e"
| "apply_attributes lcast (a # as) e = ebind (apply_attribute lcast e a) (apply_attributes lcast as)"

definition evaluate_expression :: "(string \<Rightarrow> int option) \<Rightarrow> expr \<Rightarrow> game_state \<Rightarrow> exn + expr" where
  "evaluate_expression lcast e s = (case e of
     EStr str \<Rightarrow>
       (let tokens = tokenize_dot_notation str;
            names = takeWhile (\<lambda>t. \<not> is_attribute t) tokens;
            attributes = dropWhile (\<lambda>t. \<not> is_attribute t) tokens
        in ebind (lookup_with_indices names s) (\<lambda>r. case r of
             None \<Rightarrow> Inl (Runtime_exn (''invalid object name in evaluateExpression: '' @ str))
           | Some (_, v) \<Rightarrow> apply_attributes lcast attributes v))
   | _ \<Rightarrow> Inr e)"

definition eval_in :: "(string \<Rightarrow> int option) \<Rightarrow> expr \<Rightarrow> expr game_op" where
  "eval_in lcast e = sbind (sread (evaluate_expression lcast e)) of_exn"

text \<open>\<open>state.ruleStateStack.top()\<close>.\<close>

definition top_state :: "rule_state game_op" where
  "top_state = sbind (sread gs_stack) (\<lambda>st. case st of
     [] \<Rightarrow> undefined_behaviour Out_of_bounds | r # _ \<Rightarrow> sreturn r)"

definition modify_top :: "(rule_state \<Rightarrow> rule_state) \<Rightarrow> unit game_op" where
  "modify_top f = smodify (\<lambda>s. s\<lparr>gs_stack := (case gs_stack s of [] \<Rightarrow> [] | r # rs \<Rightarrow> f r # rs)\<rparr>)"

definition finish_top :: "unit game_op" where
  "finish_top = modify_top (\<lambda>r. r\<lparr>rs_finished := True\<rparr>)"

definition set_variables :: "emap \<Rightarrow> unit game_op" where
  "set_variables vars = smodify (\<lambda>s. s\<lparr>gs_variables := vars\<rparr>)"

subsection \<open>Input rules\<close>

text \<open>The choices are written through the begin iterator of an empty vector. The name of the result
  is looked up in the state; a missing timeout stays missing.\<close>

definition create_input_request ::
  "(string \<Rightarrow> int option) \<Rightarrow> input_type \<Rightarrow> expr \<Rightarrow> expr \<Rightarrow> expr \<Rightarrow> expr \<Rightarrow> expr option \<Rightarrow> input_request game_op"
where
  "create_input_request lcast ty target prompt choices result timeout =
     sbind (eval_in lcast target) (\<lambda>t. sbind (of_exn (cast_map t)) (\<lambda>user.
     if map_find user ''name'' = None then undefined_behaviour Failed_assertion
     else sbind (of_exn (cast_str prompt)) (\<lambda>raw.
     sbind (eval_in lcast choices) (\<lambda>c. sbind (of_exn (cast_list c)) (\<lambda>l.
     sbind (case l of [] \<Rightarrow> sreturn () | x # _ \<Rightarrow> sseq (of_exn (cast_str x)) (undefined_behaviour Out_of_bounds)) (\<lambda>_.
     sbind (sbind (sread (get_expression_ptr result)) of_exn) (\<lambda>p. case p of
       None \<Rightarrow> sthrow (Runtime_exn ''invalid result object in '')
     | Some (loc, _) \<Rightarrow> sbind (case timeout of
           None \<Rightarrow> sreturn None
         | Some e \<Rightarrow> sbind (eval_in lcast e) (\<lambda>v. sbind (of_exn (cast_int v)) (\<lambda>i. sreturn (Some i)))) (\<lambda>tout.
         sreturn \<lparr>ir_type = ty, ir_target = user, ir_prompt = interpolate_string raw, ir_choices = [],
           ir_result = loc, ir_timeout = tout\<rparr>))))))))"

text \<open>\<open>InputText\<close> passes \<open>{}\<close> for the choices: a default expression, the empty map.\<close>

definition visit_input_choice :: "(string \<Rightarrow> int option) \<Rightarrow> expr \<Rightarrow> expr \<Rightarrow> expr \<Rightarrow> expr \<Rightarrow> expr option \<Rightarrow> unit game_op" where
  "visit_input_choice lcast target prompt choices result timeout =
     sbind (create_input_request lcast CHOICE target prompt choices result timeout) enqueue_input_request"

definition visit_input_text :: "(string \<Rightarrow> int option) \<Rightarrow> expr \<Rightarrow> expr \<Rightarrow> expr \<Rightarrow> expr option \<Rightarrow> unit game_op" where
  "visit_input_text lcast target prompt result timeout =
     sbind (create_input_request lcast TEXT target prompt (EMap []) result timeout) enqueue_input_request"

subsection \<open>Control flow and arithmetic\<close>

definition modify_scope :: "(emap \<Rightarrow> emap) \<Rightarrow> unit game_op" where
  "modify_scope f = sbind (sread gs_context) (\<lambda>c. if c = [] then undefined_behaviour Out_of_bounds
     else smodify (\<lambda>s. s\<lparr>gs_context := butlast c @ [f (last c)]\<rparr>))"

definition visit_for_each :: "expr \<Rightarrow> expr \<Rightarrow> int \<Rightarrow> unit game_op" where
  "visit_for_each elems elem sz =
     sbind (of_exn (cast_list elems)) (\<lambda>l. sbind (of_exn (cast_str elem)) (\<lambda>x. sbind top_state (\<lambda>r.
       if rs_index r \<ge> sz then sseq finish_top (modify_scope (map_erase x))
       else sseq (modify_top (\<lambda>r. r\<lparr>rs_nested_in_progress := True\<rparr>))
         (if rs_index r < 0 \<or> int (length l) \<le> rs_index r then undefined_behaviour Out_of_bounds
          else sseq (modify_scope (map_put x (l ! nat (rs_index r))))
            (modify_top (\<lambda>r. r\<lparr>rs_index := rs_index r + 1\<rparr>))))))"

definition visit_add :: "(string \<Rightarrow> int option) \<Rightarrow> expr \<Rightarrow> expr \<Rightarrow> unit game_op" where
  "visit_add lcast target val =
     sbind top_state (\<lambda>_. sbind (of_exn (cast_str target)) (\<lambda>name.
     let path = tokenize_dot_notation name in
     sbind (sbind (sread (\<lambda>s. get_ptr path (gs_variables s))) of_exn) (\<lambda>p. case p of
       None \<Rightarrow> sthrow (Runtime_exn (''invalid '' @ [CHR 0x22] @ ''to'' @ [CHR 0x22] @ '' object name in Add rule''))
     | Some e \<Rightarrow> sbind (of_exn (cast_int e)) (\<lambda>a. sbind (eval_in lcast val) (\<lambda>v.
         sbind (of_exn (cast_int v)) (\<lambda>b.
           if \<not> fits_int (a + b) then undefined_behaviour Signed_overflow
           else sseq (sbind (sbind (sread (\<lambda>s. store path (EInt (a + b)) (gs_variables s))) of_exn) set_variables)
             finish_top))))))"

definition visit_global_message :: "string \<Rightarrow> unit game_op" where
  "visit_global_message content = enqueue_global_message (interpolate_string content)"

definition visit_timer :: "int \<Rightarrow> nat \<Rightarrow> expr \<Rightarrow> timer_mode \<Rightarrow> expr option \<Rightarrow> unit game_op" where
  "visit_timer now i duration mode flag = sbind top_state (\<lambda>r.
     if \<not> rs_nested_in_progress r then
       sseq (modify_top (\<lambda>r. r\<lparr>rs_nested_in_progress := True\<rparr>))
         (sbind (of_exn (cast_int duration)) (\<lambda>d. smodify (\<lambda>s. s\<lparr>gs_timers := gs_timers s @
            [\<lparr>t_started = now, t_duration = d, t_owner = i, t_mode = mode\<rparr>]\<rparr>)))
     else sseq (modify_top (\<lambda>r. r\<lparr>rs_nested_in_progress := False\<rparr>))
       (sbind (sread (\<lambda>s. find_if (gs_timers s) (\<lambda>t. t_owner t = i))) (\<lambda>t. case t of
          None \<Rightarrow> undefined_behaviour Out_of_bounds
        | Some t \<Rightarrow> (case t_mode t of
            EXACT \<Rightarrow> swhen (is_time_out now t) finish_top
          | AT_MOST \<Rightarrow> finish_top
          | TRACK \<Rightarrow> (case flag of
              None \<Rightarrow> undefined_behaviour Null_deref
            | Some f \<Rightarrow> sbind (of_exn (cast_str f)) (\<lambda>name.
                sbind (sbind (sread (\<lambda>s. store (tokenize_dot_notation name) (EBool True) (gs_variables s))) of_exn)
                  set_variables))))))"

subsection \<open>List rules\<close>

text \<open>\<open>Reverse\<close>, \<open>Shuffle\<close> and \<open>Discard\<close> work on a copy of the state and assign it back; none of them
  marks the rule as finished.\<close>

definition update_list :: "expr \<Rightarrow> (expr list \<Rightarrow> expr list) \<Rightarrow> unit game_op" where
  "update_list name f = sbind (of_exn (cast_str name)) (\<lambda>n. sbind (sread gs_variables) (\<lambda>vars.
     case map_find vars n of
       None \<Rightarrow> sreturn ()
     | Some e \<Rightarrow> sbind (of_exn (cast_list e)) (\<lambda>l. set_variables (map_put n (EList (f l)) vars))))"

definition visit_reverse :: "expr \<Rightarrow> unit game_op" where
  "visit_reverse name = update_list name rev"

definition visit_shuffle :: "(expr list \<Rightarrow> expr list) \<Rightarrow> expr \<Rightarrow> unit game_op" where
  "visit_shuffle shuf name = update_list name shuf"

definition get_evaluated_list :: "string list \<Rightarrow> emap \<Rightarrow> exn + expr list" where
  "get_evaluated_list l vars = (case map_find vars (l ! 0) of
     None \<Rightarrow> Inr []
   | Some e \<Rightarrow> ebind (cast_list e) (\<lambda>actual.
       if l ! 1 = ''collect'' then get_collect_list actual (l ! 3) vars
       else get_list_attribute actual (l ! 1)))"

text \<open>For a dotted list the evaluated list is a local variable of the inner block: the list that is
  shortened is the outer one, which stays empty. \<open>count > size()\<close> compares as \<open>size_t\<close>.\<close>

definition discard_source :: "expr \<Rightarrow> string \<Rightarrow> emap \<Rightarrow> exn + expr list option" where
  "discard_source from_list name vars =
     (if str_find name ''.'' 0 \<noteq> npos then
        ebind (evaluate_list_exp from_list) (\<lambda>l. ebind (get_evaluated_list l vars) (\<lambda>es.
          ebind (emapM cast_str es) (\<lambda>_. Inr (Some []))))
      else (case map_find vars name of
        None \<Rightarrow> Inr None
      | Some e \<Rightarrow> ebind (cast_list e) (\<lambda>l. Inr (Some l))))"

definition visit_discard :: "expr \<Rightarrow> expr \<Rightarrow> unit game_op" where
  "visit_discard from_list count =
     sbind (of_exn (cast_str from_list)) (\<lambda>name. sbind (of_exn (cast_int count)) (\<lambda>n.
     sbind (sread gs_variables) (\<lambda>vars. sbind (of_exn (discard_source from_list name vars)) (\<lambda>src. case src of
       None \<Rightarrow> sreturn ()
     | Some l \<Rightarrow>
         if int_to_size n > length l then sreturn ()
         else if map_find vars name = None then sthrow Out_of_range_exn
         else set_variables (map_put name (EList (drop (nat n) l)) vars)))))"

text \<open>\<open>Deal\<close> evaluates both lists into a loop variable, and erases an element before it copies it.
  Its lists are copies that nothing stores back.\<close>

definition visit_deal :: "expr \<Rightarrow> expr \<Rightarrow> expr \<Rightarrow> unit game_op" where
  "visit_deal from_list to_list count =
     sbind (of_exn (evaluate_list_exp from_list)) (\<lambda>from_exp. sbind (of_exn (evaluate_list_exp to_list)) (\<lambda>to_exp.
     sbind (sread gs_variables) (\<lambda>vars. sbind (of_exn (cast_int count)) (\<lambda>n.
     case map_find vars (to_exp ! 0) of
       None \<Rightarrow> undefined_behaviour Out_of_bounds
     | Some t \<Rightarrow> sbind (of_exn (cast_list t)) (\<lambda>target. case map_find vars (from_exp ! 0) of
         None \<Rightarrow> undefined_behaviour Out_of_bounds
       | Some f \<Rightarrow> sbind (of_exn (cast_list f)) (\<lambda>source.
           sseqs [
             sfor [(source, from_exp), (target, to_exp)] (\<lambda>(l, exprs).
               sseq (of_exn (if exprs ! 1 = ''collect'' then get_collect_list l (exprs ! 3) vars
                             else get_list_attribute l (exprs ! 1))) (sreturn ())),
             if int_to_size n > length source then sreturn ()
             else if n > 0 then undefined_behaviour Use_after_free
             else sreturn ()]))))))"

subsection \<open>Dispatch\<close>

text \<open>\<open>rule->accept(interpreter)\<close>; a rule whose visit is not overridden does nothing.\<close>

definition accept_rule ::
  "(string \<Rightarrow> int option) \<Rightarrow> int \<Rightarrow> (expr list \<Rightarrow> expr list) \<Rightarrow> rule_table \<Rightarrow> nat \<Rightarrow> unit game_op"
where
  "accept_rule lcast now shuf T i = (case rn_rule (T i) of
     ForEach elems elem sz \<Rightarrow> visit_for_each elems elem sz
   | GlobalMessage content \<Rightarrow> visit_global_message content
   | InputChoice target prompt choices result timeout \<Rightarrow> visit_input_choice lcast target prompt choices result timeout
   | InputText target prompt result timeout \<Rightarrow> visit_input_text lcast target prompt result timeout
   | Discard from_list count \<Rightarrow> visit_discard from_list count
   | Reverse l \<Rightarrow> visit_reverse l
   | Shuffle l \<Rightarrow> visit_shuffle shuf l
   | Add target val \<Rightarrow> visit_add lcast target val
   | Deal from_list to_list count \<Rightarrow> visit_deal from_list to_list count
   | Timer_rule duration mode flag \<Rightarrow> visit_timer now i duration mode flag
   | _ \<Rightarrow> sreturn ())"

end
