(* ===== verification/Dsl_Driver.thy ===== *)
theory Dsl_Driver
  imports Interpreter
begin

section \<open>The drivers of the rule language (modules game\_manager and game\_spec)\<close>

text \<open>
  The two \<open>main\<close> functions that exercise the rule language: the one at the end of DSLInterpreter.cpp and
  the one of TestDriver.cpp, with \<open>printExpVisitor\<close>. A driver is what it prints, or the exception that
  ends it. \<open>lcast\<close> is \<open>boost::lexical_cast<int>\<close>.
\<close>

subsection \<open>Printing\<close>

definition endl :: string where
  "endl = [CHR 0x0A]"

definition print_int :: "int \<Rightarrow> string" where
  "print_int i = (if i < 0 then ''-'' @ dec (nat (- i)) else dec (nat i))"

fun print_exp :: "expr \<Rightarrow> string" where
  "print_exp (EInt i) = print_int i"
| "print_exp (EStr s) = s"
| "print_exp (EBool b) = (if b then ''1'' else ''0'')"
| "print_exp (EMap m) = ''{ '' @ concat (map (\<lambda>p. fst p @ '': '' @ print_exp (snd p) @ '', '') m) @ ''}''"
| "print_exp (EList l) = ''[ '' @ concat (map (\<lambda>e. print_exp e @ '', '') l) @ '' ]''"

text \<open>\<open>optional::value()\<close>.\<close>

definition optional_value :: "'a option \<Rightarrow> exn + 'a" where
  "optional_value x = (case x of None \<Rightarrow> Inl Bad_optional_exn | Some a \<Rightarrow> Inr a)"

text \<open>Writing through the pointer of a lookup.\<close>

definition write_location :: "location \<Rightarrow> expr \<Rightarrow> game_state \<Rightarrow> game_state" where
  "write_location l e s = (case l of
     In_context i ks \<Rightarrow> s\<lparr>gs_context := (gs_context s)[i := write_ptr ks e (gs_context s ! i)]\<rparr>
   | In_variables ks \<Rightarrow> s\<lparr>gs_variables := write_ptr ks e (gs_variables s)\<rparr>
   | In_constants ks \<Rightarrow> s\<lparr>gs_constants := write_ptr ks e (gs_constants s)\<rparr>)"

text \<open>What one part prints is followed by what the rest prints.\<close>

definition then_print :: "exn + string \<Rightarrow> exn + string \<Rightarrow> exn + string" where
  "then_print a b = ebind a (\<lambda>s. ebind b (\<lambda>t. Inr (s @ t)))"

subsection \<open>The driver of the interpreter\<close>

definition test_tokenize_expression :: "exn + string" where
  "test_tokenize_expression = Inr (concat (map (\<lambda>s. s @ endl)
     (tokenize_dot_notation ''players.elements.collect(player, player.weapon.contains(x)).size.contains(weapon)'')))"

definition test_get_expression_ptr :: "(string \<Rightarrow> int option) \<Rightarrow> game_state \<Rightarrow> exn + string" where
  "test_get_expression_ptr lcast s0 =
     (let exp1 = EMap [(''c'', EInt 1234)]; exp2 = EMap [(''b'', exp1)]; exp3 = EMap [(''a'', exp2)];
          s = s0\<lparr>gs_constants := map_put ''root_key'' exp3 (gs_constants s0)\<rparr>;
          object_name = EStr ''root_key.a.b.c'' in
      ebind (evaluate_expression lcast object_name s) (\<lambda>res.
      ebind (ebind (get_expression_ptr object_name s) optional_value) (\<lambda>(ptr, _).
      ebind (evaluate_expression lcast object_name (write_location ptr (EInt 5678) s)) (\<lambda>res'.
        Inr (print_exp res @ endl @ print_exp res' @ endl)))))"

definition test_size_attr :: "(string \<Rightarrow> int option) \<Rightarrow> exn + string" where
  "test_size_attr lcast =
     ebind (ebind (apply_attribute lcast (EList []) ''.size'') get_int) (\<lambda>n1.
     ebind (ebind (apply_attribute lcast (EList [EInt 1]) ''.size'') get_int) (\<lambda>n2.
     ebind (ebind (apply_attribute lcast (EList [EInt 1, EInt 2, EInt 3, EInt 4]) ''.size'') get_int) (\<lambda>n3.
       Inr (''empty test'' @ endl @
         (if n1 = 0 then ''size Sucessful. found: '' @ print_int n1 @ endl
          else ''size Unsucessful. found: '' @ print_int n1 @ ''. Expected 0'' @ endl) @
         endl @ ''single Expression Test'' @ endl @
         (if n2 = 1 then ''size Successful. found: '' @ print_int n2 @ endl
          else ''size Unsucessful. found: '' @ print_int n2 @ ''. Expected 1'' @ endl) @
         endl @ ''Multi Expression Test'' @ endl @
         (if n3 = 4 then ''size Successful. found: '' @ print_int n3 @ endl
          else ''size Unsuccessful. found: '' @ print_int n3 @ ''. Expected 4'' @ endl)))))"

definition test_contains_attr :: "(string \<Rightarrow> int option) \<Rightarrow> exn + string" where
  "test_contains_attr lcast =
     (let ints = EList [EInt 1, EInt 2, EInt 3];
          strings = EList [EStr ''apple'', EStr ''banana'', EStr ''coconut''] in
      ebind (ebind (apply_attribute lcast ints ''.contains(3)'') get_bool) (\<lambda>b1.
      ebind (apply_attribute lcast ints ''.contains(6)'') (\<lambda>test2. ebind (get_bool test2) (\<lambda>b2.
      ebind (ebind (apply_attribute lcast strings ''.contains(coconut)'') get_bool) (\<lambda>b3.
      ebind (ebind (apply_attribute lcast strings ''.contains(durian)'') get_bool) (\<lambda>b4.
        Inr (''***ints list test***'' @ endl @ ''contains positive test'' @ endl @
          (if b1 then ''Contains successful'' @ endl else ''Contains unsuccessful: 3 no found'' @ endl) @
          ''contains negative test'' @ endl @
          (if \<not> b2 then ''Contains successful '' @ endl
           else print_exp (EBool b1) @ ''Contains unsuccessful: some how found a value'' @ endl) @
          ''***strings list test***'' @ endl @ ''contains positive test'' @ endl @
          (if b3 then ''Contains successful'' @ endl else ''Contains unsuccessful. coconut not found'' @ endl) @
          ''contains negative test'' @ endl @
          (if \<not> b4 then ''Contains successful'' @ endl
           else ''Contains unsuccessful. durian was found... but shouldn't have been'' @ endl))))))))"

definition test_up_from_attr :: "(string \<Rightarrow> int option) \<Rightarrow> exn + string" where
  "test_up_from_attr lcast =
     ebind (apply_attribute lcast (EInt 7) ''.upfrom(2)'') (\<lambda>test1.
     ebind (apply_attribute lcast (EInt 7) ''.upfrom(7)'') (\<lambda>test2.
     ebind (apply_attribute lcast (EInt 7) ''.upfrom(8)'') (\<lambda>test3.
       Inr (''contains test 1: populated array'' @ endl @ ''expected: [2,3,4,5,6,7]'' @ endl @ ''actual: '' @ print_exp test1 @
         endl @ ''contains test 2: single element array'' @ endl @ ''expected: [7]'' @ endl @ ''actual: '' @ print_exp test2 @
         endl @ ''contains test 3: upfrom val too high'' @ endl @ ''expected: []'' @ endl @ ''actual: '' @ print_exp test3))))"

definition test_attr :: "(string \<Rightarrow> int option) \<Rightarrow> exn + string" where
  "test_attr lcast =
     then_print (Inr (''~~~~~sizeTest~~~~~'' @ endl)) (then_print (test_size_attr lcast)
     (then_print (Inr (''~~~~~upfromTest~~~~~'' @ endl)) (then_print (test_up_from_attr lcast)
     (then_print (Inr (endl @ ''~~~~~sizeTest~~~~~'' @ endl)) (test_contains_attr lcast)))))"

definition new_game_state :: game_state where
  "new_game_state = \<lparr>gs_constants = [], gs_variables = [], gs_per_player = [], gs_per_audience = [], gs_context = [],
     gs_stack = [], gs_timers = [], gs_requests = [], gs_messages = []\<rparr>"

definition interpreter_driver :: "(string \<Rightarrow> int option) \<Rightarrow> exn + string" where
  "interpreter_driver lcast =
     then_print (Inr (''------------ testTokenizeExpression --------------'' @ endl)) (then_print test_tokenize_expression
     (then_print (Inr (''------------ testEvaluateExpression --------------'' @ endl))
       (then_print (test_get_expression_ptr lcast new_game_state)
     (then_print (Inr (''------------ testAttributes --------------'' @ endl)) (test_attr lcast)))))"


subsection \<open>The driver of the expressions\<close>

definition test_expression_ptr :: "exn + string" where
  "test_expression_ptr =
     (let exp1 = EMap [(''c'', EInt 1)]; exp2 = EMap [(''b'', exp1)]; exp3 = EMap [(''a'', exp2)];
          path = [''a'', ''b'', ''c''] in
      ebind (cast_map exp3) (\<lambda>map_ref. ebind (cast_map exp3) (\<lambda>map_copy.
      ebind (get_ptr path map_copy) (\<lambda>ptr_copy. ebind (get_ptr path map_ref) (\<lambda>ptr_ref.
        Inr ((if ptr_copy = None then ''null'' else print_exp exp3) @ endl @
          (if ptr_ref = None then ''null'' else print_exp (EMap (write_ptr path (EInt 42) map_ref)))))))))"

definition test_print_exp_visitor :: string where
  "test_print_exp_visitor =
     (let exp_map = EMap [(''a'', EInt 1)]; exp_list = EList [EInt 1, EBool False, EStr ''hello''];
          nested_map = EMap [(''a'', exp_map)];
          nested_list = EList [exp_list, EStr ''hello'', nested_map, EInt 1, EBool False] in
      concat (map (\<lambda>e. print_exp e @ endl)
        [EInt 0, EBool True, EStr ''hello'', exp_map, exp_list, nested_map, nested_list]))"

definition expression_driver :: "exn + string" where
  "expression_driver =
     then_print (Inr (''------------ testPrintExpVisitor --------------'' @ endl)) (then_print (Inr test_print_exp_visitor)
     (then_print (Inr (''------------ testExpressionPtr --------------'' @ endl)) test_expression_ptr))"

subsection \<open>What they print\<close>

definition output_lines :: "string list \<Rightarrow> string" where
  "output_lines ls = concat (map (\<lambda>l. l @ endl) ls)"

text \<open>The drivers print what their comments announce: the tokens with their parentheses kept together, the
  value before and after the assignment through the pointer, and a success for every attribute; a
  pointer into a copy does not change the original.\<close>

lemma tokenize_driver:
  "test_tokenize_expression = Inr (output_lines
     [''players'', ''elements'', ''collect(player, player.weapon.contains(x))'', ''size'', ''contains(weapon)''])"
  by code_simp

lemma digit_chars:
  "char_of (48::nat) = CHR ''0''"
  "char_of (49::nat) = CHR ''1''"
  "char_of (50::nat) = CHR ''2''"
  "char_of (51::nat) = CHR ''3''"
  "char_of (52::nat) = CHR ''4''"
  "char_of (53::nat) = CHR ''5''"
  "char_of (54::nat) = CHR ''6''"
  "char_of (55::nat) = CHR ''7''"
  "char_of (56::nat) = CHR ''8''"
  "char_of (57::nat) = CHR ''9''"
  by code_simp+

lemmas printed = print_int_def dec.simps digit_chars

lemma pointer_driver:
  "test_get_expression_ptr lcast new_game_state = Inr (output_lines [''1234'', ''5678''])"
proof -
  have t: "tokenize_dot_notation ''root_key.a.b.c'' = [''root_key'', ''a'', ''b'', ''c'']" by code_simp
  have a: "\<not> is_attribute ''root_key''" "\<not> is_attribute ''a''" "\<not> is_attribute ''b''" "\<not> is_attribute ''c''"
    by (simp_all add: is_attribute_def ATTRIBUTES_def str_find_def npos_def)
  show ?thesis
    by (simp add: test_get_expression_ptr_def new_game_state_def evaluate_expression_def get_expression_ptr_def cast_str_def
      lookup_name_def lookup_with_indices_def lookup_local_scope_def lookup_global_scope_def get_ptr_def t a map_put_def
      map_find_def cast_to_exp_map_def write_location_def optional_value_def output_lines_def printed)
qed

lemma expression_driver_output:
  "expression_driver = Inr (output_lines [
     ''------------ testPrintExpVisitor --------------'', ''0'', ''1'', ''hello'', ''{ a: 1, }'', ''[ 1, 0, hello,  ]'',
     ''{ a: { a: 1, }, }'', ''[ [ 1, 0, hello,  ], hello, { a: { a: 1, }, }, 1, 0,  ]'',
     ''------------ testExpressionPtr --------------'', ''{ a: { b: { c: 1, }, }, }''] @ ''{ a: { b: { c: 42, }, }, }'')"
  by code_simp

lemma size_attribute: "apply_attribute lcast (EList l) ''.size'' = Inr (EInt (size_to_int (length l)))"
  by (simp add: apply_attribute_def str_find_def npos_def apply_size_def cast_list_def)

lemma size_driver:
  "test_size_attr lcast = Inr (output_lines [''empty test'', ''size Sucessful. found: 0'', [],
     ''single Expression Test'', ''size Successful. found: 1'', [], ''Multi Expression Test'', ''size Successful. found: 4''])"
  by (simp add: test_size_attr_def size_attribute size_to_int_def get_int_def output_lines_def printed)

lemma parenthesised:
  "inside_parenthesis ''.contains(3)'' = Inr ''3''" "inside_parenthesis ''.contains(6)'' = Inr ''6''"
  "inside_parenthesis ''.contains(coconut)'' = Inr ''coconut''" "inside_parenthesis ''.contains(durian)'' = Inr ''durian''"
  "inside_parenthesis ''.upfrom(2)'' = Inr ''2''" "inside_parenthesis ''.upfrom(7)'' = Inr ''7''"
  "inside_parenthesis ''.upfrom(8)'' = Inr ''8''"
  by (simp_all add: inside_parenthesis_def str_find_def Let_def size_plus_def size_minus_def size_to_int_def int_to_size_def substr_def)

lemma contains_attribute:
  "apply_attribute lcast e ''.contains(3)'' = apply_contains lcast e ''.contains(3)''"
  "apply_attribute lcast e ''.contains(6)'' = apply_contains lcast e ''.contains(6)''"
  "apply_attribute lcast e ''.contains(coconut)'' = apply_contains lcast e ''.contains(coconut)''"
  "apply_attribute lcast e ''.contains(durian)'' = apply_contains lcast e ''.contains(durian)''"
  "apply_attribute lcast e ''.upfrom(2)'' = apply_upfrom lcast e ''.upfrom(2)''"
  "apply_attribute lcast e ''.upfrom(7)'' = apply_upfrom lcast e ''.upfrom(7)''"
  "apply_attribute lcast e ''.upfrom(8)'' = apply_upfrom lcast e ''.upfrom(8)''"
  by (simp_all add: apply_attribute_def str_find_def npos_def)

lemma contains_driver:
  assumes "lcast ''3'' = Some 3" and "lcast ''6'' = Some 6"
  shows "test_contains_attr lcast = Inr (output_lines [''***ints list test***'', ''contains positive test'', ''Contains successful'',
     ''contains negative test'', ''Contains successful '', ''***strings list test***'', ''contains positive test'',
     ''Contains successful'', ''contains negative test'', ''Contains successful''])"
  using assms
  by (simp add: test_contains_attr_def contains_attribute apply_contains_def which_def cast_list_def parenthesised
    is_all_digits_def is_digit_def lexical_cast_int_def get_int_def get_bool_def cast_str_def output_lines_def)

lemma up_from_driver:
  assumes "lcast ''2'' = Some 2" and "lcast ''7'' = Some 7" and "lcast ''8'' = Some 8"
  shows "test_up_from_attr lcast = Inr (output_lines [''contains test 1: populated array'', ''expected: [2,3,4,5,6,7]'',
     ''actual: [ 2, 3, 4, 5, 6, 7,  ]'', ''contains test 2: single element array'', ''expected: [7]'', ''actual: [ 7,  ]'',
     ''contains test 3: upfrom val too high'', ''expected: []''] @ ''actual: [  ]'')"
  using assms
  by (simp add: test_up_from_attr_def contains_attribute apply_upfrom_def which_def cast_int_def parenthesised
    lexical_cast_int_def int_max_def output_lines_def upto.simps printed)

text \<open>So the driver of the interpreter never throws.\<close>

theorem interpreter_driver_passes:
  assumes "lcast ''2'' = Some 2" and "lcast ''3'' = Some 3" and "lcast ''6'' = Some 6" and "lcast ''7'' = Some 7"
    and "lcast ''8'' = Some 8"
  shows "\<exists>out. interpreter_driver lcast = Inr out"
  using contains_driver [OF assms(2,3)] up_from_driver [OF assms(1,4,5)]
  by (simp add: interpreter_driver_def then_print_def test_attr_def tokenize_driver pointer_driver size_driver)

end
