(* ===== verification/Member_Pointers.thy ===== *)
theory Member_Pointers
  imports Room_Invariant
begin

section \<open>Pointers to members (module chat)\<close>

text \<open>
  \<open>MemberPtr\<close> and the operators of \<open>Member\<close>. A pointer is null or the member it points to; following a
  null pointer is undefined. The rooms keep such pointers in \<open>std::set\<close>s, which are ordered by
  \<open>operator<\<close>: it is shown that this is what the ordered maps of Chat\_Room do, and when it agrees with
  \<open>operator==\<close>.
\<close>

type_synonym member_ptr = "member option"

definition through :: "(member \<Rightarrow> 'a) \<Rightarrow> member_ptr \<Rightarrow> exn + 'a" where
  "through f p = (case p of None \<Rightarrow> Inl (Undefined Null_deref) | Some m \<Rightarrow> Inr (f m))"

definition through_both :: "(member \<Rightarrow> member \<Rightarrow> 'a) \<Rightarrow> member_ptr \<Rightarrow> member_ptr \<Rightarrow> exn + 'a" where
  "through_both f p q = (case (p, q) of (Some m, Some n) \<Rightarrow> Inr (f m n) | _ \<Rightarrow> Inl (Undefined Null_deref))"

subsection \<open>Members\<close>

definition member_user :: "member \<Rightarrow> session_id" where
  "member_user m = m_user m"

definition member_since :: "member \<Rightarrow> int" where
  "member_since m = m_since m"

text \<open>\<open>*member\<close> and \<open>member->\<close>: the user object.\<close>

definition member_deref :: "(session_id \<Rightarrow> user) \<Rightarrow> member \<Rightarrow> user" where
  "member_deref us m = us (m_user m)"

text \<open>\<open>member == user\<close> compares the pointers to the user objects.\<close>

definition member_eq_user :: "member \<Rightarrow> session_id \<Rightarrow> bool" where
  "member_eq_user m u \<longleftrightarrow> member_user m = u"

definition member_ne_user :: "member \<Rightarrow> session_id \<Rightarrow> bool" where
  "member_ne_user m u \<longleftrightarrow> \<not> member_eq_user m u"

subsection \<open>Pointers\<close>

definition ptr_user :: "member_ptr \<Rightarrow> exn + session_id" where
  "ptr_user = through member_user"

definition ptr_is_player :: "member_ptr \<Rightarrow> exn + bool" where
  "ptr_is_player = through is_player"

definition ptr_is_spectator :: "member_ptr \<Rightarrow> exn + bool" where
  "ptr_is_spectator = through is_spectator"

definition ptr_is_disqualified :: "member_ptr \<Rightarrow> exn + bool" where
  "ptr_is_disqualified = through is_disqualified"

definition ptr_is_waitlisted :: "member_ptr \<Rightarrow> exn + bool" where
  "ptr_is_waitlisted = through is_waitlisted"

definition ptr_deref :: "(session_id \<Rightarrow> user) \<Rightarrow> member_ptr \<Rightarrow> exn + user" where
  "ptr_deref us = through (member_deref us)"

definition ptr_bool :: "member_ptr \<Rightarrow> bool" where
  "ptr_bool p \<longleftrightarrow> p \<noteq> None"

definition ptr_eq_user :: "member_ptr \<Rightarrow> session_id \<Rightarrow> exn + bool" where
  "ptr_eq_user p u = through (\<lambda>m. member_eq_user m u) p"

definition ptr_ne_user :: "member_ptr \<Rightarrow> session_id \<Rightarrow> exn + bool" where
  "ptr_ne_user p u = map_sum id Not (ptr_eq_user p u)"

definition ptr_eq :: "member_ptr \<Rightarrow> member_ptr \<Rightarrow> exn + bool" where
  "ptr_eq = through_both member_eq"

definition ptr_ne :: "member_ptr \<Rightarrow> member_ptr \<Rightarrow> exn + bool" where
  "ptr_ne p q = map_sum id Not (ptr_eq p q)"

definition ptr_less :: "member_ptr \<Rightarrow> member_ptr \<Rightarrow> exn + bool" where
  "ptr_less = through_both member_less"

definition ptr_greater :: "member_ptr \<Rightarrow> member_ptr \<Rightarrow> exn + bool" where
  "ptr_greater = through_both (\<lambda>m n. member_less n m)"

subsection \<open>Sets of pointers\<close>

text \<open>\<open>std::set::insert\<close> and \<open>erase\<close>: two elements of which neither is less than the other are one.\<close>

fun set_insert :: "('a \<Rightarrow> 'a \<Rightarrow> bool) \<Rightarrow> 'a \<Rightarrow> 'a list \<Rightarrow> 'a list" where
  "set_insert lt x [] = [x]"
| "set_insert lt x (y # ys) = (if lt x y then x # y # ys else if lt y x then y # set_insert lt x ys else y # ys)"

definition set_erase :: "('a \<Rightarrow> 'a \<Rightarrow> bool) \<Rightarrow> 'a \<Rightarrow> 'a list \<Rightarrow> 'a list" where
  "set_erase lt x ys = filter (\<lambda>y. lt x y \<or> lt y x) ys"

lemma set_insert_elements: "set (set_insert lt x ys) \<subseteq> insert x (set ys)"
  by (induction ys) auto

text \<open>What \<open>std::set\<close> wants of its comparison.\<close>

locale set_order =
  fixes less :: "'a \<Rightarrow> 'a \<Rightarrow> bool"
  assumes irreflexive: "\<not> less x x"
    and transitive: "less x y \<Longrightarrow> less y z \<Longrightarrow> less x z"
    and incomparable: "\<not> less x y \<Longrightarrow> \<not> less y x \<Longrightarrow> \<not> less y z \<Longrightarrow> \<not> less z y \<Longrightarrow> \<not> less x z"
begin

lemma asymmetric: "less x y \<Longrightarrow> \<not> less y x"
  using irreflexive transitive by blast

text \<open>An insertion keeps the order, and inserts nothing where an equivalent element is.\<close>

lemma set_insert_sorted: "sorted_wrt less ys \<Longrightarrow> sorted_wrt less (set_insert less x ys)"
proof (induction ys)
  case (Cons y ys)
  then show ?case using set_insert_elements [of less x ys] by (auto intro: transitive)
qed simp

lemma set_insert_present: "sorted_wrt less ys \<Longrightarrow> y \<in> set ys \<Longrightarrow> \<not> less x y \<Longrightarrow> \<not> less y x \<Longrightarrow> set_insert less x ys = ys"
proof (induction ys)
  case (Cons z zs)
  show ?case
  proof (cases "y = z")
    case False
    then have "less z y" using Cons.prems(1,2) by auto
    then have "less z x" using incomparable [of x y z] Cons.prems(3,4) asymmetric transitive incomparable by metis
    then show ?thesis using Cons False asymmetric by auto
  qed (use Cons.prems in auto)
qed simp

end

interpretation members: set_order member_less
  by unfold_locales (auto simp: member_less_def)

text \<open>The sets of a room are the ordered maps from the time of joining to the user.\<close>

definition as_entries :: "member list \<Rightarrow> (int \<times> session_id) list" where
  "as_entries ms = map (\<lambda>m. (m_since m, m_user m)) ms"

lemma set_insert_is_om_insert: "as_entries (set_insert member_less m ms) = om_insert (m_since m) (m_user m) (as_entries ms)"
  by (induction ms) (auto simp: as_entries_def member_less_def)

lemma set_erase_is_om_erase: "as_entries (set_erase member_less m ms) = om_erase (m_since m) (as_entries ms)"
  unfolding set_erase_def
  by (induction ms) (auto simp: as_entries_def om_erase_def member_less_def)

text \<open>Every comparison with a null pointer is undefined, also with another null pointer and for
  inequality; only the conversion to \<open>bool\<close> may look at one.\<close>

theorem null_pointers_compare_to_nothing:
  shows "ptr_eq None q = Inl (Undefined Null_deref)" and "ptr_ne None q = Inl (Undefined Null_deref)"
    and "ptr_less p None = Inl (Undefined Null_deref)" and "ptr_eq_user None u = Inl (Undefined Null_deref)"
    and "\<not> ptr_bool None"
  by (simp_all add: ptr_eq_def ptr_ne_def ptr_less_def ptr_eq_user_def ptr_bool_def through_def through_both_def split: option.split)

text \<open>In a room that satisfies the invariant two members are equivalent for the sets exactly when they are
  equal; without it, equal join times make different members equivalent.\<close>

theorem order_agrees_with_equality:
  assumes "room_core r" and "find_member u r = Some m" and "find_member v r = Some n"
  shows "ptr_less (Some m) (Some n) = Inr False \<and> ptr_less (Some n) (Some m) = Inr False \<longleftrightarrow> ptr_eq (Some m) (Some n) = Inr True"
proof -
  have ok: "members_ok (r_members r)" using assms(1) by (simp add: room_core_def)
  have in_room: "(u, m) \<in> set (r_members r)" "(v, n) \<in> set (r_members r)"
    using assms find_member_core [OF assms(1)] by simp_all
  then have "m_since m = m_since n \<longleftrightarrow> u = v" using members_okD(4) [OF ok] assms(2,3) by auto
  moreover have "m_user m = u" "m_user n = v" using members_okD(3) [OF ok] in_room by auto
  moreover have "u = v \<Longrightarrow> m = n" using assms(2,3) by simp
  ultimately show ?thesis
    by (auto simp: ptr_less_def ptr_eq_def through_both_def member_less_def member_eq_def)
qed

lemma same_instant_not_inserted:
  assumes "sorted_wrt member_less ms" and "n \<in> set ms" and "m_since m = m_since n"
  shows "set_insert member_less m ms = ms"
proof (rule members.set_insert_present [OF assms(1,2)])
  show "\<not> member_less m n" "\<not> member_less n m" by (simp_all add: member_less_def assms(3))
qed

end
