(* ===== verification/Rule_Book.thy ===== *)
theory Rule_Book
  imports Member_Pointers
begin

section \<open>The rule book (module game\_manager)\<close>

text \<open>
  The classes of RuleBook.h, an earlier version of the rules that no other file includes: wrappers of
  strings and integers, maps of them, and the first rules. A class whose constructors fill in its fields
  is a record with a function per constructor. \<open>compare\<close> of two strings is negative, zero or positive.
  Players are named by session id.
\<close>

record data_packet =
  dp_data :: string

definition new_data_packet :: data_packet where
  "new_data_packet = \<lparr>dp_data = []\<rparr>"

record arithmetic_value =
  av_data :: int

definition new_arithmetic_value :: arithmetic_value where
  "new_arithmetic_value = \<lparr>av_data = 0\<rparr>"

definition av_set_data :: "int \<Rightarrow> arithmetic_value \<Rightarrow> arithmetic_value" where
  "av_set_data i a = a\<lparr>av_data := i\<rparr>"

fun compare_strings :: "string \<Rightarrow> string \<Rightarrow> int" where
  "compare_strings [] [] = 0"
| "compare_strings [] (d # t) = -1"
| "compare_strings (c # s) [] = 1"
| "compare_strings (c # s) (d # t) =
     (if c = d then compare_strings s t else if (of_char c :: nat) < of_char d then -1 else 1)"

text \<open>Both \<open>operator<\<close> are the other way round.\<close>

definition data_packet_less :: "data_packet \<Rightarrow> data_packet \<Rightarrow> bool" where
  "data_packet_less p q \<longleftrightarrow> compare_strings (dp_data p) (dp_data q) > 0"

definition arithmetic_less :: "arithmetic_value \<Rightarrow> arithmetic_value \<Rightarrow> bool" where
  "arithmetic_less a b \<longleftrightarrow> av_data a > av_data b"

text \<open>The comparison of the maps: the result of \<open>compare\<close>, converted to \<open>bool\<close>.\<close>

definition class_map_comp :: "data_packet \<Rightarrow> data_packet \<Rightarrow> bool" where
  "class_map_comp p q \<longleftrightarrow> compare_strings (dp_data p) (dp_data q) \<noteq> 0"

subsection \<open>The maps\<close>

text \<open>A map is the list of its entries. Inserting is not modelled: with the comparison above it is
  undefined as soon as two different keys meet.\<close>

type_synonym 'v data_map = "(data_packet \<times> 'v) list"

record state_book =
  sb_state :: "data_packet data_map"
  sb_players :: "session_id list"
  sb_arithmetic :: "arithmetic_value data_map"

subsection \<open>The rules\<close>

record global_message_rule =
  gmr_message :: data_packet

record message_rule =
  mr_message :: data_packet
  mr_recipients :: "session_id list"

record scores_rule =
  sr_variable :: data_packet
  sr_sort_order :: data_packet

record add_rule =
  ar_variable :: data_packet
  ar_value :: arithmetic_value

record input_vote_rule =
  iv_players :: "session_id list"
  iv_message :: data_packet
  iv_choices :: "data_packet list"
  iv_result :: data_packet
  iv_timeout :: arithmetic_value

definition new_input_vote :: "session_id list \<Rightarrow> data_packet \<Rightarrow> data_packet list \<Rightarrow> data_packet \<Rightarrow> input_vote_rule" where
  "new_input_vote ps m cs r = \<lparr>iv_players = ps, iv_message = m, iv_choices = cs, iv_result = r, iv_timeout = \<lparr>av_data = 10\<rparr>\<rparr>"

record input_text_rule =
  it_message :: data_packet
  it_players :: "session_id list"
  it_timeout :: arithmetic_value
  it_result :: data_packet

definition new_input_text :: "data_packet \<Rightarrow> session_id \<Rightarrow> data_packet \<Rightarrow> input_text_rule" where
  "new_input_text m p r = \<lparr>it_message = m, it_players = [p], it_timeout = \<lparr>av_data = 0\<rparr>, it_result = r\<rparr>"

definition new_input_text_timed ::
  "data_packet \<Rightarrow> session_id list \<Rightarrow> arithmetic_value \<Rightarrow> data_packet \<Rightarrow> input_text_rule"
where
  "new_input_text_timed m ps t r = \<lparr>it_message = m, it_players = ps, it_timeout = t, it_result = r\<rparr>"

subsection \<open>The comparisons\<close>

lemma compare_zero: "compare_strings s t = 0 \<longleftrightarrow> s = t"
  by (induction s t rule: compare_strings.induct) auto

lemma compare_swap: "compare_strings s t > 0 \<longleftrightarrow> compare_strings t s < 0"
  by (induction s t rule: compare_strings.induct) (auto simp: not_less_iff_gr_or_eq)

lemma compare_trans: "compare_strings r s > 0 \<Longrightarrow> compare_strings s t > 0 \<Longrightarrow> compare_strings r t > 0"
proof (induction r t arbitrary: s rule: compare_strings.induct)
  case (4 c r d t)
  then obtain e s' where s: "s = e # s'" by (cases s) auto
  show ?case using 4 unfolding s by (auto split: if_splits)
next
  case (2 d t)
  then show ?case by (cases s) auto
next
  case 1
  then show ?case by (cases s) auto
qed auto

text \<open>Both \<open>operator<\<close> are orders, if reversed; what the maps use is not.\<close>

interpretation packets: set_order data_packet_less
proof
  fix x y z :: data_packet
  let ?c = "\<lambda>x y. compare_strings (dp_data x) (dp_data y)"
  show "\<not> data_packet_less x x" using compare_zero [of "dp_data x" "dp_data x"] by (simp add: data_packet_less_def)
  show "data_packet_less x y \<Longrightarrow> data_packet_less y z \<Longrightarrow> data_packet_less x z"
    unfolding data_packet_less_def by (rule compare_trans)
  have same: "\<not> data_packet_less p q \<Longrightarrow> \<not> data_packet_less q p \<Longrightarrow> dp_data p = dp_data q" for p q
    using compare_swap [of "dp_data p" "dp_data q"] compare_swap [of "dp_data q" "dp_data p"]
      compare_zero [of "dp_data p" "dp_data q"] by (auto simp: data_packet_less_def)
  show "\<not> data_packet_less x z"
    if "\<not> data_packet_less x y" "\<not> data_packet_less y x" "\<not> data_packet_less y z" "\<not> data_packet_less z y"
    using same [OF that(1,2)] same [OF that(3,4)] compare_zero [of "dp_data z" "dp_data z"] by (simp add: data_packet_less_def)
qed

interpretation arithmetic: set_order arithmetic_less
  by unfold_locales (auto simp: arithmetic_less_def)

theorem class_map_comp_is_no_order:
  shows "class_map_comp p q \<longleftrightarrow> dp_data p \<noteq> dp_data q" and "\<not> set_order class_map_comp"
proof -
  show ne: "class_map_comp p q \<longleftrightarrow> dp_data p \<noteq> dp_data q" for p q
    by (simp add: class_map_comp_def compare_zero)
  show "\<not> set_order class_map_comp"
  proof
    assume "set_order class_map_comp"
    then have "class_map_comp \<lparr>dp_data = ''a''\<rparr> \<lparr>dp_data = ''b''\<rparr> \<Longrightarrow> \<not> class_map_comp \<lparr>dp_data = ''b''\<rparr> \<lparr>dp_data = ''a''\<rparr>"
      by (rule set_order.asymmetric)
    then show False by (simp add: ne)
  qed
qed

end
