(* ===== verification/Game_Runner.thy ===== *)
theory Game_Runner
  imports Interpreter Chat_Names Session_Ids
begin

section \<open>Game instances (modules game\_manager and server\_daemon)\<close>

text \<open>
  \<open>GameInstance\<close> of GameInstance.h: the loop that interprets rules, and the traffic between game
  state and players; and \<open>GameInstanceController\<close>, which calls it. \<open>updateState\<close> looks at a copy of
  the top of the stack that it made before the rule was visited. The loop has no bound in the source:
  here it gets one, and \<open>Out_of_fuel\<close> says that it was still running.
\<close>

definition push_rule :: "rule_table \<Rightarrow> nat \<Rightarrow> unit game_op" where
  "push_rule T i = smodify (\<lambda>s. s\<lparr>gs_stack := new_rule_state T i # gs_stack s\<rparr>)"

text \<open>One round of the loop of \<open>updateState\<close>: whether the loop goes on.\<close>

definition after_visit :: "rule_table \<Rightarrow> rule_state \<Rightarrow> bool game_op" where
  "after_visit T copy =
     (if rs_finished copy then
        sseq (smodify (\<lambda>s. s\<lparr>gs_stack := tl (gs_stack s)\<rparr>))
          (sseq (case rs_next copy of None \<Rightarrow> sreturn () | Some n \<Rightarrow> push_rule T n) (sreturn True))
      else if rs_nested_in_progress copy then
        sseq (case rs_nested copy of None \<Rightarrow> sreturn () | Some n \<Rightarrow> push_rule T n) (sreturn True)
      else if rs_needs_input copy then sreturn False
      else sreturn True)"

definition update_round ::
  "(string \<Rightarrow> int option) \<Rightarrow> int \<Rightarrow> (expr list \<Rightarrow> expr list) \<Rightarrow> rule_table \<Rightarrow> bool game_op"
where
  "update_round lcast now shuf T = sbind (sread gs_stack) (\<lambda>st. case st of
     [] \<Rightarrow> sreturn False
   | copy # _ \<Rightarrow> sseq (accept_rule lcast now shuf T (rs_rule copy)) (after_visit T copy))"

fun update_state ::
  "(string \<Rightarrow> int option) \<Rightarrow> int \<Rightarrow> (expr list \<Rightarrow> expr list) \<Rightarrow> rule_table \<Rightarrow> nat \<Rightarrow> unit game_op"
where
  "update_state lcast now shuf T 0 = sthrow Out_of_fuel"
| "update_state lcast now shuf T (Suc n) = sbind (update_round lcast now shuf T) (\<lambda>more.
     if more then update_state lcast now shuf T n else sreturn ())"

subsection \<open>The game instance\<close>

text \<open>The constructor puts the first rule on a stack of its own, which nothing reads; the stack that
  \<open>updateState\<close> works off is the one of the game state.\<close>

record game_instance =
  gi_state :: game_state
  gi_rule_stack :: "nat list"
  gi_player_ids :: "(string \<times> session_id) list"
  gi_spectator_ids :: "(string \<times> session_id) list"

type_synonym 'a instance_op = "(game_instance, 'a) op"

definition new_game_instance :: "game_state \<Rightarrow> nat \<Rightarrow> game_instance" where
  "new_game_instance s first = \<lparr>gi_state = s, gi_rule_stack = [first], gi_player_ids = [], gi_spectator_ids = []\<rparr>"

definition on_state :: "'a game_op \<Rightarrow> 'a instance_op" where
  "on_state m = (\<lambda>g. case m (gi_state g) of (r, s) \<Rightarrow> (r, g\<lparr>gi_state := s\<rparr>))"

definition user_entry :: "string \<Rightarrow> emap \<Rightarrow> expr" where
  "user_entry name extra = EMap (fold (\<lambda>(k, v). map_put k v) extra (map_put ''name'' (EStr name) []))"

definition put_id :: "string \<Rightarrow> session_id \<Rightarrow> (string \<times> session_id) list \<Rightarrow> (string \<times> session_id) list" where
  "put_id n i m = (if map_of m n \<noteq> None then map (\<lambda>p. if fst p = n then (n, i) else p) m else m @ [(n, i)])"

definition load_players :: "(string \<times> session_id) list \<Rightarrow> game_instance \<Rightarrow> game_instance" where
  "load_players players g = g\<lparr>
     gi_state := (gi_state g)\<lparr>gs_variables := map_put ''players''
       (EList (map (\<lambda>p. user_entry (fst p) (gs_per_player (gi_state g))) players)) (gs_variables (gi_state g))\<rparr>,
     gi_player_ids := fold (\<lambda>p. put_id (fst p) (snd p)) players (gi_player_ids g)\<rparr>"

text \<open>\<open>boost::get<bool>(variables["audience"])\<close>: an absent entry becomes an empty map.\<close>

definition load_audience :: "(string \<times> session_id) list \<Rightarrow> unit instance_op" where
  "load_audience audience = sseq
     (smodify (\<lambda>g. g\<lparr>gi_spectator_ids := fold (\<lambda>p. put_id (fst p) (snd p)) audience (gi_spectator_ids g)\<rparr>))
     (on_state (sbind (sread (\<lambda>s. map_index ''audience'' (gs_variables s))) (\<lambda>(e, vars).
        sseq (set_variables vars) (sbind (of_exn (get_bool e)) (\<lambda>b. swhen b
          (sbind (sread id) (\<lambda>s. set_variables (map_put ''audience''
             (EList (map (\<lambda>p. user_entry (fst p) (gs_per_audience s)) audience)) (gs_variables s)))))))))"

record outgoing_message =
  om_to :: string
  om_message :: string

record outgoing_request =
  or_to :: string
  or_prompt :: string
  or_choices :: "string list"

text \<open>The \<open>string_view\<close>s of the outgoing messages point into the queue that is then cleared: the
  names they had are kept here, and the controller's use of them is a use after free.\<close>

definition target_name :: "emap \<Rightarrow> exn + string" where
  "target_name m = get_str (fst (map_index ''name'' m))"

definition pop_outgoing_player_messages :: "outgoing_message list instance_op" where
  "pop_outgoing_player_messages = sbind (sread (\<lambda>g. gs_messages (gi_state g))) (\<lambda>ms.
     sbind (of_exn (emapM (\<lambda>m. ebind (target_name (gm_target m)) (\<lambda>n.
       Inr \<lparr>om_to = n, om_message = gm_content m\<rparr>)) ms)) (\<lambda>out.
     sseq (on_state (smodify (\<lambda>s. s\<lparr>gs_messages := []\<rparr>))) (sreturn out)))"

definition get_input_requests :: "outgoing_request list instance_op" where
  "get_input_requests = sbind (sread (\<lambda>g. gs_requests (gi_state g))) (\<lambda>rs.
     of_exn (emapM (\<lambda>r. ebind (target_name (ir_target r)) (\<lambda>n.
       Inr \<lparr>or_to = n, or_prompt = ir_prompt r, or_choices = ir_choices r\<rparr>)) rs))"

text \<open>\<open>playerNameToId[name]\<close>; an absent name gets a default id.\<close>

definition get_player_id :: "string \<Rightarrow> session_id instance_op" where
  "get_player_id name = sbind (sread (\<lambda>g. map_of (gi_player_ids g) name)) (\<lambda>i. case i of
     Some i \<Rightarrow> sreturn i
   | None \<Rightarrow> sseq (smodify (\<lambda>g. g\<lparr>gi_player_ids := gi_player_ids g @ [(name, SessionId 0)]\<rparr>)) (sreturn (SessionId 0)))"

subsection \<open>The controller\<close>

text \<open>Most member functions of \<open>GameInstanceController\<close> have an empty body although they return a
  value.\<close>

record controller_ctx =
  cc_instance :: game_instance
  cc_sent :: "(session_id \<times> string) list"

type_synonym 'a controller_op = "(controller_ctx, 'a) op"

definition on_instance :: "'a instance_op \<Rightarrow> 'a controller_op" where
  "on_instance m = (\<lambda>c. case m (cc_instance c) of (r, g) \<Rightarrow> (r, c\<lparr>cc_instance := g\<rparr>))"

definition instance_player_message :: "session_id \<Rightarrow> string \<Rightarrow> 'a controller_op" where
  "instance_player_message u m = undefined_behaviour Missing_return"

definition instance_player_command :: "session_id \<Rightarrow> string \<Rightarrow> 'a controller_op" where
  "instance_player_command u c = undefined_behaviour Missing_return"

definition instance_on_player_quit :: "session_id \<Rightarrow> unit controller_op" where
  "instance_on_player_quit u = sreturn ()"

definition instance_on_option_change :: "string \<Rightarrow> string \<Rightarrow> 'a controller_op" where
  "instance_on_option_change k v = undefined_behaviour Missing_return"

definition instance_list_option_descriptions :: "'a controller_op" where
  "instance_list_option_descriptions = undefined_behaviour Missing_return"

definition instance_load :: "game_instance \<Rightarrow> unit controller_op" where
  "instance_load g = sreturn ()"

definition request_text :: "outgoing_request \<Rightarrow> string" where
  "request_text r = or_prompt r @ [CHR 0x0A, CHR 0x0A] @ concat (map (\<lambda>c. c @ [CHR 0x0A]) (or_choices r)) @ [CHR 0x0A]"

definition send_to :: "session_id \<Rightarrow> string \<Rightarrow> unit controller_op" where
  "send_to u m = smodify (\<lambda>c. c\<lparr>cc_sent := cc_sent c @ [(u, m)]\<rparr>)"

definition instance_update ::
  "(string \<Rightarrow> int option) \<Rightarrow> int \<Rightarrow> (expr list \<Rightarrow> expr list) \<Rightarrow> rule_table \<Rightarrow> nat \<Rightarrow> (string \<times> session_id) list \<Rightarrow>
     unit controller_op"
where
  "instance_update lcast now shuf T fuel players =
     sseq (on_instance (on_state (update_state lcast now shuf T fuel)))
     (sbind (on_instance pop_outgoing_player_messages) (\<lambda>messages.
      sbind (on_instance get_input_requests) (\<lambda>requests. sseqs [
        sfor messages (\<lambda>m. if players = [] then sreturn () else undefined_behaviour Use_after_free),
        sfor requests (\<lambda>r. case find_if players (\<lambda>p. fst p = or_to r) of
          None \<Rightarrow> sreturn () | Some p \<Rightarrow> send_to (snd p) (request_text r))])))"

definition instance_start :: "(string \<times> session_id) list \<Rightarrow> (string \<times> session_id) list \<Rightarrow> unit controller_op" where
  "instance_start players audience = sseq
     (on_instance (smodify (load_players players))) (on_instance (load_audience audience))"

end
