(* ===== verification/Dsl_Properties.thy ===== *)
theory Dsl_Properties
  imports Game_Runner
begin

section \<open>Properties of the rule language\<close>

text \<open>
  What the text functions compute (paths, tokens, interpolation) and
  what storing through a path does to later lookups.
\<close>

subsection \<open>Paths\<close>

text \<open>C24. Storing through a path and looking it up again gives the stored expression; no path that
  parts from it before its end is affected, and a store succeeds exactly when the path already
  leads to something.\<close>

theorem store_then_lookup:
  assumes "ks \<noteq> []"
  shows "case store ks e m of
     Inl err \<Rightarrow> err = Runtime_exn ''storing to invalid object name'' \<and> get_ptr ks m = Inr None
   | Inr m' \<Rightarrow> get_ptr ks m \<noteq> Inr None \<and> get_ptr ks m' = Inr (Some e) \<and>
       (\<forall>js. \<not> prefix ks js \<longrightarrow> \<not> prefix js ks \<longrightarrow> get_ptr js m' = get_ptr js m)"
  using assms write_then_read [of ks m e] write_elsewhere [of ks _ e m]
  by (cases "ptr_loop ks m") (simp_all add: store_def get_ptr_def)

theorem store_then_lookup_witness:
  "store [''a'', ''b''] (EInt 2) [(''a'', EMap [(''b'', EInt 1)])] = Inr [(''a'', EMap [(''b'', EInt 2)])] \<and>
   get_ptr [''a'', ''b''] [(''a'', EMap [(''b'', EInt 2)])] = Inr (Some (EInt 2))"
proof -
  have run: "store [''a'', ''b''] (EInt 2) [(''a'', EMap [(''b'', EInt 1)])] = Inr [(''a'', EMap [(''b'', EInt 2)])]"
    by code_simp
  show ?thesis
    using store_then_lookup [where ks = "[''a'', ''b'']" and e = "EInt 2" and m = "[(''a'', EMap [(''b'', EInt 1)])]"] unfolding run by simp
qed

subsection \<open>Tokens of dotted names\<close>

text \<open>A token is closed when no proper prefix of its pieces between the dots is balanced, and the
  whole of it is: its dots are all inside parentheses.\<close>

fun closes :: "int \<Rightarrow> string list \<Rightarrow> bool" where
  "closes n [] \<longleftrightarrow> False"
| "closes n [b] \<longleftrightarrow> n + count_unclosed_parenthesis b = 0"
| "closes n (b # c # bs) \<longleftrightarrow> n + count_unclosed_parenthesis b \<noteq> 0 \<and> closes (n + count_unclosed_parenthesis b) (c # bs)"

definition closed_token :: "string \<Rightarrow> bool" where
  "closed_token t \<longleftrightarrow> t \<noteq> [] \<and> last t \<noteq> CHR ''.'' \<and> closes 0 (split_on (CHR ''.'') t)"

lemma dot_tokens_closed:
  "closes n bs \<Longrightarrow> dot_tokens n temp (bs @ rest) = (temp @ join_with ''.'' bs) # dot_tokens 0 [] rest"
proof (induction n bs arbitrary: temp rule: closes.induct)
  case (3 n b c bs)
  then show ?case using 3(1) [of "temp @ b @ ''.''"] by (simp add: Let_def join_with_Cons)
qed (simp_all add: Let_def)

lemma getlines_split: "s \<noteq> [] \<Longrightarrow> last s \<noteq> d \<Longrightarrow> getlines d s = split_on d s"
proof (induction s)
  case (Cons c s)
  show ?case
  proof (cases s)
    case Nil
    then show ?thesis using Cons.prems by simp
  next
    case (Cons a list)
    then show ?thesis using Cons.IH Cons.prems by simp
  qed
qed simp

lemma split_on_at: "split_on d (s @ d # t) = split_on d s @ split_on d t"
proof (induction s)
  case (Cons c s)
  then show ?case by (cases "split_on d s") (auto split: list.split)
qed simp

lemma split_on_join:
  "ts \<noteq> [] \<Longrightarrow> split_on d (join_with [d] ts) = concat (map (split_on d) ts)"
proof (induction ts)
  case (Cons t ts)
  then show ?case by (cases ts) (simp_all add: join_with_Cons split_on_at)
qed simp

lemma last_join: "ts \<noteq> [] \<Longrightarrow> last ts \<noteq> [] \<Longrightarrow> join_with [d] ts \<noteq> [] \<and> last (join_with [d] ts) = last (last ts)"
proof (induction ts)
  case (Cons t ts)
  then show ?case by (cases ts) (simp_all add: join_with_Cons)
qed simp

text \<open>C25. Taking a dotted name apart undoes joining its tokens: for one or more nonempty tokens with balanced parentheses whose dots are all inside
  parentheses, as in \<open>players.elements.weapon.contains(weapon.name)\<close>, \<open>tokenizeDotNotation\<close> of the
  tokens joined with dots is the list of tokens.\<close>

theorem tokenize_join_roundtrip:
  assumes "ts \<noteq> []" and "\<forall>t \<in> set ts. closed_token t"
  shows "tokenize_dot_notation (join_with ''.'' ts) = ts"
proof -
  have "last ts \<noteq> []" and "last (last ts) \<noteq> CHR ''.''"
    using assms by (simp_all add: closed_token_def)
  then have "getlines (CHR ''.'') (join_with ''.'' ts) = concat (map (split_on (CHR ''.'')) ts)"
    using getlines_split last_join [OF assms(1)] split_on_join [OF assms(1)] by metis
  moreover have "dot_tokens 0 [] (concat (map (split_on (CHR ''.'')) us)) = us"
    if "\<forall>t \<in> set us. closed_token t" for us
    using that by (induction us) (simp_all add: closed_token_def dot_tokens_closed)
  ultimately show ?thesis using assms(2) by (simp add: tokenize_dot_notation_def)
qed

theorem tokenize_join_roundtrip_witness:
  "tokenize_dot_notation (join_with ''.'' [''players'', ''contains(a.b)'']) = [''players'', ''contains(a.b)'']"
proof -
  have "\<forall>t \<in> set [''players'', ''contains(a.b)'']. closed_token t" by code_simp
  then show ?thesis by (rule tokenize_join_roundtrip [rotated]) simp
qed

text \<open>String interpolation fills in no values, whatever its comment says: a text with a pair of
  braces comes back without the two braces, and a text without braces comes back empty.\<close>

theorem interpolation_strips_braces:
  assumes "CHR ''{'' \<notin> set a" and "CHR ''}'' \<notin> set b" and "length (a @ b) < 2 ^ 30"
  shows "interpolate_string (a @ ''{'' @ b @ ''}'' @ c) = a @ b @ c \<and> interpolate_string a = []"
proof -
  have na: "\<And>x. x \<in> set a \<Longrightarrow> \<not> (x \<in> set ''{'')" using assms(1) by auto
  have small: "size_to_int n = int n" if "n < 2 ^ 31" for n
    using that by (simp add: size_to_int_def Let_def)
  have bck: "int_to_size (int n) = n" if "n < 2 ^ 31" for n
    using that by (simp add: int_to_size_def)
  have first: "find_char_at (\<lambda>x. x = d) (u @ d # t) i = i + length u" if "d \<notin> set u" for d u t i
    by (rule find_char_at_first) (use that in auto)
  have brace: "str_find_first_of (a @ CHR ''{'' # t) ''{'' 0 = length a" for t
    using first [OF assms(1), of t 0] by (simp add: str_find_first_of_def)
  have unbrace: "str_find_first_of (a @ CHR ''{'' # b @ CHR ''}'' # c) ''}'' (length a) = length a + 1 + length b"
    using first [OF assms(2), of c "Suc (length a)"] by (simp add: str_find_first_of_def)
  have "str_find_first_of a ''{'' 0 = npos"
    using find_char_at_absent [OF na, where i = 0] by (simp add: str_find_first_of_def)
  moreover have "int_to_size (- 1) = npos" by (simp add: int_to_size_def npos_def)
  moreover have "str_find_first_of a ''}'' npos = npos"
    using assms(3) by (simp add: str_find_first_of_def npos_def)
  ultimately have none: "interpolate_string a = []"
    by (simp add: interpolate_string_def size_to_int_npos)
  let ?r = "length a + 1 + length b"
  have big: "?r < 2 ^ 31" "length a < 2 ^ 31" "?r \<noteq> npos" using assms(3) by (simp_all add: npos_def)
  have positions: "size_to_int (length a) = int (length a)" "size_to_int ?r = int ?r"
    "int_to_size (int (length a)) = length a" "int_to_size (int ?r) = ?r"
    using small [OF big(1)] small [OF big(2)] bck [OF big(1)] bck [OF big(2)] by simp_all
  have cut: "nat (int (length a)) = length a" "nat (int ?r - int (length a) - 1) = length b" "nat (int ?r) = ?r"
    "int ?r > int (length a)"
    by linarith+
  have "interpolate_string (a @ CHR ''{'' # b @ CHR ''}'' # c) = a @ b @ c"
    unfolding interpolate_string_def brace positions unbrace Let_def cut
    using big(3) cut(4) by simp
  then show ?thesis using none by simp
qed

theorem interpolation_strips_braces_witness:
  "interpolate_string ''Round {round}.'' = ''Round round.'' \<and> interpolate_string ''Hello'' = []"
  using interpolation_strips_braces [of "''Round ''" "''round''" "''.''"]
    interpolation_strips_braces [of "''Hello''" "[]" "[]"] by simp

end
