(* ===== verification/Runner_Properties.thy ===== *)
theory Runner_Properties
  imports Dsl_Properties
begin

section \<open>Properties of the interpreter and its loop\<close>

text \<open>
  What the loop of \<open>updateState\<close> makes of the rules it visits. The loop decides on a copy of the top
  of the stack that was made before the visit, so a rule that finishes is visited once more, and a
  rule that does not mark itself as finished is visited for ever.
\<close>

lemma map_put_present:
  "map_find m k = Some x \<Longrightarrow> map_put k a (map_put k b m) = map_put k a m"
proof -
  assume k: "map_find m k = Some x"
  then have "map_of (map (\<lambda>p. if fst p = k then (k, b) else p) m) k = Some b"
    by (simp add: map_of_replace map_find_def)
  moreover have "map (\<lambda>p. if fst p = k then (k, a) else p) (map (\<lambda>p. if fst p = k then (k, b) else p) m) =
      map (\<lambda>p. if fst p = k then (k, a) else p) m"
    by simp
  ultimately show ?thesis using k by (simp add: map_put_def map_find_def)
qed

lemmas visit_simps = act_simps top_state_def modify_top_def finish_top_def set_variables_def eval_in_def
  push_rule_def after_visit_def

lemma update_round_top:
  "gs_stack s = copy # st \<Longrightarrow> update_round lcast now shuf T s =
     sseq (accept_rule lcast now shuf T (rs_rule copy)) (after_visit T copy) s"
  by (simp add: update_round_def act_simps)

subsection \<open>Arithmetic\<close>

lemma visit_add_run:
  assumes "tokenize_dot_notation x = [x]" and "map_find (gs_variables s) x = Some (EInt n)"
    and "gs_stack s = r # rs" and "fits_int (n + v)"
  shows "visit_add lcast (EStr x) (EInt v) s =
    (Inr (), s\<lparr>gs_variables := map_put x (EInt (n + v)) (gs_variables s), gs_stack := r\<lparr>rs_finished := True\<rparr> # rs\<rparr>)"
  using assms
  by (simp add: visit_add_def visit_simps cast_str_def cast_int_def get_ptr_def evaluate_expression_def store_def)

text \<open>C38. An \<open>add\<close> rule adds its value twice. For a rule without a successor whose value is an integer literal
  and whose target is an undotted name of an integer variable, as long as the sums fit \<open>int\<close>: \<open>updateState\<close> returns after three rounds, with the stack
  empty, and the variable has grown by twice the value.\<close>

theorem add_rule_runs_twice:
  assumes "rn_rule (T i) = Add (EStr x) (EInt v)" and "rn_next (T i) = None" and "gs_stack s = [new_rule_state T i]"
    and "tokenize_dot_notation x = [x]" and "map_find (gs_variables s) x = Some (EInt n)"
    and "fits_int (n + v)" and "fits_int (n + v + v)"
  shows "\<exists>s'. update_state lcast now shuf T (Suc (Suc (Suc k))) s = (Inr (), s') \<and> gs_stack s' = [] \<and>
    gs_variables s' = map_put x (EInt (n + 2 * v)) (gs_variables s)"
proof -
  let ?r = "new_rule_state T i"
  define s1 where "s1 = s\<lparr>gs_variables := map_put x (EInt (n + v)) (gs_variables s), gs_stack := [?r\<lparr>rs_finished := True\<rparr>]\<rparr>"
  define s2 where "s2 = s1\<lparr>gs_variables := map_put x (EInt (n + v + v)) (gs_variables s1), gs_stack := []\<rparr>"
  have one: "update_round lcast now shuf T s = (Inr True, s1)"
    using visit_add_run [OF assms(4,5,3,6)] assms(1,3)
    by (simp add: update_round_top [OF assms(3)] accept_rule_def visit_simps s1_def)
  have top: "gs_stack s1 = [?r\<lparr>rs_finished := True\<rparr>]" and var: "map_find (gs_variables s1) x = Some (EInt (n + v))"
    by (simp_all add: s1_def map_put_find)
  have two: "update_round lcast now shuf T s1 = (Inr True, s2)"
    using visit_add_run [OF assms(4) var top assms(7)] assms(1,2)
    by (simp add: update_round_top [OF top] accept_rule_def visit_simps s2_def)
  have three: "update_round lcast now shuf T s2 = (Inr False, s2)"
    by (simp add: update_round_def act_simps s2_def)
  have "gs_variables s2 = map_put x (EInt (n + 2 * v)) (gs_variables s)"
    using map_put_present [OF assms(5)] by (simp add: s2_def s1_def algebra_simps)
  then show ?thesis using one two three by (simp add: act_simps) (simp add: s2_def)
qed

definition demo_rules :: "rule \<Rightarrow> rule_table" where
  "demo_rules r = (\<lambda>_. \<lparr>rn_rule = r, rn_parent = None, rn_next = None, rn_nested = None\<rparr>)"

definition demo_state :: "rule \<Rightarrow> emap \<Rightarrow> game_state" where
  "demo_state r vars = \<lparr>gs_constants = [], gs_variables = vars, gs_per_player = [], gs_per_audience = [],
     gs_context = [[]], gs_stack = [new_rule_state (demo_rules r) 0], gs_timers = [], gs_requests = [], gs_messages = []\<rparr>"

theorem add_rule_runs_twice_witness:
  "\<exists>s'. update_state (\<lambda>_. None) 0 rev (demo_rules (Add (EStr ''wins'') (EInt 1))) 3
       (demo_state (Add (EStr ''wins'') (EInt 1)) [(''wins'', EInt 0)]) = (Inr (), s') \<and> gs_stack s' = [] \<and>
     gs_variables s' = [(''wins'', EInt 2)]"
proof -
  have "tokenize_dot_notation ''wins'' = [''wins'']" by code_simp
  from add_rule_runs_twice [OF _ _ _ this, of "demo_rules (Add (EStr ''wins'') (EInt 1))" 0 1
      "demo_state (Add (EStr ''wins'') (EInt 1)) [(''wins'', EInt 0)]" 0 "\<lambda>_. None" 0 rev 0]
  show ?thesis
    by (simp add: demo_rules_def demo_state_def map_find_def map_put_def fits_int_def int_min_def int_max_def
      numeral_3_eq_3)
qed

subsection \<open>Rules that never finish\<close>

definition is_user :: "expr \<Rightarrow> bool" where
  "is_user x = (case x of EMap m \<Rightarrow> map_find m ''name'' \<noteq> None | _ \<Rightarrow> False)"

definition is_user_list :: "expr \<Rightarrow> bool" where
  "is_user_list e = (case e of EList l \<Rightarrow> list_all is_user l | _ \<Rightarrow> False)"

lemma is_user_list_iff: "is_user_list e \<longleftrightarrow> (\<exists>l. e = EList l \<and> list_all is_user l)"
  by (cases e) (simp_all add: is_user_list_def)

definition users_loaded :: "emap \<Rightarrow> bool" where
  "users_loaded vars \<longleftrightarrow> (\<exists>p a. map_find vars ''players'' = Some p \<and> map_find vars ''audience'' = Some a \<and>
     is_user_list p \<and> is_user_list a)"

text \<open>The rules whose visit returns without marking them as finished.\<close>

definition never_finishes :: "rule \<Rightarrow> emap \<Rightarrow> bool" where
  "never_finishes r vars = (case r of
     GlobalMessage _ \<Rightarrow> users_loaded vars
   | Reverse (EStr n) \<Rightarrow> (case map_find vars n of Some (EList _) \<Rightarrow> True | None \<Rightarrow> True | _ \<Rightarrow> False)
   | Shuffle (EStr n) \<Rightarrow> (case map_find vars n of Some (EList _) \<Rightarrow> True | None \<Rightarrow> True | _ \<Rightarrow> False)
   | ParallelFor _ _ \<Rightarrow> True | Extend _ _ \<Rightarrow> True | Loop _ \<Rightarrow> True | InParallel \<Rightarrow> True
   | Message_rule _ _ \<Rightarrow> True | Switch _ _ _ _ \<Rightarrow> True | When _ \<Rightarrow> True | Sort _ _ \<Rightarrow> True
   | InputVote _ _ _ _ _ \<Rightarrow> True | Scores _ _ \<Rightarrow> True
   | _ \<Rightarrow> False)"

lemma enqueue_users_run:
  "list_all is_user l \<Longrightarrow>
   \<exists>ms. sfor l (\<lambda>x. sbind (of_exn (cast_map x)) (\<lambda>u.
       if map_find u ''name'' = None then undefined_behaviour Failed_assertion else enqueue_message u msg)) s =
     (Inr (), s\<lparr>gs_messages := gs_messages s @ ms\<rparr>)"
proof (induction l arbitrary: s)
  case (Cons x l)
  then obtain m where x: "x = EMap m" "map_find m ''name'' \<noteq> None"
    by (cases x) (auto simp: is_user_def)
  then show ?case
    using Cons.IH [of "s\<lparr>gs_messages := gs_messages s @ [\<lparr>gm_target = m, gm_content = msg\<rparr>]\<rparr>"] Cons.prems
    by (auto simp: act_simps cast_map_def enqueue_message_def)
qed (simp add: act_simps, metis append_Nil2 game_state.surjective game_state.update_convs(9))

lemma global_message_run:
  assumes "users_loaded (gs_variables s)"
  shows "\<exists>ms. enqueue_global_message msg s = (Inr (), s\<lparr>gs_messages := gs_messages s @ ms\<rparr>)"
proof -
  obtain p a where vars: "map_find (gs_variables s) ''players'' = Some (EList p)"
      "map_find (gs_variables s) ''audience'' = Some (EList a)"
    and ok: "list_all is_user p"
      "list_all is_user a"
    using assms by (auto simp: users_loaded_def is_user_list_iff)
  obtain ms where one: "sfor p (\<lambda>x. sbind (of_exn (cast_map x)) (\<lambda>u.
       if map_find u ''name'' = None then undefined_behaviour Failed_assertion else enqueue_message u msg)) s =
     (Inr (), s\<lparr>gs_messages := gs_messages s @ ms\<rparr>)"
    using enqueue_users_run [OF ok(1)] by blast
  let ?s = "s\<lparr>gs_messages := gs_messages s @ ms\<rparr>"
  obtain ns where two: "sfor a (\<lambda>x. sbind (of_exn (cast_map x)) (\<lambda>u.
       if map_find u ''name'' = None then undefined_behaviour Failed_assertion else enqueue_message u msg)) ?s =
     (Inr (), ?s\<lparr>gs_messages := gs_messages ?s @ ns\<rparr>)"
    using enqueue_users_run [OF ok(2)] by blast
  have keep: "t\<lparr>gs_variables := gs_variables t\<rparr> = t" for t :: game_state by simp
  have "enqueue_global_message msg s = (Inr (), s\<lparr>gs_messages := gs_messages s @ ms @ ns\<rparr>)"
    using vars one two keep [of s] keep [of ?s]
    by (simp add: enqueue_global_message_def act_simps map_index_def map_find_def cast_list_def)
  then show ?thesis by blast
qed

lemma update_list_run:
  assumes "case map_find (gs_variables s) n of Some (EList _) \<Rightarrow> True | None \<Rightarrow> True | _ \<Rightarrow> False"
  shows "\<exists>vars. update_list (EStr n) f s = (Inr (), s\<lparr>gs_variables := vars\<rparr>) \<and>
    (case map_find vars n of Some (EList _) \<Rightarrow> True | None \<Rightarrow> True | _ \<Rightarrow> False)"
proof (cases "map_find (gs_variables s) n")
  case None
  then show ?thesis
    by (intro exI [of _ "gs_variables s"]) (simp add: update_list_def act_simps cast_str_def)
next
  case (Some e)
  then obtain l where "e = EList l" using assms by (cases e) auto
  then show ?thesis
    using Some by (auto simp: update_list_def act_simps cast_str_def cast_list_def set_variables_def map_put_find)
qed

lemma never_finishes_visit:
  assumes "never_finishes (rn_rule (T i)) (gs_variables s)"
  shows "\<exists>s'. accept_rule lcast now shuf T i s = (Inr (), s') \<and> gs_stack s' = gs_stack s \<and>
    never_finishes (rn_rule (T i)) (gs_variables s')"
proof (cases "rn_rule (T i)")
  case (GlobalMessage c)
  then show ?thesis
    using assms global_message_run [of s "interpolate_string c"]
    by (auto simp: accept_rule_def visit_global_message_def never_finishes_def)
next
  case (Reverse e)
  then obtain n where "e = EStr n" using assms by (cases e) (auto simp: never_finishes_def)
  then show ?thesis
    using Reverse assms update_list_run [of s n rev] by (auto simp: accept_rule_def visit_reverse_def never_finishes_def)
next
  case (Shuffle e)
  then obtain n where "e = EStr n" using assms by (cases e) (auto simp: never_finishes_def)
  then show ?thesis
    using Shuffle assms update_list_run [of s n shuf] by (auto simp: accept_rule_def visit_shuffle_def never_finishes_def)
qed (use assms in \<open>simp_all add: never_finishes_def accept_rule_def act_simps\<close>)

text \<open>C27. Once a rule comes up that does not mark itself as finished, \<open>updateState\<close> never returns: not
  for global messages (which it queues again in every round), reversals and shuffles, nor for any of
  the ten kinds of rule that the interpreter does not implement, whatever bound the loop is given.\<close>

theorem update_never_returns:
  assumes "gs_stack s = new_rule_state T i # rest" and "never_finishes (rn_rule (T i)) (gs_variables s)"
  shows "fst (update_state lcast now shuf T fuel s) = Inl Out_of_fuel"
  using assms
proof (induction fuel arbitrary: s)
  case (Suc fuel)
  obtain s' where visit: "accept_rule lcast now shuf T i s = (Inr (), s')"
    and s': "gs_stack s' = new_rule_state T i # rest" "never_finishes (rn_rule (T i)) (gs_variables s')"
    using never_finishes_visit [of T i s lcast now shuf] Suc.prems by metis
  have "update_round lcast now shuf T s = (Inr True, s')"
    using visit by (simp add: update_round_top [OF Suc.prems(1)] visit_simps)
  then show ?case using Suc.IH [OF s'] by (simp add: act_simps)
qed (simp add: act_simps)

theorem update_never_returns_witness:
  "fst (update_state (\<lambda>_. None) 0 rev (demo_rules (Reverse (EStr ''deck''))) 1000
     (demo_state (Reverse (EStr ''deck'')) [(''deck'', EList [EInt 1, EInt 2])])) = Inl Out_of_fuel"
  by (rule update_never_returns [where i = 0 and rest = "[]"])
    (simp_all add: demo_state_def demo_rules_def never_finishes_def map_find_def)

subsection \<open>Loops over lists\<close>

text \<open>The body of a \<open>forEach\<close> never sees the first element: the rule is visited twice before its
  body starts, so the body starts with the element variable set to the second element, or, when
  there is no second one, with the variable already removed.\<close>

theorem for_each_skips_first:
  assumes "rn_rule (T i) = ForEach (EList (e # es)) (EStr x) (int (length (e # es)))" and "rn_nested (T i) = Some j"
    and "gs_stack s = new_rule_state T i # rest" and "gs_context s \<noteq> []"
  shows "\<exists>s' r. update_state lcast now shuf T 2 s = (Inl Out_of_fuel, s') \<and>
    gs_stack s' = new_rule_state T j # r # rest \<and>
    map_find (last (gs_context s')) x = (case es of [] \<Rightarrow> None | e' # _ \<Rightarrow> Some e')"
proof -
  let ?r = "new_rule_state T i"
  define r1 where "r1 = ?r\<lparr>rs_nested_in_progress := True, rs_index := 1\<rparr>"
  define s1 where "s1 = s\<lparr>gs_stack := r1 # rest, gs_context := butlast (gs_context s) @ [map_put x e (last (gs_context s))]\<rparr>"
  have one: "update_round lcast now shuf T s = (Inr True, s1)"
    using assms
    by (simp add: update_round_top [OF assms(3)] accept_rule_def visit_for_each_def visit_simps cast_list_def
      cast_str_def modify_scope_def s1_def r1_def)
  have s1: "gs_stack s1 = r1 # rest" "gs_context s1 = butlast (gs_context s) @ [map_put x e (last (gs_context s))]"
    by (simp_all add: s1_def)
  have nested: "rs_nested r1 = Some j" "rs_rule r1 = i" "rs_nested_in_progress r1" "\<not> rs_finished r1" "rs_index r1 = 1"
    using assms(2) by (simp_all add: r1_def)
  have "\<exists>s2 r. update_round lcast now shuf T s1 = (Inr True, s2) \<and> gs_stack s2 = new_rule_state T j # r # rest \<and>
      map_find (last (gs_context s2)) x = (case es of [] \<Rightarrow> None | e' # _ \<Rightarrow> Some e')"
    using nested assms(1) s1
    by (cases es) (simp_all add: update_round_top [OF s1(1)] accept_rule_def visit_for_each_def cast_list_def
      cast_str_def modify_scope_def visit_simps map_erase_find map_put_find)
  then show ?thesis using one by (auto simp: numeral_2_eq_2 act_simps)
qed

definition demo_loop :: rule_table where
  "demo_loop = (\<lambda>i. if i = 0 then
     \<lparr>rn_rule = ForEach (EList [EInt 7, EInt 8]) (EStr ''x'') 2, rn_parent = None, rn_next = None, rn_nested = Some 1\<rparr>
     else \<lparr>rn_rule = When [], rn_parent = Some 0, rn_next = None, rn_nested = None\<rparr>)"

theorem for_each_skips_first_witness:
  "\<exists>s' r. update_state (\<lambda>_. None) 0 rev demo_loop 2 ((demo_state (When []) [])\<lparr>gs_stack := [new_rule_state demo_loop 0]\<rparr>) =
     (Inl Out_of_fuel, s') \<and> gs_stack s' = [new_rule_state demo_loop 1, r] \<and>
     map_find (last (gs_context s')) ''x'' = Some (EInt 8)"
  using for_each_skips_first [of demo_loop 0 "EInt 7" "[EInt 8]" "''x''" 1
      "(demo_state (When []) [])\<lparr>gs_stack := [new_rule_state demo_loop 0]\<rparr>" "[]" "\<lambda>_. None" 0 rev]
  by (simp add: demo_loop_def demo_state_def)

subsection \<open>Input and list rules\<close>

text \<open>A visit that leaves the state alone.\<close>

definition reads_only :: "('s, 'a) op \<Rightarrow> bool" where
  "reads_only m \<longleftrightarrow> (\<forall>s. snd (m s) = s)"

lemma reads_only_bind:
  assumes "reads_only m" and "\<And>a. reads_only (f a)"
  shows "reads_only (sbind m f)"
  unfolding reads_only_def
proof
  fix s
  obtain r s' where m: "m s = (r, s')" by fastforce
  then have "s' = s" using assms(1) by (metis reads_only_def snd_conv)
  then show "snd (sbind m f s) = s"
    using assms(2) m by (cases r) (simp_all add: sbind_def reads_only_def)
qed

lemma reads_only_basic: "reads_only (sreturn a)" "reads_only (sthrow e)" "reads_only (sread f)" "reads_only (of_exn x)"
  "reads_only (undefined_behaviour u)"
  by (simp_all add: reads_only_def act_simps split: sum.split)

lemma reads_only_eval: "reads_only (eval_in lcast e)"
  unfolding eval_in_def by (intro reads_only_bind reads_only_basic)

lemma reads_only_seq: "reads_only m \<Longrightarrow> reads_only n \<Longrightarrow> reads_only (sseq m n)"
  by (simp add: sseq_def reads_only_bind)

lemmas reads_only_rules = reads_only_bind reads_only_basic reads_only_eval

lemma reads_only_option:
  "reads_only m \<Longrightarrow> (\<And>a. reads_only (f a)) \<Longrightarrow> reads_only (case x of None \<Rightarrow> m | Some a \<Rightarrow> f a)"
  by (cases x) simp_all

lemma create_request_reads: "reads_only (create_input_request lcast ty t p c r tout)"
  unfolding create_input_request_def sseq_def
  by (auto intro!: reads_only_rules reads_only_option split: list.split prod.split)

lemma create_request_choices:
  assumes "create_input_request lcast ty t p c r tout s = (Inr req, s')"
  shows "evaluate_expression lcast c s = Inr (EList []) \<and> ir_choices req = []"
proof -
  show ?thesis
    using assms
    by (auto simp: create_input_request_def act_simps eval_in_def cast_list_def undefined_behaviour_def
      split: sum.splits if_splits list.splits option.splits prod.splits expr.splits)
qed

text \<open>Input rules can offer no choices: \<open>inputText\<close> never produces a request, because it casts a
  default expression to a list; and \<open>inputChoice\<close> produces one only when its list of choices is
  empty, because the choices are written past the end of an empty vector. Otherwise nothing is
  queued.\<close>

theorem input_rules_offer_nothing:
  "(\<exists>err. fst (visit_input_text lcast target prompt result timeout s) = Inl err) \<and>
   (case visit_input_choice lcast target prompt choices result timeout s of (res, s') \<Rightarrow>
      if res = Inr () then evaluate_expression lcast choices s = Inr (EList []) \<and>
        (\<exists>req. gs_requests s' = gs_requests s @ [req] \<and> ir_choices req = [])
      else s' = s)"
proof
  obtain r s' where t: "create_input_request lcast TEXT target prompt (EMap []) result timeout s = (r, s')"
    by fastforce
  have "\<exists>err. r = Inl err"
    using create_request_choices [of lcast TEXT target prompt "EMap []" result timeout s _ s'] t
    by (cases r) (auto simp: evaluate_expression_def)
  then show "\<exists>err. fst (visit_input_text lcast target prompt result timeout s) = Inl err"
    using t by (auto simp: visit_input_text_def act_simps)
next
  obtain r s' where c: "create_input_request lcast CHOICE target prompt choices result timeout s = (r, s')"
    by fastforce
  have "s' = s" using create_request_reads c by (metis reads_only_def snd_conv)
  then show "case visit_input_choice lcast target prompt choices result timeout s of (res, s') \<Rightarrow>
      if res = Inr () then evaluate_expression lcast choices s = Inr (EList []) \<and>
        (\<exists>req. gs_requests s' = gs_requests s @ [req] \<and> ir_choices req = [])
      else s' = s"
    using c
    by (cases r) (auto simp: visit_input_choice_def act_simps enqueue_input_request_def dest: create_request_choices)
qed

lemma find_at_char: "find_at [c] s i = find_char_at (\<lambda>x. x = c) s i"
  by (induction s arbitrary: i) auto

lemma find_char_at_eq:
  "find_char_at P s i = (if list_ex P s then i + length (takeWhile (\<lambda>x. \<not> P x) s) else npos)"
  by (induction s arbitrary: i) auto

lemma discard_source_dotted:
  "str_find name ''.'' 0 \<noteq> npos \<Longrightarrow> discard_source e name vars = Inr src \<Longrightarrow> src = Some []"
  by (auto simp: discard_source_def ebind_def split: sum.splits)

lemma deal_reads: "reads_only (visit_deal a b c)"
  unfolding visit_deal_def
  by (auto intro!: reads_only_rules reads_only_seq reads_only_option)

text \<open>\<open>deal\<close> never deals: whatever its arguments it leaves the game state as it is, because it works
  on copies. \<open>discard\<close> from a dotted list never discards: the list it shortens is an empty local
  one.\<close>

theorem list_rules_without_effect:
  assumes "map_find (gs_variables s) (x @ ''.'' @ y) = None" and "length (x @ ''.'' @ y) < npos"
  shows "snd (visit_deal a b c s) = s \<and> snd (visit_discard (EStr (x @ ''.'' @ y)) count s) = s"
proof
  show "snd (visit_deal a b c s) = s" using deal_reads by (simp add: reads_only_def)
  let ?name = "x @ ''.'' @ y"
  have "str_find ?name ''.'' 0 \<noteq> npos"
    using assms(2) length_takeWhile_le [of "\<lambda>c. c \<noteq> CHR ''.''" ?name]
    by (simp add: str_find_def find_at_char find_char_at_eq del: length_append)
  then have "discard_source (EStr ?name) ?name (gs_variables s) = Inr src \<Longrightarrow> src = Some []" for src
    by (rule discard_source_dotted)
  then show "snd (visit_discard (EStr ?name) count s) = s"
    using assms(1)
    by (auto simp: visit_discard_def act_simps cast_str_def split: sum.splits option.splits)
qed

theorem list_rules_without_effect_witness:
  "snd (visit_discard (EStr ''players.elements.name'') (EInt 1) (demo_state (When []) [(''players'', EList [])])) =
     demo_state (When []) [(''players'', EList [])]"
  using list_rules_without_effect [of "demo_state (When []) [(''players'', EList [])]" "''players''" "''elements.name''"]
  by (simp add: demo_state_def map_find_def npos_def)

subsection \<open>The tokenizer\<close>

lemma small_size: "n < 2 ^ 31 \<Longrightarrow> size_to_int n = int n" "n < 2 ^ 31 \<Longrightarrow> int_to_size (int n) = n"
  by (simp_all add: size_to_int_def int_to_size_def)

lemma size_minus_one: "int_to_size (- 1) = npos"
  by (simp add: int_to_size_def npos_def)

lemma drop_leading:
  "find_char_at (\<lambda>x. x \<noteq> c) v i = (if dropWhile (\<lambda>x. x = c) v = [] then npos
     else i + length (takeWhile (\<lambda>x. x = c) v))"
  by (induction v arbitrary: i) auto

lemma split_leading:
  "filter (\<lambda>t. t \<noteq> []) (split_on c v) = filter (\<lambda>t. t \<noteq> []) (split_on c (dropWhile (\<lambda>x. x = c) v))"
  by (induction v) simp_all

lemma split_none: "c \<notin> set v \<Longrightarrow> split_on c v = [v]"
  by (induction v) auto

lemma split_first: "c \<notin> set t \<Longrightarrow> split_on c (t @ c # w) = t # split_on c w"
  by (induction t) auto

lemma tokenizer_loop_split:
  "length (u @ v) < 2 ^ 31 \<Longrightarrow> length v < n \<Longrightarrow>
   tokenizer_loop n (u @ v) [c] (int (length u)) = Inr (filter (\<lambda>t. t \<noteq> []) (split_on c v))"
proof (induction v arbitrary: u n rule: length_induct)
  case (1 v)
  let ?s = "u @ v" and ?k = "length (takeWhile (\<lambda>x. x = c) v)" and ?w = "dropWhile (\<lambda>x. x = c) v"
  obtain n' where n: "n = Suc n'" using 1(3) by (cases n) auto
  have u: "int_to_size (int (length u)) = length u" using 1(2) by (simp add: small_size)
  have start: "str_find_first_not_of ?s [c] (length u) = (if ?w = [] then npos else length u + ?k)"
    using drop_leading [of c v "length u"] by (simp add: str_find_first_not_of_def)
  have len: "?k + length ?w = length v" by (metis length_append takeWhile_dropWhile_id)
  show ?case
  proof (cases "?w = []")
    case True
    then show ?thesis
      using split_leading [of c v, unfolded True] start
      by (simp add: n u size_to_int_npos size_minus_one Let_def)
  next
    case False
    define p where "p = length u + ?k"
    have p: "p < 2 ^ 31" "size_to_int p = int p" "int_to_size (int p) = p" "p \<noteq> npos"
      using 1(2) len False small_size [of p] by (auto simp: p_def npos_def)
    have at_p: "str_find_first_not_of ?s [c] (length u) = p" by (simp only: start False if_False p_def)
    have rest: "drop p ?s = ?w" by (simp add: p_def) (metis dropWhile_eq_drop)
    have pos: "str_find ?s [c] p = (if c \<in> set ?w then p + length (takeWhile (\<lambda>x. x \<noteq> c) ?w) else npos)"
      using find_char_at_eq [of "\<lambda>x. x = c" ?w p] rest len 1(2)
      by (auto simp: str_find_def find_at_char p_def list_ex_iff)
    have round: "tokenizer_loop n ?s [c] (int (length u)) =
        (let pos' = size_to_int (str_find ?s [c] p) in
          case substr ?s p (int_to_size (pos' - int p)) of
            None \<Rightarrow> Inl Out_of_range_exn
          | Some t \<Rightarrow> ebind (tokenizer_loop n' ?s [c] pos') (\<lambda>ts. Inr (t # ts)))"
      using p by (simp add: n u at_p Let_def)
    have inside: "\<not> length ?s < p" using len by (simp add: p_def)
    show ?thesis
    proof (cases "c \<in> set ?w")
      case False
      have "(- 1 - int p) mod 2 ^ 64 = (- 1 - int p + 2 ^ 64) mod 2 ^ 64" by (simp only: mod_add_self2)
      also have "\<dots> = - 1 - int p + 2 ^ 64" using p(1) by (intro mod_pos_pos_trivial) simp_all
      finally have all: "length ?w \<le> int_to_size (- 1 - int p)"
        using p(1) len 1(2) by (simp add: int_to_size_def)
      have "0 < n'" using \<open>?w \<noteq> []\<close> len 1(3) n by (cases "?w") auto
      moreover have "str_find_first_not_of ?s [c] npos = npos"
        using 1(2) by (simp add: str_find_first_not_of_def npos_def)
      ultimately have "tokenizer_loop n' ?s [c] (- 1) = Inr []"
        by (cases n') (simp_all add: Let_def size_minus_one size_to_int_npos)
      then show ?thesis
        using False all pos round inside rest split_leading [of c v] split_none [OF False] \<open>?w \<noteq> []\<close>
        by (simp add: size_to_int_npos substr_def)
    next
      case True
      then obtain t w' where w': "?w = t @ c # w'" and c: "c \<notin> set t" using split_list_first by metis
      have "takeWhile (\<lambda>x. x \<noteq> c) (t @ c # w') = t" using c by (subst takeWhile_append2) auto
      then have tw: "takeWhile (\<lambda>x. x \<noteq> c) ?w = t" by (simp only: w')
      have "hd ?w \<noteq> c" using hd_dropWhile [OF \<open>?w \<noteq> []\<close>] by simp
      then have t: "t \<noteq> []" using w' by (cases t) simp_all
      let ?u = "u @ takeWhile (\<lambda>x. x = c) v @ t"
      have s: "?s = ?u @ c # w'" using w' by (metis append.assoc takeWhile_dropWhile_id)
      have shorter: "length (c # w') < length v" "length (c # w') < n'"
        using len w' t 1(3) n by (cases t; simp)+
      have further: "tokenizer_loop n' ?s [c] (int (length ?u)) = Inr (filter (\<lambda>t. t \<noteq> []) (split_on c w'))"
        using 1(1) [rule_format, OF shorter(1), of ?u n'] shorter(2) 1(2) s by simp
      have q: "str_find ?s [c] p = length ?u" using pos True tw by (simp add: p_def)
      have "size_to_int (length ?u) = int (length ?u)" using 1(2) s by (intro small_size) simp
      moreover have "int_to_size (int (length ?u) - int p) = length t"
        using 1(2) w' len by (simp add: p_def int_to_size_def)
      moreover have "take (length t) (drop p ?s) = t" using rest w' by simp
      ultimately show ?thesis
        using round q further inside w' split_leading [of c v] split_first [OF c] t
        by (simp add: substr_def)
    qed
  qed
qed

text \<open>C26. \<open>tokenizer\<close> with a one-character symbol returns for every string of less than 2^31 characters,
  and computes the nonempty pieces between the occurrences of the symbol: one round for each
  character and one more are enough for its loop.\<close>

theorem tokenizer_is_split:
  assumes "length s < 2 ^ 31"
  shows "tokenizer s [c] = Inr (filter (\<lambda>t. t \<noteq> []) (split_on c s))"
  using tokenizer_loop_split [of "[]" s "length s + 1" c] assms by (simp add: tokenizer_def)

theorem tokenizer_is_split_witness:
  "tokenizer ''a..b'' ''.'' = Inr [''a'', ''b'']"
  using tokenizer_is_split [of "''a..b''" "CHR ''.''"] by simp

end
