(* ===== verification/Player_Database.thy ===== *)
theory Player_Database
  imports Failures Cpp_Strings
begin

section \<open>The player database (module database)\<close>

text \<open>
  database.cpp builds SQL statements out of its arguments and hands them to SQLite. The state of the
  model is the handle and the list of the statements handed over; what SQLite does with them is
  outside, and the rows it finds are an argument. A \<open>Database\<close> starts with an uninitialised handle, and
  its destructor closes it.
\<close>

datatype handle = Unset | Opened | Closed

record database =
  db_handle :: handle
  db_statements :: "string list"

type_synonym 'a db_op = "(database, 'a) op"

definition new_database :: database where
  "new_database = \<lparr>db_handle = Unset, db_statements = []\<rparr>"

definition open_db :: "unit db_op" where
  "open_db = smodify (\<lambda>s. s\<lparr>db_handle := Opened\<rparr>)"

definition close_db :: "unit db_op" where
  "close_db = sbind (sread db_handle) (\<lambda>h. if h \<noteq> Opened then undefined_behaviour Use_after_free
     else smodify (\<lambda>s. s\<lparr>db_handle := Closed\<rparr>))"

definition destroy_db :: "unit db_op" where
  "destroy_db = close_db"

text \<open>SQLite gets \<open>statement.c_str()\<close>, which ends at the first NUL.\<close>

definition c_str :: "string \<Rightarrow> string" where
  "c_str s = takeWhile (\<lambda>c. c \<noteq> CHR 0x00) s"

definition sqlite_exec :: "string \<Rightarrow> unit db_op" where
  "sqlite_exec statement = sbind (sread db_handle) (\<lambda>h. if h \<noteq> Opened then undefined_behaviour Use_after_free
     else smodify (\<lambda>s. s\<lparr>db_statements := db_statements s @ [c_str statement]\<rparr>))"

definition valid_input :: "string \<Rightarrow> bool" where
  "valid_input s \<longleftrightarrow> str_find_first_of s '';,'' 0 = npos"

text \<open>The callback for \<open>SelectValues\<close> pushes every column; a NULL is a null pointer, from which no
  string can be made.\<close>

fun select_callback :: "string option list \<Rightarrow> string list \<Rightarrow> exn + string list" where
  "select_callback [] vals = Inr vals"
| "select_callback (None # cs) vals = Inl (Undefined Null_deref)"
| "select_callback (Some c # cs) vals = select_callback cs (vals @ [c])"

fun select_rows :: "string option list list \<Rightarrow> string list \<Rightarrow> exn + string list" where
  "select_rows [] vals = Inr vals"
| "select_rows (r # rs) vals = (case select_callback r vals of Inl e \<Rightarrow> Inl e | Inr v \<Rightarrow> select_rows rs v)"

definition create_table :: "string \<Rightarrow> unit db_op" where
  "create_table table = swhen (valid_input table) (sqlite_exec
     (''CREATE TABLE IF NOT EXISTS '' @ table @ ''('' @ ''UserId INT PRIMARY KEY NOT NULL,'' @ ''UserName TEXT NOT NULL,'' @
      ''Points INT NOT NULL,'' @ ''GamePlayed INT NOT NULL,'' @ ''GamesWon INT NOT NULL);''))"

definition insert_player :: "string \<Rightarrow> string \<Rightarrow> string \<Rightarrow> unit db_op" where
  "insert_player table player_name ident = swhen (valid_input table \<and> valid_input player_name \<and> valid_input ident)
     (sqlite_exec (''INSERT INTO '' @ table @ '' VALUES ('' @ ident @ '', '' @ quote @ player_name @ quote @ '', 0, 0, 0);''))"

definition delete_player :: "string \<Rightarrow> string \<Rightarrow> unit db_op" where
  "delete_player table ident = swhen (valid_input table \<and> valid_input ident)
     (sqlite_exec (''DELETE FROM '' @ table @ '' WHERE UserID = '' @ ident @ '';''))"

text \<open>\<open>isValid\<close> starts at one and goes down by one for every invalid value: it is tested for not being
  zero.\<close>

definition is_valid_list :: "string list \<Rightarrow> int" where
  "is_valid_list vals = foldl (\<lambda>n v. if \<not> valid_input v then n - 1 else n) 1 vals"

definition update_statement :: "string \<Rightarrow> string \<Rightarrow> string \<Rightarrow> string \<Rightarrow> string \<Rightarrow> string" where
  "update_statement table where_col set_col set_val n =
     ''UPDATE '' @ table @ '' SET '' @ set_col @ '' = '' @ set_val @ '' WHERE '' @ where_col @ '' = '' @ n @ '';''"

definition update_player :: "string \<Rightarrow> string \<Rightarrow> string list \<Rightarrow> string \<Rightarrow> string \<Rightarrow> unit db_op" where
  "update_player table where_col where_list set_col set_val =
     swhen (valid_input table \<and> valid_input where_col \<and> is_valid_list where_list \<noteq> 0 \<and> valid_input set_val)
       (sfor where_list (\<lambda>n. sqlite_exec (update_statement table where_col set_col set_val n)))"

text \<open>\<open>pop_back\<close> of an empty string is undefined.\<close>

definition select_values ::
  "string option list list \<Rightarrow> string \<Rightarrow> string list \<Rightarrow> string \<Rightarrow> string \<Rightarrow> string list \<Rightarrow> string list db_op"
where
  "select_values rows table data where_col where_val select_list =
     (let cols = concat (map (\<lambda>n. n @ '', '') select_list) in
      if cols = [] then undefined_behaviour Out_of_bounds
      else if valid_input table \<and> valid_input where_col \<and> valid_input where_val \<and> is_valid_list select_list \<noteq> 0
      then sseq (sqlite_exec (''SELECT '' @ butlast (butlast cols) @ '' FROM '' @ table @ '' WHERE '' @ where_col @ '' = '' @
           where_val @ '';''))
         (case select_rows rows data of Inl e \<Rightarrow> sthrow e | Inr v \<Rightarrow> sreturn v)
      else sreturn data)"

subsection \<open>Statements that end once\<close>

datatype db_call =
    Create_table string
  | Insert_player string string string
  | Delete_player string string
  | Update_player string string "string list" string string
  | Select_values "string option list list" string "string list" string string "string list"

fun db_step :: "db_call \<Rightarrow> unit db_op" where
  "db_step (Create_table t) = create_table t"
| "db_step (Insert_player t n i) = insert_player t n i"
| "db_step (Delete_player t i) = delete_player t i"
| "db_step (Update_player t wc wl sc sv) = update_player t wc wl sc sv"
| "db_step (Select_values rows t data wc wv sl) = sbind (select_values rows t data wc wv sl) (\<lambda>_. sreturn ())"

definition db_run :: "db_call list \<Rightarrow> unit db_op" where
  "db_run cs = sfor cs db_step"

text \<open>No semicolon but at the end.\<close>

definition single :: "string \<Rightarrow> bool" where
  "single statement \<longleftrightarrow> CHR '';'' \<notin> set (butlast statement)"

text \<open>What the validation of \<open>UpdatePlayer\<close> and \<open>SelectValues\<close> leaves to the caller, and no NULL in the
  rows SQLite finds.\<close>

fun careful :: "db_call \<Rightarrow> bool" where
  "careful (Update_player t wc wl sc sv) \<longleftrightarrow> valid_input sc \<and> length (filter (\<lambda>v. \<not> valid_input v) wl) \<le> 1"
| "careful (Select_values rows t data wc wv sl) \<longleftrightarrow> (\<forall>r \<in> set rows. None \<notin> set r) \<and> sl \<noteq> [] \<and> length (filter (\<lambda>v. \<not> valid_input v) sl) \<le> 1"
| "careful _ \<longleftrightarrow> True"

text \<open>Strings are shorter than \<open>npos\<close>.\<close>

fun texts :: "db_call \<Rightarrow> string list" where
  "texts (Create_table t) = [t]"
| "texts (Insert_player t n i) = [t, n, i]"
| "texts (Delete_player t i) = [t, i]"
| "texts (Update_player t wc wl sc sv) = [t, wc, sc, sv] @ wl"
| "texts (Select_values rows t data wc wv sl) = [t, wc, wv] @ sl"

definition bounded :: "db_call \<Rightarrow> bool" where
  "bounded c \<longleftrightarrow> (\<forall>x \<in> set (texts c). length x < npos)"

lemma is_valid_list_count: "is_valid_list vs = 1 - int (length (filter (\<lambda>v. \<not> valid_input v) vs))"
proof -
  have "foldl (\<lambda>n v. if \<not> valid_input v then n - 1 else n) k vs = k - int (length (filter (\<lambda>v. \<not> valid_input v) vs))" for k
    by (induction vs arbitrary: k) auto
  then show ?thesis by (simp add: is_valid_list_def)
qed

lemma one_invalid_refused:
  assumes "length (filter (\<lambda>v. \<not> valid_input v) vs) \<le> 1" and "is_valid_list vs \<noteq> 0" and "v \<in> set vs"
  shows "valid_input v"
proof -
  have "length (filter (\<lambda>v. \<not> valid_input v) vs) = 0" using assms(1,2) unfolding is_valid_list_count by linarith
  then show ?thesis using assms(3) by (auto simp: filter_empty_conv)
qed

lemma find_char_absent: "find_char_at P s i = npos \<Longrightarrow> i + length s \<le> npos \<Longrightarrow> \<forall>c \<in> set s. \<not> P c"
  by (induction s arbitrary: i) (auto split: if_splits)

lemma valid_input_clean: "valid_input s \<Longrightarrow> length s < npos \<Longrightarrow> CHR '';'' \<notin> set s"
  using find_char_absent [of "\<lambda>c. c \<in> set '';,''" s 0] by (auto simp: valid_input_def str_find_first_of_def)

lemma single_append: "CHR '';'' \<notin> set body \<Longrightarrow> single (c_str (body @ '';''))"
  unfolding single_def c_str_def
  by (cases "\<forall>c \<in> set body. c \<noteq> CHR 0x00") (auto simp: takeWhile_append takeWhile_tail dest!: in_set_butlastD set_takeWhileD)

lemma exec_loop:
  "db_handle s = Opened \<Longrightarrow> sfor vs (\<lambda>n. sqlite_exec (f n)) s =
     (Inr (), s\<lparr>db_statements := db_statements s @ map (\<lambda>n. c_str (f n)) vs\<rparr>)"
  by (induction vs arbitrary: s) (simp_all add: sqlite_exec_def act_simps)

lemma set_butlast_butlast: "x \<in> set (butlast (butlast xs)) \<Longrightarrow> x \<in> set xs"
  by (meson in_set_butlastD)

lemma select_callback_all: "None \<notin> set r \<Longrightarrow> select_callback r vals = Inr (vals @ map the r)"
  by (induction r vals rule: select_callback.induct) auto

lemma select_rows_all: "\<forall>r \<in> set rows. None \<notin> set r \<Longrightarrow> select_rows rows vals = Inr (vals @ concat (map (map the) rows))"
  by (induction rows arbitrary: vals) (simp_all add: select_callback_all)

definition tidy :: "database \<Rightarrow> bool" where
  "tidy s \<longleftrightarrow> db_handle s = Opened \<and> (\<forall>x \<in> set (db_statements s). single x)"

lemma tidy_exec: "tidy s \<Longrightarrow> single (c_str x) \<Longrightarrow> fst (sqlite_exec x s) = Inr () \<and> tidy (snd (sqlite_exec x s))"
  by (auto simp: sqlite_exec_def act_simps tidy_def)

lemma tidy_when_exec:
  assumes "tidy s" and "b \<Longrightarrow> single (c_str x)"
  shows "fst (swhen b (sqlite_exec x) s) = Inr () \<and> tidy (snd (swhen b (sqlite_exec x) s))"
  using assms tidy_exec by (simp add: act_simps)

lemma db_step_single:
  assumes "careful c" and "bounded c" and "tidy s"
  shows "fst (db_step c s) = Inr () \<and> tidy (snd (db_step c s))"
proof (cases c)
  case (Create_table t)
  have "single (c_str (''CREATE TABLE IF NOT EXISTS '' @ t @ ''(UserId INT PRIMARY KEY NOT NULL,UserName TEXT NOT NULL,Points INT NOT NULL,GamePlayed INT NOT NULL,GamesWon INT NOT NULL);''))"
    if "valid_input t"
    using that assms(2) Create_table valid_input_clean [of t] single_append
      [of "''CREATE TABLE IF NOT EXISTS '' @ t @ ''(UserId INT PRIMARY KEY NOT NULL,UserName TEXT NOT NULL,Points INT NOT NULL,GamePlayed INT NOT NULL,GamesWon INT NOT NULL)''"]
    by (simp add: bounded_def)
  then show ?thesis using tidy_when_exec [OF assms(3)] Create_table by (simp add: create_table_def)
next
  case (Insert_player t n i)
  have "single (c_str (''INSERT INTO '' @ t @ '' VALUES ('' @ i @ '', '' @ quote @ n @ quote @ '', 0, 0, 0);''))"
    if "valid_input t" "valid_input n" "valid_input i"
    using that assms(2) Insert_player valid_input_clean [of t] valid_input_clean [of n] valid_input_clean [of i] single_append
      [of "''INSERT INTO '' @ t @ '' VALUES ('' @ i @ '', '' @ quote @ n @ quote @ '', 0, 0, 0)''"]
    by (simp add: bounded_def quote_def)
  then show ?thesis using tidy_when_exec [OF assms(3)] Insert_player by (simp add: insert_player_def)
next
  case (Delete_player t i)
  have "single (c_str (''DELETE FROM '' @ t @ '' WHERE UserID = '' @ i @ '';''))" if "valid_input t" "valid_input i"
    using that assms(2) Delete_player valid_input_clean [of t] valid_input_clean [of i] single_append
      [of "''DELETE FROM '' @ t @ '' WHERE UserID = '' @ i"]
    by (simp add: bounded_def)
  then show ?thesis using tidy_when_exec [OF assms(3)] Delete_player by (simp add: delete_player_def)
next
  case (Update_player t wc wl sc sv)
  have "single (c_str (update_statement t wc sc sv n))"
    if "valid_input t" "valid_input wc" "is_valid_list wl \<noteq> 0" "valid_input sv" "n \<in> set wl" for n
  proof -
    have "valid_input n" using one_invalid_refused [OF _ that(3,5)] assms(1) Update_player by simp
    then show ?thesis
      using that assms(1,2) Update_player valid_input_clean [of t] valid_input_clean [of wc] valid_input_clean [of sc]
        valid_input_clean [of sv] valid_input_clean [of n]
        single_append [of "''UPDATE '' @ t @ '' SET '' @ sc @ '' = '' @ sv @ '' WHERE '' @ wc @ '' = '' @ n"]
      by (simp add: update_statement_def bounded_def)
  qed
  then show ?thesis using assms(3) Update_player by (auto simp: update_player_def act_simps exec_loop tidy_def)
next
  case (Select_values rows t data wc wv sl)
  define cols where "cols = concat (map (\<lambda>n. n @ '', '') sl)"
  have ne: "cols \<noteq> []" using assms(1) Select_values by (cases sl) (simp_all add: cols_def)
  have "CHR '';'' \<notin> set (butlast (butlast cols))" if "is_valid_list sl \<noteq> 0"
  proof -
    have "CHR '';'' \<notin> set n" if "n \<in> set sl" for n
      using one_invalid_refused [OF _ \<open>is_valid_list sl \<noteq> 0\<close> that] assms(1,2) Select_values that valid_input_clean [of n]
      by (simp add: bounded_def)
    then have "CHR '';'' \<notin> set cols" by (auto simp: cols_def)
    then show ?thesis using set_butlast_butlast by fast
  qed
  then have "single (c_str (''SELECT '' @ butlast (butlast cols) @ '' FROM '' @ t @ '' WHERE '' @ wc @ '' = '' @ wv @ '';''))"
    if "valid_input t" "valid_input wc" "valid_input wv" "is_valid_list sl \<noteq> 0"
    using that assms(2) Select_values valid_input_clean [of t] valid_input_clean [of wc] valid_input_clean [of wv]
      single_append [of "''SELECT '' @ butlast (butlast cols) @ '' FROM '' @ t @ '' WHERE '' @ wc @ '' = '' @ wv"]
    by (simp add: bounded_def)
  then show ?thesis
    using assms(1,3) Select_values ne select_rows_all [of rows data]
    by (auto simp: select_values_def act_simps sqlite_exec_def cols_def [symmetric] Let_def tidy_def)
qed

text \<open>C22. No call can smuggle in a second SQL statement, as long as the callers of \<open>UpdatePlayer\<close> and
  \<open>SelectValues\<close> pass a valid column and at most one invalid value: on an opened database no call fails,
  and every statement handed to SQLite has no semicolon but at its end. Two invalid values are enough
  to defeat the validation: the counter of \<open>UpdatePlayer\<close> passes zero and the statements are executed as
  they are.\<close>

theorem statements_are_single:
  assumes "\<forall>c \<in> set cs. careful c \<and> bounded c" and "\<not> valid_input a" and "\<not> valid_input b"
    and "valid_input t" and "valid_input wc" and "valid_input sv" and "db_handle s = Opened"
  shows "(case sseq open_db (db_run cs) new_database of
      (res, d) \<Rightarrow> res = Inr () \<and> (\<forall>x \<in> set (db_statements d). single x)) \<and>
    db_step (Update_player t wc [a, b] sc sv) s = (Inr (), s\<lparr>db_statements := db_statements s @
      [c_str (update_statement t wc sc sv a), c_str (update_statement t wc sc sv b)]\<rparr>)"
proof
  have "tidy d \<Longrightarrow> fst (db_run cs d) = Inr () \<and> tidy (snd (db_run cs d))" for d
    using assms(1)
  proof (induction cs arbitrary: d)
    case (Cons c cs)
    then have "fst (db_step c d) = Inr ()" "tidy (snd (db_step c d))" using db_step_single [of c d] by auto
    then show ?case using Cons by (cases "db_step c d") (auto simp: db_run_def act_simps)
  qed (simp add: db_run_def act_simps)
  from this [of "new_database\<lparr>db_handle := Opened\<rparr>"]
  show "case sseq open_db (db_run cs) new_database of
      (res, d) \<Rightarrow> res = Inr () \<and> (\<forall>x \<in> set (db_statements d). single x)"
    by (simp add: case_prod_unfold open_db_def act_simps tidy_def new_database_def)
  show "db_step (Update_player t wc [a, b] sc sv) s = (Inr (), s\<lparr>db_statements := db_statements s @
      [c_str (update_statement t wc sc sv a), c_str (update_statement t wc sc sv b)]\<rparr>)"
    using assms(2-7) by (simp add: update_player_def is_valid_list_count act_simps sqlite_exec_def)
qed

theorem statements_are_single_witness:
  "(case sseq open_db (db_run [Create_table ''PLAYERS'', Delete_player ''PLAYERS'' ''1'', Delete_player ''PLAYERS'' ''1;'']) new_database of
      (res, d) \<Rightarrow> res = Inr () \<and> (\<forall>x \<in> set (db_statements d). single x)) \<and>
   db_step (Update_player ''P'' ''Id'' [''1;'', ''2;''] ''Points'' ''3'') (new_database\<lparr>db_handle := Opened\<rparr>) =
     (Inr (), new_database\<lparr>db_handle := Opened, db_statements :=
       [''UPDATE P SET Points = 3 WHERE Id = 1;;'', ''UPDATE P SET Points = 3 WHERE Id = 2;;'']\<rparr>)"
  using statements_are_single [of "[Create_table ''PLAYERS'', Delete_player ''PLAYERS'' ''1'', Delete_player ''PLAYERS'' ''1;'']"
    "''1;''" "''2;''" "''P''" "''Id''" "''3''" "new_database\<lparr>db_handle := Opened\<rparr>" "''Points''"]
  by (simp add: bounded_def npos_def valid_input_def str_find_first_of_def update_statement_def c_str_def new_database_def)

text \<open>A database that was closed is closed once more by its destructor.\<close>

lemma closed_twice: "fst (sseqs [open_db, close_db, destroy_db] d) = Inl (Undefined Use_after_free)"
  by (simp add: open_db_def close_db_def destroy_db_def act_simps)

end
