(* ===== verification/Database_Suite.thy ===== *)
theory Database_Suite
  imports Player_Database
begin

section \<open>The test suite of the player database (module database)\<close>

text \<open>
  \<open>testSuite.cpp\<close>: what it hands to SQLite, what it prints, and how it ends. What SQLite answers to its
  queries is given: the rows, as pairs of a column name and a value or NULL, and an error message.
\<close>

record suite =
  su_database :: database
  su_output :: string

record answer =
  an_rows :: "(string \<times> string option) list list"
  an_error :: "string option"

type_synonym 'a suite_op = "(suite, 'a) op"

definition on_database :: "'a db_op \<Rightarrow> 'a suite_op" where
  "on_database m = (\<lambda>s. case m (su_database s) of (r, d) \<Rightarrow> (r, s\<lparr>su_database := d\<rparr>))"

definition out :: "string \<Rightarrow> unit suite_op" where
  "out t = smodify (\<lambda>s. s\<lparr>su_output := su_output s @ t\<rparr>)"

definition line_end :: string where
  "line_end = [CHR 0x0A]"

text \<open>The branch of the callback that prints a row.\<close>

definition print_callback :: "(string \<times> string option) list \<Rightarrow> string" where
  "print_callback r = concat (map (\<lambda>(n, v). n @ '' = '' @ (case v of Some x \<Rightarrow> x | None \<Rightarrow> ''NULL'') @ line_end) r) @ line_end"

definition show_players :: "answer \<Rightarrow> unit suite_op" where
  "show_players a = sseqs [
     on_database (sqlite_exec ''SELECT * FROM PLAYERS''),
     out (concat (map print_callback (an_rows a))),
     (case an_error a of None \<Rightarrow> sreturn () | Some e \<Rightarrow> out (''Select could not be performed: '' @ e @ line_end))]"

text \<open>Between the opening and the closing.\<close>

definition suite_steps :: "answer \<Rightarrow> answer \<Rightarrow> answer \<Rightarrow> string option list list \<Rightarrow> answer \<Rightarrow> unit suite_op list" where
  "suite_steps after_insert after_update after_delete found after_bad = [
     on_database (create_table ''PLAYERS''),
     on_database (insert_player ''PLAYERS'' ''billy'' ''1''),
     on_database (insert_player ''PLAYERS'' ''joe'' ''2''),
     out (''After Insert'' @ line_end),
     show_players after_insert,
     on_database (update_player ''PLAYERS'' ''UserId'' [''1'', ''2''] ''Points'' ''2''),
     out (''After Update'' @ line_end),
     show_players after_update,
     on_database (delete_player ''PLAYERS'' ''1''),
     out (''After Delete'' @ line_end),
     show_players after_delete,
     out (''Select Test'' @ line_end),
     sbind (on_database (select_values found ''PLAYERS'' [] ''Points'' ''2'' [''UserId'', ''UserName'']))
       (\<lambda>results. sfor results (\<lambda>i. out (i @ line_end))),
     on_database (insert_player ''PLAYERS'' ''DROP TABLE LOL;'' ''3''),
     on_database (insert_player ''PLAYERS'' ''DROP TABLE, LOL'' ''4''),
     out (line_end @ ''After Bad Insert'' @ line_end),
     show_players after_bad]"

definition test_suite :: "answer \<Rightarrow> answer \<Rightarrow> answer \<Rightarrow> string option list list \<Rightarrow> answer \<Rightarrow> unit suite_op" where
  "test_suite after_insert after_update after_delete found after_bad =
     sseqs (on_database open_db # suite_steps after_insert after_update after_delete found after_bad @
       [on_database close_db, on_database destroy_db])"

subsection \<open>What it does\<close>

definition suite_statements :: "string list" where
  "suite_statements = [
     ''CREATE TABLE IF NOT EXISTS PLAYERS(UserId INT PRIMARY KEY NOT NULL,UserName TEXT NOT NULL,Points INT NOT NULL,GamePlayed INT NOT NULL,GamesWon INT NOT NULL);'',
     ''INSERT INTO PLAYERS VALUES (1, '' @ quote @ ''billy'' @ quote @ '', 0, 0, 0);'',
     ''INSERT INTO PLAYERS VALUES (2, '' @ quote @ ''joe'' @ quote @ '', 0, 0, 0);'',
     ''SELECT * FROM PLAYERS'',
     ''UPDATE PLAYERS SET Points = 2 WHERE UserId = 1;'',
     ''UPDATE PLAYERS SET Points = 2 WHERE UserId = 2;'',
     ''SELECT * FROM PLAYERS'',
     ''DELETE FROM PLAYERS WHERE UserID = 1;'',
     ''SELECT * FROM PLAYERS'',
     ''SELECT UserId, UserName FROM PLAYERS WHERE Points = 2;'',
     ''SELECT * FROM PLAYERS'']"

lemma suite_inputs:
  "valid_input ''PLAYERS''" "valid_input ''billy''" "valid_input ''joe''" "valid_input ''1''" "valid_input ''2''"
  "valid_input ''UserId''" "valid_input ''UserName''" "valid_input ''Points''"
  "\<not> valid_input ''DROP TABLE LOL;''" "\<not> valid_input ''DROP TABLE, LOL''"
  by (simp_all add: valid_input_def str_find_first_of_def npos_def)

lemma out_run: "out t s = (Inr (), s\<lparr>su_output := su_output s @ t\<rparr>)"
  by (simp add: out_def act_simps)

lemma out_loop: "sfor xs (\<lambda>i. out (i @ line_end)) s = (Inr (), s\<lparr>su_output := su_output s @ concat (map (\<lambda>i. i @ line_end) xs)\<rparr>)"
  by (induction xs arbitrary: s) (simp_all add: act_simps out_run)

text \<open>An action on the opened database that hands \<open>xs\<close> to SQLite, in that order, and prints something.\<close>

definition hands_over :: "string list \<Rightarrow> unit suite_op \<Rightarrow> bool" where
  "hands_over xs m \<longleftrightarrow> (\<forall>s. db_handle (su_database s) = Opened \<longrightarrow> (\<exists>t. m s =
     (Inr (), s\<lparr>su_database := (su_database s)\<lparr>db_statements := db_statements (su_database s) @ xs\<rparr>, su_output := t\<rparr>)))"

lemma hands_overI:
  "(\<And>s. db_handle (su_database s) = Opened \<Longrightarrow> m s =
     (Inr (), s\<lparr>su_database := (su_database s)\<lparr>db_statements := db_statements (su_database s) @ xs\<rparr>, su_output := f s\<rparr>))
   \<Longrightarrow> hands_over xs m"
  unfolding hands_over_def by blast

lemma hands_over_out: "hands_over [] (out t)"
  by (rule hands_overI [where f = "\<lambda>s. su_output s @ t"]) (simp add: out_run)

lemma hands_over_return: "hands_over [] (sreturn ())"
  by (rule hands_overI [where f = su_output]) (simp add: act_simps)

lemma hands_over_exec: "hands_over [c_str x] (on_database (sqlite_exec x))"
  by (rule hands_overI [where f = su_output]) (simp add: on_database_def sqlite_exec_def act_simps)

lemma hands_over_seq:
  assumes "hands_over xs m" and "hands_over ys n"
  shows "hands_over (xs @ ys) (sseq m n)"
  unfolding hands_over_def
proof (intro allI impI)
  fix s :: suite
  assume h: "db_handle (su_database s) = Opened"
  obtain t where t: "m s = (Inr (), s\<lparr>su_database := (su_database s)\<lparr>db_statements := db_statements (su_database s) @ xs\<rparr>, su_output := t\<rparr>)"
    using assms(1) h unfolding hands_over_def by blast
  let ?s = "s\<lparr>su_database := (su_database s)\<lparr>db_statements := db_statements (su_database s) @ xs\<rparr>, su_output := t\<rparr>"
  have "db_handle (su_database ?s) = Opened" using h by simp
  then obtain u where "n ?s = (Inr (), ?s\<lparr>su_database := (su_database ?s)\<lparr>db_statements := db_statements (su_database ?s) @ ys\<rparr>, su_output := u\<rparr>)"
    using assms(2) unfolding hands_over_def by blast
  then show "\<exists>t. sseq m n s = (Inr (), s\<lparr>su_database := (su_database s)\<lparr>db_statements := db_statements (su_database s) @ xs @ ys\<rparr>, su_output := t\<rparr>)"
    using t by (auto simp: act_simps)
qed

lemma hands_over_show: "hands_over [''SELECT * FROM PLAYERS''] (show_players a)"
proof -
  have e: "hands_over [] (case an_error a of None \<Rightarrow> sreturn () | Some e \<Rightarrow> out (''Select could not be performed: '' @ e @ line_end))"
    by (simp add: hands_over_return hands_over_out split: option.split)
  show ?thesis
    using hands_over_seq [OF hands_over_exec [of "''SELECT * FROM PLAYERS''"] hands_over_seq [OF hands_over_out hands_over_seq [OF e hands_over_return]]]
    by (simp add: show_players_def c_str_def)
qed

text \<open>What the operations of the database hand over on the inputs of the suite: the two bad names nothing.\<close>

lemma hands_over_create: "hands_over [suite_statements ! 0] (on_database (create_table ''PLAYERS''))"
  using hands_over_exec [of "suite_statements ! 0"]
  by (simp add: create_table_def act_simps suite_inputs suite_statements_def c_str_def swhen_def)

lemma hands_over_insert:
  "hands_over [suite_statements ! 1] (on_database (insert_player ''PLAYERS'' ''billy'' ''1''))"
  "hands_over [suite_statements ! 2] (on_database (insert_player ''PLAYERS'' ''joe'' ''2''))"
  using hands_over_exec [of "suite_statements ! 1"] hands_over_exec [of "suite_statements ! 2"]
  by (simp_all add: insert_player_def suite_inputs suite_statements_def c_str_def swhen_def quote_def)

lemma hands_over_bad_insert:
  "hands_over [] (on_database (insert_player ''PLAYERS'' ''DROP TABLE LOL;'' ''3''))"
  "hands_over [] (on_database (insert_player ''PLAYERS'' ''DROP TABLE, LOL'' ''4''))"
  using hands_over_return
  by (simp_all add: insert_player_def suite_inputs swhen_def on_database_def sreturn_def)

lemma hands_over_update:
  "hands_over [suite_statements ! 4, suite_statements ! 5]
     (on_database (update_player ''PLAYERS'' ''UserId'' [''1'', ''2''] ''Points'' ''2''))"
  by (rule hands_overI [where f = su_output])
    (simp add: on_database_def update_player_def is_valid_list_count suite_inputs act_simps exec_loop
      suite_statements_def update_statement_def c_str_def sqlite_exec_def)

lemma hands_over_delete: "hands_over [suite_statements ! 7] (on_database (delete_player ''PLAYERS'' ''1''))"
  using hands_over_exec [of "suite_statements ! 7"]
  by (simp add: delete_player_def suite_inputs suite_statements_def c_str_def swhen_def)

lemma hands_over_select:
  assumes "\<forall>r \<in> set found. None \<notin> set r"
  shows "hands_over [suite_statements ! 9]
    (sbind (on_database (select_values found ''PLAYERS'' [] ''Points'' ''2'' [''UserId'', ''UserName'']))
       (\<lambda>results. sfor results (\<lambda>i. out (i @ line_end))))"
  using assms
  by (intro hands_overI [where f = "\<lambda>s. su_output s @ concat (map (\<lambda>i. i @ line_end) (concat (map (map the) found)))"])
    (simp add: on_database_def select_values_def is_valid_list_count suite_inputs act_simps sqlite_exec_def
      select_rows_all out_loop suite_statements_def c_str_def)

text \<open>The suite closes the database, and then the destructor of \<open>DB\<close> closes it once more.\<close>

definition ends_badly :: "string list \<Rightarrow> unit suite_op \<Rightarrow> bool" where
  "ends_badly xs m \<longleftrightarrow> (\<forall>s. db_handle (su_database s) = Opened \<longrightarrow> fst (m s) = Inl (Undefined Use_after_free) \<and>
     db_statements (su_database (snd (m s))) = db_statements (su_database s) @ xs)"

lemma ends_badly_close: "ends_badly [] (sseqs [on_database close_db, on_database destroy_db])"
  by (simp add: ends_badly_def on_database_def close_db_def destroy_db_def act_simps)

lemma ends_badly_seq:
  assumes "hands_over xs m" and "ends_badly ys n"
  shows "ends_badly (xs @ ys) (sseq m n)"
  unfolding ends_badly_def
proof (intro allI impI)
  fix s :: suite
  assume h: "db_handle (su_database s) = Opened"
  obtain t where t: "m s = (Inr (), s\<lparr>su_database := (su_database s)\<lparr>db_statements := db_statements (su_database s) @ xs\<rparr>, su_output := t\<rparr>)"
    using assms(1) h unfolding hands_over_def by blast
  let ?s = "s\<lparr>su_database := (su_database s)\<lparr>db_statements := db_statements (su_database s) @ xs\<rparr>, su_output := t\<rparr>"
  have "db_handle (su_database ?s) = Opened" using h by simp
  then have "fst (n ?s) = Inl (Undefined Use_after_free)"
    "db_statements (su_database (snd (n ?s))) = db_statements (su_database ?s) @ ys"
    using assms(2) unfolding ends_badly_def by blast+
  then show "fst (sseq m n s) = Inl (Undefined Use_after_free) \<and>
      db_statements (su_database (snd (sseq m n s))) = db_statements (su_database s) @ xs @ ys"
    using t by (simp add: act_simps)
qed

lemma ends_badly_append:
  "list_all2 hands_over xss ms \<Longrightarrow> ends_badly ys (sseqs ns) \<Longrightarrow> ends_badly (concat xss @ ys) (sseqs (ms @ ns))"
  by (induction rule: list_all2_induct) (auto dest: ends_badly_seq)

lemma suite_steps_hand_over:
  assumes "\<forall>r \<in> set found. None \<notin> set r"
  shows "list_all2 hands_over
    [[suite_statements ! 0], [suite_statements ! 1], [suite_statements ! 2], [], [''SELECT * FROM PLAYERS''],
     [suite_statements ! 4, suite_statements ! 5], [], [''SELECT * FROM PLAYERS''], [suite_statements ! 7], [],
     [''SELECT * FROM PLAYERS''], [], [suite_statements ! 9], [], [], [], [''SELECT * FROM PLAYERS'']]
    (suite_steps a b c found d)"
  unfolding suite_steps_def
  by (intro list_all2_Cons [THEN iffD2] conjI hands_over_create hands_over_insert hands_over_bad_insert hands_over_update
    hands_over_delete hands_over_select [OF assms] hands_over_show hands_over_out list_all2_Nil [THEN iffD2] refl)

text \<open>Whatever SQLite answers, the suite hands over the same statements, and it ends with the second close.\<close>

theorem suite_closes_twice:
  assumes "\<forall>r \<in> set found. None \<notin> set r"
  shows "case test_suite a b c found d \<lparr>su_database = new_database, su_output = []\<rparr> of
    (r, s) \<Rightarrow> r = Inl (Undefined Use_after_free) \<and> db_statements (su_database s) = suite_statements"
proof -
  have "ends_badly suite_statements (sseqs (suite_steps a b c found d @ [on_database close_db, on_database destroy_db]))"
    using ends_badly_append [OF suite_steps_hand_over [OF assms, of a b c d] ends_badly_close]
    by (simp add: suite_statements_def)
  from this [unfolded ends_badly_def, rule_format, of "\<lparr>su_database = new_database\<lparr>db_handle := Opened\<rparr>, su_output = []\<rparr>"]
  moreover have "on_database open_db \<lparr>su_database = new_database, su_output = []\<rparr> =
      (Inr (), \<lparr>su_database = new_database\<lparr>db_handle := Opened\<rparr>, su_output = []\<rparr>)"
    by (simp add: on_database_def open_db_def act_simps)
  ultimately show ?thesis by (simp add: test_suite_def act_simps case_prod_unfold new_database_def)
qed

end
