(* ===== verification/Logging.thy ===== *)
theory Logging
  imports Failures Cpp_Strings
begin

section \<open>Logging (modules log and log\_adapter\_console)\<close>

text \<open>
  Values given to a log entry are collected as strings; a \<open>LogStream\<close> builds an entry piece by piece and
  commits it to an adapter; the console adapter formats entries, plainly or with colours. The model's
  adapter is the list of the entries it got. A \<open>stringstream\<close> is its characters and the position at
  which the next one is written: writing overwrites what is there, and \<open>str(s)\<close> puts the position to
  the beginning.
\<close>

datatype level = DEBUG | INFO | WARNING | ERROR | FATAL

fun level_to_string :: "level \<Rightarrow> string" where
  "level_to_string DEBUG = ''DEBUG''"
| "level_to_string INFO = ''INFO''"
| "level_to_string WARNING = ''WARNING''"
| "level_to_string ERROR = ''ERROR''"
| "level_to_string FATAL = ''FATAL''"

subsection \<open>Collected values\<close>

text \<open>What is collected: something a \<open>stringstream\<close> prints by itself (here its text), an optional value,
  an exception (the name of its type and \<open>what()\<close>); or a pair of them.\<close>

datatype shown = Printed string | Optional "shown option" | Exception string string

datatype collected = One shown | Pair shown shown

primrec append_shown :: "shown \<Rightarrow> string" and append_optional :: "shown option \<Rightarrow> string" where
  "append_shown (Printed s) = s"
| "append_shown (Optional v) = append_optional v"
| "append_shown (Exception type what) = type @ '': '' @ what"
| "append_optional None = ''None''"
| "append_optional (Some v) = ''Some('' @ append_shown v @ '')''"

fun collect_one :: "collected \<Rightarrow> string" where
  "collect_one (One v) = append_shown v"
| "collect_one (Pair k v) = append_shown k @ '' => '' @ append_shown v"

definition collect :: "collected list \<Rightarrow> string list" where
  "collect vs = map collect_one vs"

record entry =
  en_module :: string
  en_level :: level
  en_timestamp :: int
  en_message :: string
  en_values :: "string list"

definition new_entry :: "int \<Rightarrow> string \<Rightarrow> level \<Rightarrow> string \<Rightarrow> collected list \<Rightarrow> entry" where
  "new_entry now m l text vs =
     \<lparr>en_module = m, en_level = l, en_timestamp = now, en_message = text, en_values = collect vs\<rparr>"

text \<open>\<open>log::info\<close> and its four siblings hand an entry to the global adapter, a null pointer until the program
  sets it. The adapter is the list of its entries.\<close>

type_synonym 'a log_op = "(entry list option, 'a) op"

definition log_at :: "level \<Rightarrow> string \<Rightarrow> int \<Rightarrow> string \<Rightarrow> collected list \<Rightarrow> unit log_op" where
  "log_at l m now text vs = sbind (sread id) (\<lambda>global. case global of
     None \<Rightarrow> undefined_behaviour Null_deref
   | Some es \<Rightarrow> smodify (\<lambda>_. Some (es @ [new_entry now m l text vs])))"

subsection \<open>Streams\<close>

type_synonym stringstream = "string \<times> nat"

definition ss_str :: "string \<Rightarrow> stringstream" where
  "ss_str s = (s, 0)"

definition ss_write :: "string \<Rightarrow> stringstream \<Rightarrow> stringstream" where
  "ss_write s b = (case b of (text, pos) \<Rightarrow> (take pos text @ s @ drop (pos + length s) text, pos + length s))"

record log_stream =
  ls_values :: "string list"
  ls_text :: stringstream
  ls_module :: string
  ls_level :: level

definition new_log_stream :: "string \<Rightarrow> log_stream" where
  "new_log_stream m = \<lparr>ls_values = [], ls_text = ([], 0), ls_module = m, ls_level = INFO\<rparr>"

definition new_global_log_stream :: log_stream where
  "new_global_log_stream = new_log_stream ''global''"

definition copy_log_stream :: "log_stream \<Rightarrow> log_stream" where
  "copy_log_stream s = \<lparr>ls_values = ls_values s, ls_text = ss_str (fst (ls_text s)), ls_module = ls_module s,
     ls_level = ls_level s\<rparr>"

definition reset_stream :: "log_stream \<Rightarrow> log_stream" where
  "reset_stream s = s\<lparr>ls_level := INFO, ls_text := ss_str [], ls_values := []\<rparr>"

definition commit :: "int \<Rightarrow> log_stream \<Rightarrow> entry \<times> log_stream" where
  "commit now s =
     (\<lparr>en_module = ls_module s, en_level = ls_level s, en_timestamp = now, en_message = fst (ls_text s),
       en_values = ls_values s\<rparr>, reset_stream s)"

datatype log_input = Level level | Text string | Data collected | Endl int

text \<open>\<open>operator<<\<close>, with the entries it commits. An \<open>endl\<close> comes with the clock reading.\<close>

fun log_write :: "log_input \<Rightarrow> log_stream \<Rightarrow> entry list \<times> log_stream" where
  "log_write (Level l) s = ([], s\<lparr>ls_level := l\<rparr>)"
| "log_write (Text t) s = ([], s\<lparr>ls_text := ss_write t (ls_text s)\<rparr>)"
| "log_write (Data v) s = ([], s\<lparr>ls_values := ls_values s @ [collect_one v]\<rparr>)"
| "log_write (Endl now) s = (case commit now s of (e, s') \<Rightarrow> ([e], s'))"

definition destroy_stream :: "int \<Rightarrow> log_stream \<Rightarrow> entry list" where
  "destroy_stream now s = (if fst (ls_text s) \<noteq> [] \<or> ls_values s \<noteq> [] then [fst (commit now s)] else [])"

fun log_all :: "log_input list \<Rightarrow> int \<Rightarrow> log_stream \<Rightarrow> entry list" where
  "log_all [] now s = destroy_stream now s"
| "log_all (i # is') now s = (case log_write i s of (es, s') \<Rightarrow> es @ log_all is' now s')"

text \<open>A factory starts a new stream for every statement. It returns a local variable: when the compiler
  copies it, the destructor of the original runs as well.\<close>

definition factory_write :: "bool \<Rightarrow> string option \<Rightarrow> log_input \<Rightarrow> int \<Rightarrow> entry list \<times> log_stream" where
  "factory_write elided m i now =
     (case log_write i (case m of None \<Rightarrow> new_global_log_stream | Some name \<Rightarrow> new_log_stream name) of
        (es, s) \<Rightarrow> if elided then (es, s) else (es @ destroy_stream now s, copy_log_stream s))"

text \<open>A statement \<open>clout << a << ...\<close>.\<close>

definition log_statement :: "bool \<Rightarrow> string option \<Rightarrow> log_input \<Rightarrow> log_input list \<Rightarrow> int \<Rightarrow> entry list" where
  "log_statement elided m i rest now = (case factory_write elided m i now of (es, s) \<Rightarrow> es @ log_all rest now s)"

subsection \<open>What is logged\<close>

text \<open>The entries as they were meant: one for every \<open>endl\<close>, and one for what follows the last one, when
  there is a text or a value in it.\<close>

fun is_level :: "log_input \<Rightarrow> bool" where
  "is_level (Level _) = True"
| "is_level _ = False"

fun piece :: "log_input list \<Rightarrow> string \<times> string list \<times> level" where
  "piece [] = ([], [], INFO)"
| "piece (i # is') = (case piece is' of (t, vs, l) \<Rightarrow> (case i of
     Text s \<Rightarrow> (s @ t, vs, l)
   | Data v \<Rightarrow> (t, collect_one v # vs, l)
   | Level k \<Rightarrow> (t, vs, if list_ex is_level is' then l else k)
   | Endl _ \<Rightarrow> (t, vs, l)))"

definition entry_of :: "string \<Rightarrow> int \<Rightarrow> log_input list \<Rightarrow> entry" where
  "entry_of m now is' = (case piece is' of (t, vs, l) \<Rightarrow>
     \<lparr>en_module = m, en_level = l, en_timestamp = now, en_message = t, en_values = vs\<rparr>)"

fun meant :: "string \<Rightarrow> int \<Rightarrow> log_input list \<Rightarrow> log_input list \<Rightarrow> entry list" where
  "meant m now acc [] = (if fst (piece acc) \<noteq> [] \<or> fst (snd (piece acc)) \<noteq> [] then [entry_of m now acc] else [])"
| "meant m now acc (Endl t # is') = entry_of m t acc # meant m now [] is'"
| "meant m now acc (i # is') = meant m now (acc @ [i]) is'"

subsection \<open>Streams log what was meant\<close>

text \<open>The state of a stream that has been given the inputs \<open>acc\<close> since its last entry.\<close>

definition stream_of :: "string \<Rightarrow> log_input list \<Rightarrow> log_stream" where
  "stream_of m acc = (case piece acc of (t, vs, l) \<Rightarrow>
     \<lparr>ls_values = vs, ls_text = (t, length t), ls_module = m, ls_level = l\<rparr>)"

lemma piece_snoc:
  "piece (acc @ [i]) = (case piece acc of (t, vs, l) \<Rightarrow> (case i of
     Text s \<Rightarrow> (t @ s, vs, l) | Data v \<Rightarrow> (t, vs @ [collect_one v], l) | Level k \<Rightarrow> (t, vs, k) | Endl _ \<Rightarrow> (t, vs, l)))"
  by (induction acc) (auto split: log_input.splits prod.splits)

lemma stream_of_new: "stream_of m [] = new_log_stream m"
  by (simp add: stream_of_def new_log_stream_def)

lemma commit_stream_of: "commit now (stream_of m acc) = (entry_of m now acc, stream_of m [])"
  by (simp add: commit_def stream_of_def entry_of_def reset_stream_def ss_str_def split: prod.split)

lemma write_stream_of:
  "log_write i (stream_of m acc) =
     (case i of Endl t \<Rightarrow> ([entry_of m t acc], stream_of m []) | _ \<Rightarrow> ([], stream_of m (acc @ [i])))"
  by (cases i; cases "piece acc") (simp_all add: commit_stream_of, simp_all add: stream_of_def piece_snoc ss_write_def)

lemma destroy_stream_of: "destroy_stream now (stream_of m acc) = meant m now acc []"
  by (simp add: destroy_stream_def commit_stream_of) (simp add: stream_of_def split: prod.split)

lemma log_all_stream_of: "log_all is' now (stream_of m acc) = meant m now acc is'"
proof (induction is' arbitrary: acc)
  case (Cons i is')
  then show ?case by (cases i) (simp_all add: write_stream_of)
qed (simp add: destroy_stream_of)

text \<open>C20. A log stream commits exactly the entries that were meant, whatever is written into it and in
  whatever order: one for every \<open>endl\<close> with the texts since the last one joined, the values in their
  order and the last level given, and, when it is destroyed, one more if anything is left. A statement
  on a factory logs the same when the compiler elides the copy of the local stream.\<close>

theorem log_stream_commits:
  "log_all is' now (new_log_stream m) = meant m now [] is' \<and>
   log_statement True (Some m) i is' now = meant m now [] (i # is') \<and>
   log_statement True None i is' now = meant ''global'' now [] (i # is')"
proof -
  have "log_statement True (Some n) i is' now = log_all (i # is') now (stream_of n [])" for n
    by (simp add: log_statement_def factory_write_def stream_of_new case_prod_unfold)
  moreover have "log_statement True None i is' now = log_all (i # is') now (stream_of ''global'' [])"
    by (simp add: log_statement_def factory_write_def stream_of_new new_global_log_stream_def case_prod_unfold)
  ultimately show ?thesis by (simp add: log_all_stream_of stream_of_new [symmetric])
qed

text \<open>When the copy is not elided, a statement that starts with a text logs this text by itself, in the
  level INFO, and then once more: the copied stream starts writing at the beginning of its text, so the
  next text overwrites it. A statement that starts with a level logs what was meant.\<close>

theorem copied_stream_logs_twice:
  assumes "t \<noteq> []"
  shows "log_statement False (Some m) (Text t) [Level l, Endl k] now = [entry_of m now [Text t], entry_of m k [Level l, Text t]] \<and>
    log_statement False (Some m) (Text t) [Text u, Endl k] now =
      [entry_of m now [Text t], entry_of m k [Text (u @ drop (length u) t)]] \<and>
    log_statement False (Some m) (Level l) is' now = meant m now [] (Level l # is')"
proof -
  have "copy_log_stream (stream_of m [Level l]) = stream_of m [Level l]"
    by (simp add: copy_log_stream_def stream_of_def ss_str_def)
  moreover have "destroy_stream now (stream_of m [Level l]) = []" by (simp add: destroy_stream_def stream_of_def)
  ultimately have "log_statement False (Some m) (Level l) is' now = log_all is' now (stream_of m [Level l])"
    using write_stream_of [of "Level l" m "[]"]
    by (simp add: log_statement_def factory_write_def stream_of_new case_prod_unfold)
  then show ?thesis
    using assms by (simp add: log_all_stream_of) (simp add: log_statement_def factory_write_def destroy_stream_def commit_def
      copy_log_stream_def reset_stream_def new_log_stream_def ss_write_def ss_str_def entry_of_def)
qed

theorem copied_stream_logs_twice_witness:
  "log_statement False (Some ''main'') (Text ''Port '') [Text ''8080'', Endl 7] 5 =
     [\<lparr>en_module = ''main'', en_level = INFO, en_timestamp = 5, en_message = ''Port '', en_values = []\<rparr>,
      \<lparr>en_module = ''main'', en_level = INFO, en_timestamp = 7, en_message = ''8080 '', en_values = []\<rparr>]"
  using copied_stream_logs_twice [of "''Port ''" "''main''" WARNING 7 5 "''8080''" "[]"] by (simp add: entry_of_def)

end
