(* ===== verification/Console_Log.thy ===== *)
theory Console_Log
  imports Logging
begin

section \<open>The console adapter (module log\_adapter\_console)\<close>

text \<open>
  The console adapter formats an entry and prints it as a line. \<open>Formatter\<close> is the plain formatter,
  \<open>FormatterWithColor\<close> overrides its virtual methods and adds terminal escape sequences. The dynamic
  type of a formatter is its constructor, and each \<open>format\_\<close> function calls the method of that type.
\<close>

datatype formatter = Formatter | Formatter_with_color

definition ESC :: char where
  "ESC = CHR 0x1B"

definition escape :: "string \<Rightarrow> string" where
  "escape code = ESC # ''['' @ code @ ''m''"

fun plain_module :: "string \<Rightarrow> string" where
  "plain_module m = m"

fun color_module :: "string \<Rightarrow> string" where
  "color_module m = escape ''35'' @ plain_module m @ escape ''0''"

fun format_module :: "formatter \<Rightarrow> string \<Rightarrow> string" where
  "format_module Formatter m = plain_module m"
| "format_module Formatter_with_color m = color_module m"

text \<open>\<open>to_time_t\<close> drops the fraction of a second; \<open>gmtime_r\<close>; \<open>setw(2)\<close> with \<open>setfill('0')\<close>.\<close>

definition to_time_t :: "int \<Rightarrow> int" where
  "to_time_t ns = sgn ns * (\<bar>ns\<bar> div 1000000000)"

definition tm_hour :: "int \<Rightarrow> nat" where
  "tm_hour t = nat (t div 3600 mod 24)"

definition tm_min :: "int \<Rightarrow> nat" where
  "tm_min t = nat (t div 60 mod 60)"

definition tm_sec :: "int \<Rightarrow> nat" where
  "tm_sec t = nat (t mod 60)"

definition two_digits :: "nat \<Rightarrow> string" where
  "two_digits n = replicate (2 - length (dec n)) (CHR ''0'') @ dec n"

definition format_time :: "int \<Rightarrow> string" where
  "format_time ns = (let t = to_time_t ns in
     ''['' @ two_digits (tm_hour t) @ '':'' @ two_digits (tm_min t) @ '':'' @ two_digits (tm_sec t) @ '']'')"

fun color_timestamp :: "int \<Rightarrow> string" where
  "color_timestamp ns = escape ''37'' @ format_time ns @ escape ''0''"

fun format_timestamp :: "formatter \<Rightarrow> int \<Rightarrow> string" where
  "format_timestamp Formatter ns = format_time ns"
| "format_timestamp Formatter_with_color ns = color_timestamp ns"

fun plain_level :: "level \<Rightarrow> string" where
  "plain_level DEBUG = ''DEBUG''"
| "plain_level WARNING = ''WARN ''"
| "plain_level INFO = ''INFO ''"
| "plain_level FATAL = ''CRIT ''"
| "plain_level ERROR = ''ERROR''"

fun color_level :: "level \<Rightarrow> string" where
  "color_level DEBUG = escape ''2;37'' @ ''DEBUG'' @ escape ''0''"
| "color_level WARNING = escape ''33'' @ ''WARN '' @ escape ''0''"
| "color_level INFO = escape ''37'' @ ''INFO '' @ escape ''0''"
| "color_level FATAL = escape ''1;31'' @ ''CRIT '' @ escape ''0''"
| "color_level ERROR = escape ''31'' @ ''ERROR'' @ escape ''0''"

fun format_level :: "formatter \<Rightarrow> level \<Rightarrow> string" where
  "format_level Formatter l = plain_level l"
| "format_level Formatter_with_color l = color_level l"

definition format_message :: "formatter \<Rightarrow> string \<Rightarrow> string" where
  "format_message f text = text"

fun plain_value :: "nat \<Rightarrow> string \<Rightarrow> string" where
  "plain_value i v = ''           ['' @ dec i @ '']> '' @ v"

fun color_value :: "nat \<Rightarrow> string \<Rightarrow> string" where
  "color_value i v = ''           '' @ escape ''36'' @ ''['' @ dec i @ '']>'' @ escape ''34'' @ '' '' @ v @ escape ''0''"

fun format_value :: "formatter \<Rightarrow> nat \<Rightarrow> string \<Rightarrow> string" where
  "format_value Formatter i v = plain_value i v"
| "format_value Formatter_with_color i v = color_value i v"

primrec value_lines :: "formatter \<Rightarrow> nat \<Rightarrow> string list \<Rightarrow> string" where
  "value_lines f i [] = []"
| "value_lines f i (v # vs) = CHR 0x0A # format_value f i v @ value_lines f (i + 1) vs"

definition format_values :: "formatter \<Rightarrow> string list \<Rightarrow> string" where
  "format_values f vs = (if vs = [] then [] else value_lines f 0 vs)"

definition format_entry :: "formatter \<Rightarrow> entry \<Rightarrow> string" where
  "format_entry f e = format_timestamp f (en_timestamp e) @ '' '' @ format_module f (en_module e) @ '' '' @
     format_level f (en_level e) @ '': '' @ format_message f (en_message e) @ format_values f (en_values e)"

record console =
  co_formatter :: formatter
  co_output :: string

definition new_console :: console where
  "new_console = \<lparr>co_formatter = Formatter, co_output = []\<rparr>"

definition use_formatter :: "formatter \<Rightarrow> console \<Rightarrow> console" where
  "use_formatter f c = c\<lparr>co_formatter := f\<rparr>"

definition console_log :: "entry \<Rightarrow> console \<Rightarrow> console" where
  "console_log e c = c\<lparr>co_output := co_output c @ format_entry (co_formatter c) e @ [CHR 0x0A]\<rparr>"

text \<open>The daemon's console.\<close>

definition init_logging :: console where
  "init_logging = use_formatter Formatter_with_color new_console"

subsection \<open>What a terminal makes of it\<close>

text \<open>The text a terminal shows (the escape sequences taken out), and the codes it obeys.\<close>

fun visible :: "bool \<Rightarrow> string \<Rightarrow> string" where
  "visible esc [] = []"
| "visible True (c # s) = visible (c \<noteq> CHR ''m'') s"
| "visible False (c # s) = (if c = ESC then visible True s else c # visible False s)"

fun codes :: "string option \<Rightarrow> string \<Rightarrow> string list" where
  "codes k [] = []"
| "codes (Some k) (c # s) = (if c = CHR ''m'' then k # codes None s else codes (Some (k @ [c])) s)"
| "codes None (c # s) = (if c = ESC then codes (Some []) s else codes None s)"

definition plain_text :: "string \<Rightarrow> bool" where
  "plain_text s \<longleftrightarrow> ESC \<notin> set s"

named_theorems terminal \<open>what a terminal shows\<close>

lemma visible_plain [terminal]: "plain_text s \<Longrightarrow> visible False (s @ t) = s @ visible False t"
  by (induction s) (auto simp: plain_text_def)

lemma codes_plain [terminal]: "plain_text s \<Longrightarrow> codes None (s @ t) = codes None t"
  by (induction s) (auto simp: plain_text_def)

lemma visible_code: "CHR ''m'' \<notin> set code \<Longrightarrow> visible True (code @ CHR ''m'' # t) = visible False t"
  by (induction code) auto

lemma codes_code: "CHR ''m'' \<notin> set code \<Longrightarrow> codes (Some k) (code @ CHR ''m'' # t) = (k @ code) # codes None t"
  by (induction code arbitrary: k) auto

lemma visible_escape [terminal]: "CHR ''m'' \<notin> set code \<Longrightarrow> visible False (escape code @ t) = visible False t"
  using visible_code [of "''['' @ code"] by (simp add: escape_def)

lemma codes_escape [terminal]:
  "CHR ''m'' \<notin> set code \<Longrightarrow> codes None (escape code @ t) = (''['' @ code) # codes None t"
  using codes_code [of "''['' @ code" "[]"] by (simp add: escape_def)

lemma plain_text_simps [terminal]:
  "plain_text []" "plain_text (c # s) \<longleftrightarrow> c \<noteq> ESC \<and> plain_text s" "plain_text (s @ t) \<longleftrightarrow> plain_text s \<and> plain_text t"
  by (auto simp: plain_text_def)

lemma visible_end [terminal]: "visible False [] = []"
  by simp

lemma visible_char [terminal]: "c \<noteq> ESC \<Longrightarrow> visible False (c # s) = c # visible False s"
  by simp

lemma codes_char [terminal]: "c \<noteq> ESC \<Longrightarrow> codes None (c # s) = codes None s"
  by simp

lemma not_ESC: "is_digit c \<Longrightarrow> c \<noteq> ESC"
  by (auto simp: is_digit_def ESC_def)

lemma plain_dec [terminal]: "plain_text (dec n)"
  using dec_digits [of n] not_ESC by (auto simp: plain_text_def)

lemma plain_two_digits [terminal]: "plain_text (two_digits n)"
  using plain_dec [of n] by (auto simp: two_digits_def plain_text_def ESC_def)

lemma plain_time [terminal]: "plain_text (format_time ns)"
  using plain_two_digits by (simp add: format_time_def Let_def terminal) (simp add: ESC_def)

lemma dec_length: "n < 100 \<Longrightarrow> length (dec n) \<le> 2"
proof -
  assume "n < 100"
  have one: "length (dec k) = 1" if "k < 10" for k using that by (subst dec.simps) simp
  show ?thesis
  proof (cases "n < 10")
    case False
    then have "length (dec n) = length (dec (n div 10)) + 1" by (subst dec.simps) simp
    then show ?thesis using one [of "n div 10"] \<open>n < 100\<close> by simp
  qed (simp add: one)
qed

lemma two_digits_length: "n < 100 \<Longrightarrow> length (two_digits n) = 2"
  using dec_length [of n] by (simp only: two_digits_def length_append length_replicate) simp

lemma timestamp_width: "length (format_time ns) = 10"
proof -
  have small: "nat (k mod n) < 100" if "0 < n" "n \<le> 100" for k n :: int
  proof -
    have "k mod n < n" using that(1) by (rule pos_mod_bound)
    then show ?thesis using that(2) by linarith
  qed
  have "tm_hour t < 100" "tm_min t < 100" "tm_sec t < 100" for t
    using small [of 24] small [of 60] by (simp_all add: tm_hour_def tm_min_def tm_sec_def)
  then show ?thesis by (simp add: format_time_def Let_def two_digits_length)
qed

definition plain_entry :: "entry \<Rightarrow> bool" where
  "plain_entry e \<longleftrightarrow> plain_text (en_module e) \<and> plain_text (en_message e) \<and> (\<forall>v \<in> set (en_values e). plain_text v)"

lemma ESC_char [simp]: "CHR ''m'' \<noteq> ESC" "CHR 0x20 \<noteq> ESC" "CHR 0x0A \<noteq> ESC" "CHR '':'' \<noteq> ESC" "CHR ''['' \<noteq> ESC"
    "CHR '']'' \<noteq> ESC" "CHR ''>'' \<noteq> ESC"
  by (simp_all add: ESC_def)

lemma terminal_level [terminal]:
  "visible False (color_level l @ t) = plain_level l @ visible False t"
  by (cases l; simp add: terminal; simp add: ESC_def terminal)+

lemma visible_lines:
  "\<forall>v \<in> set vs. plain_text v \<Longrightarrow> visible False (value_lines Formatter_with_color i vs @ t) = value_lines Formatter i vs @ visible False t"
  by (induction vs arbitrary: i) (simp_all add: terminal)

lemma visible_entry:
  assumes "plain_entry e"
  shows "visible False (format_entry Formatter_with_color e @ t) = format_entry Formatter e @ visible False t"
  using assms visible_lines [of "en_values e" 0 t]
  by (simp add: plain_entry_def format_entry_def format_message_def format_values_def terminal)

text \<open>A text that leaves the terminal the way a reset does, if it changes it.\<close>

definition resets :: "string \<Rightarrow> bool" where
  "resets s \<longleftrightarrow> (\<forall>t. \<exists>ks. codes None (s @ t) = ks @ codes None t \<and> (ks = [] \<or> last ks = ''[0''))"

lemma resets_plain: "plain_text s \<Longrightarrow> resets s"
  by (simp add: resets_def codes_plain)

lemma resets_append: "resets s \<Longrightarrow> resets s' \<Longrightarrow> resets (s @ s')"
  unfolding resets_def append_assoc by (metis append_assoc append_Nil last_appendR append_is_Nil_conv self_append_conv)

lemma resets_concat: "(\<And>s. s \<in> set ss \<Longrightarrow> resets s) \<Longrightarrow> resets (concat ss)"
  by (induction ss) (simp_all add: resets_append resets_plain plain_text_def)

lemma resets_escape: "CHR ''m'' \<notin> set a \<Longrightarrow> plain_text s \<Longrightarrow> resets (escape a @ s @ escape ''0'')"
  by (simp add: resets_def terminal)

lemma resets_line: "plain_text v \<Longrightarrow> resets (CHR 0x0A # format_value Formatter_with_color i v)"
  by (simp add: resets_def terminal)

lemma resets_lines: "\<forall>v \<in> set vs. plain_text v \<Longrightarrow> resets (value_lines Formatter_with_color i vs)"
  using resets_append [OF resets_line] by (induction vs arbitrary: i) (simp_all add: resets_plain terminal)

lemma resets_level: "resets (format_level Formatter_with_color l)"
  by (cases l; simp only: format_level.simps color_level.simps; rule resets_escape) (simp_all add: plain_text_def ESC_def)

lemma resets_entry:
  assumes "plain_entry e"
  shows "resets (format_entry Formatter_with_color e)"
proof -
  have "resets (format_timestamp Formatter_with_color ns)" for ns by (auto intro!: resets_escape simp: terminal)
  moreover have "resets (format_module Formatter_with_color (en_module e))"
    using assms by (auto intro!: resets_escape simp: plain_entry_def)
  moreover have "resets (format_values Formatter_with_color (en_values e))"
    using assms by (cases "en_values e = []") (simp_all add: plain_entry_def format_values_def resets_lines resets_plain terminal)
  moreover have "resets '' ''" "resets '': ''" "resets (format_message Formatter_with_color (en_message e))"
    using assms by (simp_all add: resets_plain plain_entry_def format_message_def terminal)
  ultimately show ?thesis unfolding format_entry_def by (intro resets_append resets_level)
qed

lemma console_fold:
  "co_output (fold console_log es c) = co_output c @ concat (map (\<lambda>e. format_entry (co_formatter c) e @ [CHR 0x0A]) es)"
  by (induction es arbitrary: c) (simp_all add: console_log_def)

text \<open>C21. Colours only decorate, as long as the texts of the entries (module, message and values) hold no escape
  characters of their own. Then what the terminal shows of the entries the daemon's console prints is
  what the plain formatter would have printed, and at the end the last escape sequence is a reset, so
  that nothing printed afterwards is coloured. Every timestamp is ten characters wide, so the lines of the values, indented
  by eleven, start below the module name. The daemon logs the text of a failed command as it came from the client, so the condition
  is one on the clients: \<open>client_text_obeyed\<close>.\<close>

theorem colours_only_decorate:
  assumes "\<forall>e \<in> set es. plain_entry e"
  shows "visible False (co_output (fold console_log es init_logging)) = co_output (fold console_log es new_console) \<and>
    resets (co_output (fold console_log es init_logging)) \<and> length (format_timestamp Formatter ns) = 10"
proof -
  let ?lines = "\<lambda>f. concat (map (\<lambda>e. format_entry f e @ [CHR 0x0A]) es)"
  have "visible False (?lines Formatter_with_color) = ?lines Formatter"
    using assms by (induction es) (simp_all add: visible_entry terminal)
  moreover have "resets (?lines Formatter_with_color)"
    using assms by (intro resets_concat) (auto simp: resets_append resets_entry resets_plain terminal)
  ultimately show ?thesis
    by (simp add: console_fold init_logging_def use_formatter_def new_console_def timestamp_width)
qed

theorem colours_only_decorate_witness:
  "visible False (co_output (fold console_log [\<lparr>en_module = ''Server'', en_level = WARNING, en_timestamp = 3661000000000,
      en_message = ''Running behind!'', en_values = [''Maximum => 50'']\<rparr>] init_logging)) =
   ''[01:01:01] Server WARN : Running behind!'' @ CHR 0x0A # ''           [0]> Maximum => 50'' @ [CHR 0x0A]"
proof -
  define e where "e = \<lparr>en_module = ''Server'', en_level = WARNING, en_timestamp = 3661000000000,
    en_message = ''Running behind!'', en_values = [''Maximum => 50'']\<rparr>"
  have "\<forall>x \<in> set [e]. plain_entry x" by (simp add: e_def plain_entry_def plain_text_def ESC_def)
  from colours_only_decorate [OF this]
  have "visible False (co_output (fold console_log [e] init_logging)) = co_output (fold console_log [e] new_console)" by blast
  also have "\<dots> = ''[01:01:01] Server WARN : Running behind!'' @ CHR 0x0A # ''           [0]> Maximum => 50'' @ [CHR 0x0A]"
    unfolding e_def by code_simp
  finally show ?thesis by (simp add: e_def)
qed

text \<open>A client that sends a command with an escape sequence in it, and whose command fails, has this
  sequence obeyed by the terminal of the daemon.\<close>

theorem client_text_obeyed:
  "''[31'' \<in> set (codes None (co_output (console_log \<lparr>en_module = ''Server'', en_level = ERROR, en_timestamp = 0,
     en_message = ''Failed to process a user command.'', en_values = [''Command => /nick '' @ escape ''31'', what]\<rparr> init_logging)))"
  by (simp add: console_log_def init_logging_def use_formatter_def new_console_def format_entry_def
    format_message_def format_values_def terminal ESC_def)

end
