(* ===== verification/Json_Packets.thy ===== *)
theory Json_Packets
  imports Socket_Adapter
begin

section \<open>JSON packets (module protocol)\<close>

text \<open>
  \<open>JsonPacket\<close> wraps a protobuf \<open>Any\<close>: a packed message with the URL of its type. Protobuf is a
  parameter, given by the functions that the class calls; \<open>'any\<close> and \<open>'m\<close> are its \<open>Any\<close> and its
  messages. A function that reports success next to its output returns a pair. The class is a template
  over the message type, which is named here by its full name.
\<close>

record ('any, 'm) protobuf =
  pb_parse :: "string \<Rightarrow> bool \<times> 'any"
  pb_print :: "'any \<Rightarrow> bool \<times> string"
  pb_pack :: "'m \<Rightarrow> 'any"
  pb_url :: "'any \<Rightarrow> string"
  pb_type_name :: "string \<Rightarrow> bool \<times> string"
  pb_unpack :: "string \<Rightarrow> 'any \<Rightarrow> bool \<times> 'm"
  pb_full_name :: "'m \<Rightarrow> string"

record 'any json_packet =
  jp_any :: 'any

definition packet_of :: "('any, 'm) protobuf \<Rightarrow> 'm \<Rightarrow> 'any json_packet" where
  "packet_of P m = \<lparr>jp_any = pb_pack P m\<rparr>"

definition packet_type :: "('any, 'm) protobuf \<Rightarrow> 'any json_packet \<Rightarrow> string" where
  "packet_type P p = pb_url P (jp_any p)"

definition is_type :: "('any, 'm) protobuf \<Rightarrow> string \<Rightarrow> 'any json_packet \<Rightarrow> bool" where
  "is_type P T p \<longleftrightarrow> snd (pb_type_name P (pb_url P (jp_any p))) = T"

text \<open>Whether the unpacking succeeded is not looked at.\<close>

definition try_downcast :: "('any, 'm) protobuf \<Rightarrow> string \<Rightarrow> 'any json_packet \<Rightarrow> 'm option" where
  "try_downcast P T p = (if \<not> is_type P T p then None else Some (snd (pb_unpack P T (jp_any p))))"

definition downcast :: "('any, 'm) protobuf \<Rightarrow> string \<Rightarrow> 'any json_packet \<Rightarrow> packet_kind + 'm" where
  "downcast P T p = (case try_downcast P T p of None \<Rightarrow> Inl ILLEGAL_CAST | Some m \<Rightarrow> Inr m)"

text \<open>The status of neither conversion is looked at.\<close>

definition json_from_bytes :: "('any, 'm) protobuf \<Rightarrow> bytes \<Rightarrow> 'any json_packet" where
  "json_from_bytes P d = \<lparr>jp_any = snd (pb_parse P (from_bytes d))\<rparr>"

definition json_to_bytes :: "('any, 'm) protobuf \<Rightarrow> 'any json_packet \<Rightarrow> bytes" where
  "json_to_bytes P p = to_bytes (snd (pb_print P (jp_any p)))"

text \<open>What protobuf documents of the messages whose types are compiled into the program: a packed message
  has the URL of its type, unpacks to itself, and survives printing and parsing.\<close>

definition protobuf_documented :: "('any, 'm) protobuf \<Rightarrow> bool" where
  "protobuf_documented P \<longleftrightarrow> (\<forall>m. pb_type_name P (pb_url P (pb_pack P m)) = (True, pb_full_name P m) \<and>
     pb_unpack P (pb_full_name P m) (pb_pack P m) = (True, m) \<and>
     pb_parse P (snd (pb_print P (pb_pack P m))) = (True, pb_pack P m))"

text \<open>A message that is sent as a JSON packet arrives as it was, if the receiver asks for its type, and
  the cast to every other type is refused.\<close>

theorem json_packet_roundtrip:
  assumes "protobuf_documented P"
  shows "downcast P T (json_from_bytes P (json_to_bytes P (packet_of P m))) =
    (if T = pb_full_name P m then Inr m else Inl ILLEGAL_CAST)"
  using assms
  by (simp add: protobuf_documented_def downcast_def try_downcast_def is_type_def json_from_bytes_def
      json_to_bytes_def packet_of_def bytes_roundtrip)

definition demo_protobuf :: "(string \<times> string, string) protobuf" where
  "demo_protobuf = \<lparr>pb_parse = (\<lambda>s. if s = [] then (False, ([], [])) else (True, (''t.g/p.Chat'', tl s))),
     pb_print = (\<lambda>a. (True, CHR ''j'' # snd a)), pb_pack = (\<lambda>m. (''t.g/p.Chat'', m)), pb_url = fst,
     pb_type_name = (\<lambda>url. if url = [] then (False, []) else (True, drop 4 url)),
     pb_unpack = (\<lambda>_ a. (True, snd a)), pb_full_name = (\<lambda>_. ''p.Chat'')\<rparr>"

theorem json_packet_roundtrip_witness:
  "downcast demo_protobuf ''p.Chat'' (json_from_bytes demo_protobuf (json_to_bytes demo_protobuf
     (packet_of demo_protobuf ''hello''))) = Inr ''hello''"
proof -
  have "protobuf_documented demo_protobuf" by (simp add: protobuf_documented_def demo_protobuf_def)
  from json_packet_roundtrip [OF this, of "''p.Chat''" "''hello''"] show ?thesis by (simp add: demo_protobuf_def)
qed

text \<open>Bytes that are no JSON are not reported: they become a packet, and the cast of a packet without a
  type URL is an illegal cast. No function of the class reports a malformed packet.\<close>

lemma malformed_is_silent:
  assumes "pb_url P (snd (pb_parse P (from_bytes d))) = []" and "snd (pb_type_name P []) = []" and "T \<noteq> []"
  shows "downcast P T (json_from_bytes P d) = Inl ILLEGAL_CAST"
  using assms by (simp add: downcast_def try_downcast_def is_type_def json_from_bytes_def)

lemma never_malformed: "downcast P T p \<noteq> Inl MALFORMED"
  by (simp add: downcast_def split: option.split)

end
