(* ===== verification/Spec2Isabelle.thy ===== *)
theory Spec2Isabelle
  imports Daemon_Threads Simon_Rounds Chat_Window Dsl_Driver Rule_Book Runner_Properties Database_Suite Console_Log Chat_Client
    Json_Packets
begin

text \<open>
  Verification development of the social gaming platform, a C++ chat and game server. All paths below
  are under \<open>src/module\<close>.

  The program. A client connects over a websocket (\<open>networking\_websocket\<close>); a \<open>SocketAdapter\<close>
  (\<open>networking\<close>) turns its bytes into text packets (\<open>protocol\<close>), which the \<open>Connection\<close> (\<open>server\<close>) puts
  into a multi-consumer channel (\<open>common\_communication\<close>, over the weak vectors of
  \<open>common\_collections\<close>). Once per tick the server loop takes the packets of every client; a text that
  starts with a slash is parsed as a command (\<open>command\<close>) and run (\<open>server\_daemon/src/commands.cpp\<close>), any
  other text goes to the client's room. The \<open>ServerManager\<close> keeps the rooms by code and the rooms of
  the users. A \<open>Room\<close> (\<open>chat\<close>) keeps its members with their statuses, cached ordered sets of them,
  limits, an owner, a waitlist, and a game behind the interface \<open>Controller\<close> (\<open>game\<close>). Two games
  exist: Simon (\<open>server\_daemon/src/EXAMPLE\_Simon.cpp\<close>), and games written in the rule language
  (\<open>game\_spec\<close>, \<open>game\_manager\<close>, \<open>serializer\<close>).

  Conventions. An operation that can throw or has effects is an action (Prelude): from a state to a
  result, either an exception or a value, and the next state, which is kept when an exception is
  thrown, as in C++. Undefined behaviour is an exception of its own (\<open>Undefined\<close>) that no handler
  catches, so that "this does not go wrong" can be stated and proved. Shared pointers are names into
  tables: users are named by session id, members by room and session id, rooms and rules by number.
  \<open>size\_t\<close> is \<open>64 word\<close> where wrapping matters, \<open>int\<close> is HOL's \<open>int\<close> with its bounds written out. Random
  draws, clocks, \<open>boost::split\<close>, \<open>boost::lexical\_cast\<close>, UUID printing, \<open>std::shuffle\<close> and the JSON
  library are arguments; what the code relies on is a hypothesis (the locale \<open>splitter\<close>, the
  predicates \<open>casts\_fit\<close>, \<open>documented\<close> and \<open>protobuf\_documented\<close>).

  Theories and what they model.
  \<^item> Prelude, Failures, Results, Cpp\_Strings: the action monad with its rules for invariants
    (\<open>preserves\<close>) and outcomes (\<open>safe\<close>), ordered maps; all exception classes; \<open>Result\<close> and the search
    helpers of \<open>common\<close>; the functions of \<open>std::string\<close>, with \<open>npos\<close> and wrapping positions.
  \<^item> Signals: \<open>Signal.hpp\<close>. Ids are distinct until the counter wraps, and a once-listener is called
    exactly once.
  \<^item> Channels, Weak\_Vectors: \<open>ChannelSingleQueue\<close>, \<open>ChannelMultiQueue\<close>, \<open>WeakVector\<close>. In every
    interleaving of sends, receives, creation and expiry of consumers, a consumer gets the accepted
    messages exactly once and in order; and which interleavings crash. The locale \<open>fifo\<close> is the contract
    of a channel, interpreted on the single queue.
  \<^item> Session\_Ids, Command\_Line, Chat\_Names: session ids and tokens; command parsing with its round
    trip; nicknames, room codes and their generators.
  \<^item> Chat\_Members, Chat\_Room, Game\_Control: users, members and their order, \<open>Room.cpp\<close> with its
    caches, limits, waitlist, disqualification, broadcasts, and the operations that call the game.
    Member\_Pointers has the operators of \<open>MemberPtr\<close> and shows that they order the sets as the ordered
    maps do (locale \<open>set\_order\<close>). \<open>MemberGuard\<close> is \<open>guarded\<close>; \<open>is\_game\_active\<close> is the flag \<open>\_game\_started\<close>.
  \<^item> Room\_Invariant, Room\_Operations, Room\_Properties, Room\_Runs: the invariant \<open>room\_inv\<close> (the cached
    sets and counters are those of the members, the owner is a member, an active game is loaded),
    that every operation keeps it, and what joining, the limits and the waitlist do, stated on the members sorted by the time they joined. The locale
    \<open>game\_contract\<close> says what a room relies on of its game.
  \<^item> Simon\_Game, Simon\_Rounds: the Simon controller, the interpretation of \<open>game\_contract\<close> on it, the
    invariant of all rooms that are reached with fresh clock readings, and the cached sets as functions of the members; the rules of Simon as an abstract game, and that the processing of
    any sequence of messages refines it.
  \<^item> Server\_Manager, Room\_Commands, Server\_Daemon, Server\_Properties,
    Server\_Membership: \<open>ServerManager.cpp\<close>, every
    command of \<open>commands.cpp\<close>, \<open>chatserver.cpp\<close>, \<open>Server.cpp\<close> and the loop. A run of the server is a
    sequence of connections, disconnections, packets and game updates (\<open>server\_run\<close>); as long as no two
    users join a room at one clock reading and new rooms find their uninitialised flag false (\<open>events\_fresh\<close>), the room
    invariant holds of every room in every state, and every member of a room is mapped
    to it by the manager.
  \<^item> Game\_Spec, Dsl\_Text, Interpreter, Game\_Runner, Dsl\_Properties, Runner\_Properties:
    expressions, paths, rules and game states; the text functions of \<open>DSLInterpreter.cpp\<close>; one action
    per visit of \<open>InterpretVisitor\<close>; \<open>GameInstance\<close> and its controller; and their laws. Dsl\_Driver has the two test drivers and what they
    print, Rule\_Book the unused \<open>RuleBook.h\<close> with its comparisons.
  \<^item> Sockets, Socket\_Adapter: \<open>BeastSocket\<close> as the interleaved steps of sending threads and completion
    handlers, with its reachable states as an inductive set; the adapters of a socket and the text
    packets.
  \<^item> Listeners, Connections: \<open>BeastContext\<close> and \<open>BeastSocketListener\<close> as events of the acceptor and of the
    handshakes; a connection with its socket and its channel together, from the bytes that are read to
    the packets the server loop takes; and the startup of the server, whose handlers are attached while
    the network threads run.
  \<^item> Logging, Console\_Log: collected values, entries, log streams with the write position of their
    \<open>stringstream\<close>, factories; the plain and the coloured formatter and the console adapter, with what a
    terminal shows of their output.
  \<^item> Daemon\_Main: \<open>main\<close>, with all its errors: the configuration, the listener that cannot be bound, the
    weak exchange that fails. Once in the loop it never returns, and its runs, with the network threads and the ticks in any order, refine
    \<open>server\_run\<close>, so that the invariants above hold of the program; and every registered client has a user.
  \<^item> Daemon\_Threads: the same program with the tick taken apart. Accept handlers, arriving messages, closing
    connections (lock of the client map, then mutex of the disconnected) and the steps of the tick are
    interleaved; who departs is worked off once and sends nothing afterwards, packets always find a
    user, the two locks cannot deadlock, and the invariants of the rooms hold there too.
  \<^item> Chat\_Client, Chat\_Window: the terminal client of \<open>removeme\_chatclient\<close>, with its outstanding operations (a second write or close
    while one is outstanding breaks Beast's rule and is a failed assertion), its main
    loop and the calls it makes to curses; what it shows of the answers of the server; the
    window from its constructor to its destructor.
  \<^item> Json\_Packets: \<open>JsonPacket\<close> over protobuf, which is given by its functions.
  \<^item> Player\_Database: \<open>database.cpp\<close>, with its handle and the statements handed to SQLite as its state.
    Database\_Suite: its test suite \<open>testSuite.cpp\<close> as a program: the statements it hands over whatever SQLite answers, and
    its end, a second close.
  \<^item> Serializer, Serializer\_Properties: \<open>jsonSerializer.cpp\<close> and \<open>config.cpp\<close>; the parser of expressions
    against the relation \<open>represents\<close>, the validation against the predicate \<open>conforms\<close>.

  Bounds. \<open>pick\_code\<close> works through a list of draws, and ends with the first unused code;
  \<open>Out\_of\_fuel\<close> says that all draws were in use. \<open>tokenizer\<close> gets one round per character and one more,
  which is proved to be enough. \<open>update\_state\<close> gets any number of rounds: the property
  \<open>add\_rule\_runs\_twice\<close> shows how many are enough for a rule that ends, \<open>update\_never\_returns\<close> that none
  are for the others. \<open>parse\_expression\<close> gets a depth, and every value that represents an expression
  has one that is enough. \<open>wv\_remove\_shared\<close> is a \<open>partial\_function\<close> that is proved never to return.

  What the model leaves out inside these parts. The log lines that the other modules write. The iteration order of
  \<open>unordered\_map\<close> is the order of an association list. \<open>RuleState\<close> takes \<open>&(*rule->next)\<close> also of a null
  pointer: this undefined behaviour is recorded in the state (\<open>rs_faults\<close>), and the model goes on with a null pointer,
  which is what the program sees where it survives. \<open>getInputRequests\<close> inserts a missing name into a request it returns; this insertion is not
  kept. The accept handler uses the maps of the server manager on a network thread
  without a lock against the tick: each such use is one atomic step, a data race on the maps is not modelled. In \<open>Sockets\<close>, Beast's documented ban on destroying a stream with
  operations pending, which \<open>close\<close> breaks, is not an assertion of the model.

  Not modelled. \<open>interpreter\_prototyping\<close> (its \<open>main\<close> is commented out). The form driver of curses. The bodies of the twenty functions \<open>parseRule...\<close> are commented out in
  the source: their effect, running off the end of a function, is modelled.
\<close>

end
